(* ===== verification/Prelude.thy ===== *)
theory Prelude
  imports Main "HOL-Library.Word" "HOL-Library.Monad_Syntax"
begin

unbundle bit_operations_syntax

text \<open>
  Types, byte memories and generic lemmas that the component theories share.

  C's fixed-width integers are words of the same width. Plain \<open>int\<close> values that
  the code mixes with \<open>uint32_t\<close> are 32-bit words too and are read with
  \<open>sint\<close> where the code compares them as signed. Arrays are functions from
  indices. A C function that may fail to return (a failed \<open>assert\<close>, or a loop
  over a damaged linked list) has result type \<open>option\<close>, and \<open>None\<close> is the
  run that never comes back.
\<close>

type_synonym u8 = "8 word"
type_synonym u16 = "16 word"
type_synonym u32 = "32 word"
type_synonym u64 = "64 word"

type_synonym mem = "u32 \<Rightarrow> u8"

named_theorems c_defs \<open>unfolding of the C operators that the model writes as words\<close>
named_theorems frame \<open>fields that an operation leaves alone\<close>


lemma len_simps [simp]: "LENGTH(8) = 8" "LENGTH(16) = 16" "LENGTH(32) = 32" "LENGTH(64) = 64"
  by simp_all


lemma unat_less_exp: "unat (x :: u32) < 2 ^ 32"
  using unsigned_less [of x] by simp

lemma unat_u32_u64 [simp]: "unat (ucast (x :: u32) :: u64) = unat x"
proof -
  have "unat x < 2 ^ 64" using unat_less_exp [of x] by simp
  then show ?thesis by (simp add: unsigned_ucast_eq take_bit_nat_def)
qed

lemma word_minus_one_32: "(- 1 :: u32) = 4294967295"
  by simp

lemma unat_numeral_32: "unat (4294967295 :: u32) = 4294967295"
  by simp

lemma unat_not_max: "(w :: u32) \<noteq> - 1 \<Longrightarrow> unat w + 1 < 2 ^ 32"
proof -
  assume w: "w \<noteq> - 1"
  have "unat w \<noteq> 4294967295"
  proof
    assume "unat w = 4294967295"
    then have "unat w = unat (4294967295 :: u32)" by (simp only: unat_numeral_32)
    then have "w = 4294967295" by (simp only: word_unat_eq_iff)
    with w show False by simp
  qed
  then show ?thesis using unat_less_exp [of w] by simp
qed

lemma and_7_less: "(x :: u32) AND 7 < 8"
proof -
  have "x AND 7 = take_bit 3 x" by (simp add: take_bit_eq_mask mask_eq_exp_minus_1)
  moreover have "take_bit 3 (unat x) < 2 ^ 3" by (rule take_bit_nat_less_exp)
  ultimately show ?thesis by (simp add: word_less_nat_alt unsigned_take_bit_eq)
qed

section \<open>C operators on 32-bit values\<close>

text \<open>
  Shifts by 32 or more are undefined in C. The model takes the count modulo 32,
  which is what the x86 host that the emulator targets does, and which makes the
  rotation idiom of \<open>ROTATE_RIGHT_LONG\<close> the identity for a count of zero.
\<close>

definition shl32 :: "u32 \<Rightarrow> u32 \<Rightarrow> u32" where
  "shl32 x n = push_bit (unat (n AND 31)) x"

definition shr32 :: "u32 \<Rightarrow> u32 \<Rightarrow> u32" where
  "shr32 x n = drop_bit (unat (n AND 31)) x"

definition sar32 :: "u32 \<Rightarrow> u32 \<Rightarrow> u32" where
  "sar32 x n = signed_drop_bit (unat (n AND 31)) x"

definition ROTATE_RIGHT_LONG :: "u32 \<Rightarrow> u32 \<Rightarrow> u32" where
  "ROTATE_RIGHT_LONG x n = shr32 x n OR shl32 x (32 - n)"

definition SIGNEXT8 :: "u32 \<Rightarrow> u32" where
  "SIGNEXT8 x = scast (ucast x :: u8)"

definition SIGNEXT16 :: "u32 \<Rightarrow> u32" where
  "SIGNEXT16 x = scast (ucast x :: u16)"

text \<open>The value of a C condition stored in an integer.\<close>

definition b2w :: "bool \<Rightarrow> u32" where
  "b2w b = (if b then 1 else 0)"

lemmas [c_defs] = shl32_def shr32_def sar32_def b2w_def

lemma b2w_simps [simp]: "b2w True = 1" "b2w False = 0" "b2w b = 0 \<longleftrightarrow> \<not> b" "b2w b \<noteq> 0 \<longleftrightarrow> b"
  by (simp_all add: b2w_def)

lemma rotate_zero: "ROTATE_RIGHT_LONG x 0 = x"
  by (simp add: ROTATE_RIGHT_LONG_def c_defs)

text \<open>For the counts that occur, the idiom is a rotation to the right.\<close>

lemma unat_and_31: "n < 32 \<Longrightarrow> unat ((n :: u32) AND 31) = unat n"
proof -
  assume "n < 32"
  then have "n AND mask 5 = n"
    by (simp add: less_mask_eq)
  moreover have "(mask 5 :: u32) = 31"
    by (simp add: mask_eq_exp_minus_1)
  ultimately show ?thesis by simp
qed

lemma bit_rotate:
  assumes "0 < n" "n < 32"
  shows "bit (ROTATE_RIGHT_LONG x n) i \<longleftrightarrow> i < 32 \<and> bit x ((i + unat n) mod 32)"
proof -
  have n: "unat n < 32" "0 < unat n"
    using assms by (simp_all add: word_less_nat_alt word_greater_zero_iff unat_gt_0)
  have "(32 - n) AND 31 = 32 - n"
  proof -
    have "32 - n < 32" using assms by (simp add: word_less_nat_alt unat_sub word_le_nat_alt)
    then have "(32 - n) AND mask 5 = 32 - n" by (simp add: less_mask_eq)
    then show ?thesis by (simp add: mask_eq_exp_minus_1)
  qed
  moreover have "n \<le> 32"
    using assms by simp
  ultimately have s: "unat ((32 - n) AND 31) = 32 - unat n"
    by (simp add: unat_sub)
  have "bit (ROTATE_RIGHT_LONG x n) i \<longleftrightarrow>
      bit x (i + unat n) \<or> (32 - unat n \<le> i \<and> i < 32 \<and> bit x (i - (32 - unat n)))"
    using assms by (auto simp: ROTATE_RIGHT_LONG_def c_defs bit_simps unat_and_31 s add.commute)
  also have "\<dots> \<longleftrightarrow> i < 32 \<and> bit x ((i + unat n) mod 32)"
  proof (cases "i + unat n < 32")
    case True
    then show ?thesis by auto
  next
    case False
    then have "(i + unat n) mod 32 = i + unat n - 32" if "i < 32"
      using that n by (simp add: mod_if)
    moreover have "\<not> bit x (i + unat n)"
      using False by (auto dest: bit_imp_le_length)
    ultimately show ?thesis using False n by (auto simp: algebra_simps)
  qed
  finally show ?thesis .
qed


section \<open>Little-endian byte memory\<close>

text \<open>
  \<open>MMIO_READ\<close> and \<open>MMIO_WRITE\<close> of \<open>mmio.h\<close> are 32-bit accesses through a
  cast of a byte pointer, as are the accesses to the RAM arrays; the hosts that
  lxdream supports are little-endian.
\<close>

definition ld8 :: "mem \<Rightarrow> u32 \<Rightarrow> u32" where
  "ld8 m a = ucast (m a)"

definition ld16 :: "mem \<Rightarrow> u32 \<Rightarrow> u32" where
  "ld16 m a = ucast (m a) OR push_bit 8 (ucast (m (a + 1)))"

definition ld32 :: "mem \<Rightarrow> u32 \<Rightarrow> u32" where
  "ld32 m a = ucast (m a) OR push_bit 8 (ucast (m (a + 1)))
     OR push_bit 16 (ucast (m (a + 2))) OR push_bit 24 (ucast (m (a + 3)))"

definition st8 :: "mem \<Rightarrow> u32 \<Rightarrow> u32 \<Rightarrow> mem" where
  "st8 m a v = m(a := ucast v)"

definition st16 :: "mem \<Rightarrow> u32 \<Rightarrow> u32 \<Rightarrow> mem" where
  "st16 m a v = m(a := ucast v, a + 1 := ucast (drop_bit 8 v))"

definition st32 :: "mem \<Rightarrow> u32 \<Rightarrow> u32 \<Rightarrow> mem" where
  "st32 m a v = m(a := ucast v, a + 1 := ucast (drop_bit 8 v),
     a + 2 := ucast (drop_bit 16 v), a + 3 := ucast (drop_bit 24 v))"

lemma byte_split32:
  "ucast (ucast v :: u8) OR push_bit 8 (ucast (ucast (drop_bit 8 v) :: u8))
     OR push_bit 16 (ucast (ucast (drop_bit 16 v) :: u8))
     OR push_bit 24 (ucast (ucast (drop_bit 24 v) :: u8)) = (v :: u32)" (is "?bytes = v")
proof (rule bit_word_eqI)
  fix n assume "n < LENGTH(32)"
  then have "n < 8 \<or> 8 \<le> n \<and> n < 16 \<or> 16 \<le> n \<and> n < 24 \<or> 24 \<le> n \<and> n < 32"
    by auto
  then show "bit ?bytes n = bit v n"
    by (elim disjE) (auto simp: bit_simps)
qed

lemma ld32_st32 [simp]: "ld32 (st32 m a v) a = v"
  by (simp add: ld32_def st32_def byte_split32)

lemma ld8_st8 [simp]: "ld8 (st8 m a v) a = v AND 255"
proof -
  have "ucast (ucast v :: u8) = take_bit 8 v"
    by (rule bit_word_eqI) (auto simp: bit_simps)
  then show ?thesis
    by (simp add: ld8_def st8_def take_bit_eq_mask mask_eq_exp_minus_1)
qed

text \<open>
  Two 32-bit accesses touch no common byte when each address is more than three
  bytes away from the other, in either direction and modulo the address width.
\<close>

definition apart :: "u32 \<Rightarrow> u32 \<Rightarrow> bool" where
  "apart a b \<longleftrightarrow> 3 < a - b \<and> 3 < b - a"

lemma apart_offset:
  assumes "apart a b" "i \<in> {0, 1, 2, 3}" "j \<in> {0, 1, 2, 3}"
  shows "a + i \<noteq> b + j"
proof
  assume eq: "a + i = b + j"
  have "a - b = (a + i) - (b + i)" by simp
  also have "\<dots> = (b + j) - (b + i)" by (simp only: eq)
  finally have ab: "a - b = j - i" by simp
  have "b - a = (b + j) - (a + j)" by simp
  also have "\<dots> = (a + i) - (a + j)" by (simp only: eq)
  finally have "b - a = i - j" by simp
  with ab assms show False by (auto simp: apart_def)
qed

lemma apart_neq:
  assumes "apart a b"
  shows "a \<noteq> b" "a \<noteq> b + 1" "a \<noteq> b + 2" "a \<noteq> b + 3"
    "a + 1 \<noteq> b" "a + 2 \<noteq> b" "a + 3 \<noteq> b"
    "a + 1 \<noteq> b + 2" "a + 1 \<noteq> b + 3" "a + 2 \<noteq> b + 1" "a + 2 \<noteq> b + 3"
    "a + 3 \<noteq> b + 1" "a + 3 \<noteq> b + 2"
  using apart_offset [OF assms] by (simp_all, (metis add_0_right)+)

lemma ld32_st32_apart [simp]: "apart a b \<Longrightarrow> ld32 (st32 m a v) b = ld32 m b"
  using apart_neq [of a b] by (auto simp: ld32_def st32_def)


section \<open>Loops over a fixed range that may not come back\<close>

fun for_each :: "'i list \<Rightarrow> ('i \<Rightarrow> 's \<Rightarrow> 's option) \<Rightarrow> 's \<Rightarrow> 's option" where
  "for_each [] f s = Some s"
| "for_each (i # is) f s = Option.bind (f i s) (for_each is f)"

lemma for_each_inv:
  assumes "\<And>i s. i \<in> set is \<Longrightarrow> P s \<Longrightarrow> \<exists>s'. f i s = Some s' \<and> P s'" "P s"
  shows "\<exists>s'. for_each is f s = Some s' \<and> P s'"
  using assms
proof (induction "is" arbitrary: s)
  case (Cons i "is")
  then obtain s1 where "f i s = Some s1" "P s1" by (meson list.set_intros(1))
  with Cons show ?case by auto
qed simp

end
