(* ===== verification/Sh4Regs.thy ===== *)
theory Sh4Regs
  imports Prelude
begin

unbundle bit_operations_syntax

text \<open>
  The SH4 register file of \<open>sh4/sh4.h\<close> and the bits of \<open>sh4/sh4core.h\<close>. The
  event queue, the interrupt controller, the timers and the ASIC all read or
  write these registers, so the states of those components extend this record.
  Floating point registers are kept as their bit patterns: this code only moves
  them. \<open>fpul\<close>, \<open>mac\<close>, \<open>gbr\<close>, \<open>dbr\<close>, \<open>pr\<close>, the store queue and
  \<open>bus_cycle\<close> are touched by instructions only and are left out.
\<close>

record sh4_registers =
  sh4_r :: "nat \<Rightarrow> u32"
  sh4_sr :: u32
  sh4_pc :: u32
  sh4_t :: u32
  sh4_m :: u32
  sh4_q :: u32
  sh4_s :: u32
  sh4_fr :: "nat \<Rightarrow> nat \<Rightarrow> u32"
  sh4_fpscr :: u32
  sh4_ssr :: u32
  sh4_spc :: u32
  sh4_sgr :: u32
  sh4_vbr :: u32
  sh4_r_bank :: "nat \<Rightarrow> u32"
  sh4_new_pc :: u32
  sh4_event_pending :: u32
  sh4_event_types :: u32
  sh4_in_delay_slot :: u32
  sh4_slice_cycle :: u32
  sh4_state :: u32
  sh4_xlat_mode :: u32

definition PENDING_IRQ :: u32 where "PENDING_IRQ = 1"
definition PENDING_EVENT :: u32 where "PENDING_EVENT = 2"

definition SR_MD :: u32 where "SR_MD = 0x40000000"
definition SR_RB :: u32 where "SR_RB = 0x20000000"
definition SR_BL :: u32 where "SR_BL = 0x10000000"
definition SR_FD :: u32 where "SR_FD = 0x00008000"
definition SR_M :: u32 where "SR_M = 0x00000200"
definition SR_Q :: u32 where "SR_Q = 0x00000100"
definition SR_IMASK :: u32 where "SR_IMASK = 0x000000F0"
definition SR_S :: u32 where "SR_S = 0x00000002"
definition SR_T :: u32 where "SR_T = 0x00000001"
definition SR_MASK :: u32 where "SR_MASK = 0x700083F3"
definition SR_MQSTMASK :: u32 where "SR_MQSTMASK = 0xFFFFFCFC"
definition SR_MDRB :: u32 where "SR_MDRB = 0x60000000"

named_theorems sh4_bits \<open>the SH4 bit masks\<close>
lemmas [sh4_bits] = PENDING_IRQ_def PENDING_EVENT_def SR_MD_def SR_RB_def SR_BL_def SR_FD_def
  SR_M_def SR_Q_def SR_IMASK_def SR_S_def SR_T_def SR_MASK_def SR_MQSTMASK_def SR_MDRB_def

definition SH4_INTMASK :: "('a) sh4_registers_scheme \<Rightarrow> u32" where
  "SH4_INTMASK s = drop_bit 4 (sh4_sr s AND SR_IMASK)"

definition sh4_set_event_pending :: "u32 \<Rightarrow> ('a) sh4_registers_scheme \<Rightarrow> ('a) sh4_registers_scheme" where
  "sh4_set_event_pending cycles s = s\<lparr>sh4_event_pending := cycles\<rparr>"

text \<open>Setting and clearing one of the two bits of \<open>event_types\<close>.\<close>

lemma pending_nonzero [simp]: "PENDING_EVENT \<noteq> 0" "PENDING_IRQ \<noteq> 0"
  by (simp_all add: sh4_bits)

lemma event_types_bits [simp]:
  "(x OR PENDING_EVENT) AND PENDING_EVENT \<noteq> 0"
  "(x AND NOT PENDING_EVENT) AND PENDING_EVENT = 0"
  "(x OR PENDING_IRQ) AND PENDING_IRQ \<noteq> 0"
  "(x AND NOT PENDING_IRQ) AND PENDING_IRQ = 0"
  "(x OR PENDING_EVENT) AND PENDING_IRQ = x AND PENDING_IRQ"
  "(x AND NOT PENDING_EVENT) AND PENDING_IRQ = x AND PENDING_IRQ"
  "(x OR PENDING_IRQ) AND PENDING_EVENT = x AND PENDING_EVENT"
  "(x AND NOT PENDING_IRQ) AND PENDING_EVENT = x AND PENDING_EVENT"
  by (simp_all add: sh4_bits bit.conj_disj_distrib2 and.assoc)

end
