(* ===== verification/EventQ.thy ===== *)
theory EventQ
  imports Sh4Regs
begin

unbundle bit_operations_syntax

text \<open>
  The event queue of \<open>eventq.c\<close>. The events are a static array of structs that
  are linked through their \<open>next\<close> pointers into two lists: the short queue,
  sorted by time within the current slice, and the unsorted list of events more
  than a second away. The model keeps the array and the pointers (an index into the
  array, \<open>None\<close> for \<open>NULL\<close>), so aliasing between the lists is visible; the
  loops that chase pointers are \<open>partial_function\<close>s, whose termination on
  well-formed lists is part of the theorems.
\<close>

section \<open>State\<close>

text \<open>The functions the code registers as event callbacks.\<close>

datatype event_func = FN_NULL | FN_event_asic_callback | FN_TMU_event_callback | FN_pvr2_hpos_callback
  | FN_pvr2_scanline_callback | FN_pvr2_gunpos_callback | FN_maple_event_handler | FN_sh4_dummy_event

record event =
  ev_id :: u32
  ev_seconds :: u32
  ev_nanosecs :: u32
  ev_func :: event_func
  ev_next :: "nat option"

record eventq_state = sh4_registers +
  eq_events :: "nat \<Rightarrow> event"
  long_scan_time_remaining :: u32
  event_head :: "nat option"
  long_event_head :: "nat option"

definition LONG_SCAN_PERIOD :: u32 where "LONG_SCAN_PERIOD = 1000000000"
definition NOT_SCHEDULED :: u32 where "NOT_SCHEDULED = 0xFFFFFFFF"
definition MAX_EVENT_ID :: nat where "MAX_EVENT_ID = 128"

text \<open>Assignments through an event pointer.\<close>

definition upd_event :: "nat \<Rightarrow> (event \<Rightarrow> event) \<Rightarrow> ('a) eventq_state_scheme \<Rightarrow> ('a) eventq_state_scheme" where
  "upd_event e f s = s\<lparr>eq_events := (eq_events s)(e := f (eq_events s e))\<rparr>"

abbreviation ns_of :: "('a) eventq_state_scheme \<Rightarrow> nat \<Rightarrow> u32" where
  "ns_of s e \<equiv> ev_nanosecs (eq_events s e)"

section \<open>Operations\<close>

definition event_update_pending :: "('a) eventq_state_scheme \<Rightarrow> ('a) eventq_state_scheme" where
  "event_update_pending s =
    (case event_head s of
       None \<Rightarrow>
         (let s1 = (if sh4_event_types s AND PENDING_IRQ = 0
                    then sh4_set_event_pending NOT_SCHEDULED s else s)
          in s1\<lparr>sh4_event_types := sh4_event_types s1 AND NOT PENDING_EVENT\<rparr>)
     | Some h \<Rightarrow>
         (let s1 = (if sh4_event_types s AND PENDING_IRQ = 0
                    then sh4_set_event_pending (ns_of s h) s else s)
          in s1\<lparr>sh4_event_types := sh4_event_types s1 OR PENDING_EVENT\<rparr>))"

definition event_get_next_time :: "('a) eventq_state_scheme \<Rightarrow> u32" where
  "event_get_next_time s =
    (case event_head s of None \<Rightarrow> NOT_SCHEDULED | Some h \<Rightarrow> ns_of s h)"

text \<open>
  The loop of \<open>event_enqueue\<close> with the two assignments that follow it, which
  link \<open>e\<close> between the last values of \<open>cur\<close> and \<open>next\<close>.
\<close>

definition link_event :: "nat \<Rightarrow> nat \<Rightarrow> nat option \<Rightarrow> ('a) eventq_state_scheme \<Rightarrow> ('a) eventq_state_scheme" where
  "link_event e cur nxt s = upd_event cur (ev_next_update (\<lambda>_. Some e))
     (upd_event e (ev_next_update (\<lambda>_. nxt)) s)"

partial_function (option) enqueue_loop ::
  "nat \<Rightarrow> nat \<Rightarrow> nat option \<Rightarrow> ('a) eventq_state_scheme \<Rightarrow> ('a) eventq_state_scheme option" where
  "enqueue_loop e cur nxt s =
    (case nxt of
       None \<Rightarrow> Some (link_event e cur nxt s)
     | Some n \<Rightarrow> if ns_of s n \<le> ns_of s e then enqueue_loop e n (ev_next (eq_events s n)) s
                 else Some (link_event e cur nxt s))"

definition event_enqueue :: "nat \<Rightarrow> ('a) eventq_state_scheme \<Rightarrow> ('a) eventq_state_scheme option" where
  "event_enqueue e s =
    (if event_head s = None \<or> ns_of s e < ns_of s (the (event_head s)) then
       Some (event_update_pending
         ((upd_event e (ev_next_update (\<lambda>_. event_head s)) s)\<lparr>event_head := Some e\<rparr>))
     else let cur = the (event_head s) in enqueue_loop e cur (ev_next (eq_events s cur)) s)"

text \<open>
  The loop shared by \<open>event_dequeue\<close> and \<open>event_dequeue_long\<close>: it unlinks
  \<open>e\<close> behind its predecessor, if it finds it.
\<close>

partial_function (option) dequeue_loop ::
  "nat \<Rightarrow> nat \<Rightarrow> nat option \<Rightarrow> ('a) eventq_state_scheme \<Rightarrow> ('a) eventq_state_scheme option" where
  "dequeue_loop e cur nxt s =
    (case nxt of
       None \<Rightarrow> Some s
     | Some n \<Rightarrow>
         if n = e then Some (upd_event cur (ev_next_update (\<lambda>_. ev_next (eq_events s n))) s)
         else dequeue_loop e n (ev_next (eq_events s n)) s)"

definition event_dequeue :: "nat \<Rightarrow> ('a) eventq_state_scheme \<Rightarrow> ('a) eventq_state_scheme option" where
  "event_dequeue e s =
    (case event_head s of
       None \<Rightarrow> Some s
     | Some h \<Rightarrow>
         if h = e then Some (event_update_pending (s\<lparr>event_head := ev_next (eq_events s h)\<rparr>))
         else dequeue_loop e h (ev_next (eq_events s h)) s)"

definition event_dequeue_long :: "nat \<Rightarrow> ('a) eventq_state_scheme \<Rightarrow> ('a) eventq_state_scheme option" where
  "event_dequeue_long e s =
    (case long_event_head s of
       None \<Rightarrow> Some s
     | Some h \<Rightarrow>
         if h = e then Some (s\<lparr>long_event_head := ev_next (eq_events s h)\<rparr>)
         else dequeue_loop e h (ev_next (eq_events s h)) s)"

definition register_event_callback ::
  "nat \<Rightarrow> event_func \<Rightarrow> ('a) eventq_state_scheme \<Rightarrow> ('a) eventq_state_scheme" where
  "register_event_callback eventid f s = upd_event eventid (ev_func_update (\<lambda>_. f)) s"

definition event_cancel :: "nat \<Rightarrow> ('a) eventq_state_scheme \<Rightarrow> ('a) eventq_state_scheme option" where
  "event_cancel eventid s =
    (if ns_of s eventid = NOT_SCHEDULED then Some s
     else
       let s1 = upd_event eventid (ev_nanosecs_update (\<lambda>_. NOT_SCHEDULED)) s
       in if ev_seconds (eq_events s1 eventid) \<noteq> 0 then event_dequeue_long eventid s1
          else event_dequeue eventid s1)"

definition event_schedule :: "nat \<Rightarrow> u32 \<Rightarrow> ('a) eventq_state_scheme \<Rightarrow> ('a) eventq_state_scheme option" where
  "event_schedule eventid nanosecs s =
    (let ns = nanosecs + sh4_slice_cycle s
     in do {
       s1 \<leftarrow> (if ns_of s eventid \<noteq> NOT_SCHEDULED then event_cancel eventid s else Some s);
       event_enqueue eventid (upd_event eventid
         (\<lambda>ev. ev\<lparr>ev_id := of_nat eventid, ev_seconds := 0, ev_nanosecs := ns\<rparr>) s1) })"

definition event_schedule_long ::
  "nat \<Rightarrow> u32 \<Rightarrow> u32 \<Rightarrow> ('a) eventq_state_scheme \<Rightarrow> ('a) eventq_state_scheme option" where
  "event_schedule_long eventid seconds nanosecs s =
    (if seconds = 0 then event_schedule eventid nanosecs s
     else do {
       s1 \<leftarrow> (if ns_of s eventid \<noteq> NOT_SCHEDULED then event_cancel eventid s else Some s);
       let s2 = upd_event eventid (\<lambda>ev. ev\<lparr>ev_id := of_nat eventid, ev_seconds := seconds,
             ev_nanosecs := nanosecs + sh4_slice_cycle s1
               + (LONG_SCAN_PERIOD - long_scan_time_remaining s1),
             ev_next := long_event_head s1\<rparr>) s1;
       Some (s2\<lparr>long_event_head := Some eventid\<rparr>) })"

text \<open>
  \<open>event_execute\<close> calls through the function pointer of each due event; \<open>call\<close>
  says what the registered functions do to the state.
\<close>

definition event_pop :: "nat \<Rightarrow> ('a) eventq_state_scheme \<Rightarrow> ('a) eventq_state_scheme" where
  "event_pop e s = upd_event e (ev_nanosecs_update (\<lambda>_. NOT_SCHEDULED))
     (s\<lparr>event_head := ev_next (eq_events s e)\<rparr>)"

partial_function (option) execute_loop ::
  "(event_func \<Rightarrow> u32 \<Rightarrow> ('a) eventq_state_scheme \<Rightarrow> ('a) eventq_state_scheme option)
   \<Rightarrow> ('a) eventq_state_scheme \<Rightarrow> ('a) eventq_state_scheme option" where
  "execute_loop call s =
    (case event_head s of
       None \<Rightarrow> Some s
     | Some e \<Rightarrow>
         if ns_of s e \<le> sh4_slice_cycle s then
           Option.bind (call (ev_func (eq_events s e)) (ev_id (eq_events s e)) (event_pop e s))
             (execute_loop call)
         else Some s)"

definition event_execute ::
  "(event_func \<Rightarrow> u32 \<Rightarrow> ('a) eventq_state_scheme \<Rightarrow> ('a) eventq_state_scheme option)
   \<Rightarrow> ('a) eventq_state_scheme \<Rightarrow> ('a) eventq_state_scheme option" where
  "event_execute call s = map_option event_update_pending (execute_loop call s)"

definition event_init :: "('a) eventq_state_scheme \<Rightarrow> ('a) eventq_state_scheme" where
  "event_init s = s\<lparr>
     eq_events := (\<lambda>i. if i < MAX_EVENT_ID
       then (eq_events s i)\<lparr>ev_id := of_nat i, ev_nanosecs := NOT_SCHEDULED,
              ev_func := (if i < 96 then FN_event_asic_callback else FN_NULL), ev_next := None\<rparr>
       else eq_events s i),
     event_head := None, long_event_head := None,
     long_scan_time_remaining := LONG_SCAN_PERIOD\<rparr>"

definition event_reset :: "('a) eventq_state_scheme \<Rightarrow> ('a) eventq_state_scheme" where
  "event_reset s = s\<lparr>event_head := None, long_event_head := None,
     long_scan_time_remaining := LONG_SCAN_PERIOD,
     eq_events := (\<lambda>i. if i < MAX_EVENT_ID
       then (eq_events s i)\<lparr>ev_nanosecs := NOT_SCHEDULED\<rparr> else eq_events s i)\<rparr>"

text \<open>The saved state is a sequence of 32-bit values; a pointer is saved as the id it points to.\<close>

definition ptr_id :: "('a) eventq_state_scheme \<Rightarrow> nat option \<Rightarrow> u32" where
  "ptr_id s p = (case p of None \<Rightarrow> - 1 | Some e \<Rightarrow> ev_id (eq_events s e))"

definition event_save_state :: "('a) eventq_state_scheme \<Rightarrow> u32 list" where
  "event_save_state s =
     [ptr_id s (event_head s), ptr_id s (long_event_head s), long_scan_time_remaining s]
     @ concat (map (\<lambda>i. [ev_id (eq_events s i), ev_seconds (eq_events s i),
         ev_nanosecs (eq_events s i), ptr_id s (ev_next (eq_events s i))]) [0..<MAX_EVENT_ID])"

definition id_ptr :: "u32 \<Rightarrow> nat option" where
  "id_ptr w = (if w = - 1 then None else Some (unat w))"

fun load_events :: "nat \<Rightarrow> u32 list \<Rightarrow> ('a) eventq_state_scheme \<Rightarrow> ('a) eventq_state_scheme" where
  "load_events i (w1 # w2 # w3 # w4 # ws) s = load_events (Suc i) ws
     (upd_event i (\<lambda>ev. ev\<lparr>ev_id := w1, ev_seconds := w2, ev_nanosecs := w3,
        ev_next := id_ptr w4\<rparr>) s)"
| "load_events i _ s = s"

fun event_load_state :: "u32 list \<Rightarrow> ('a) eventq_state_scheme \<Rightarrow> ('a) eventq_state_scheme" where
  "event_load_state (h # lh # r # ws) s = load_events 0 (take (4 * MAX_EVENT_ID) ws)
     (s\<lparr>event_head := id_ptr h, long_event_head := id_ptr lh, long_scan_time_remaining := r\<rparr>)"
| "event_load_state _ s = s"

text \<open>\<open>event_scan_long\<close>: the loop over the head of the list, then the loop over the rest.\<close>

definition dec_seconds :: "nat \<Rightarrow> ('a) eventq_state_scheme \<Rightarrow> ('a) eventq_state_scheme" where
  "dec_seconds e = upd_event e (\<lambda>ev. ev\<lparr>ev_seconds := ev_seconds ev - 1\<rparr>)"

partial_function (option) scan_head_loop ::
  "('a) eventq_state_scheme \<Rightarrow> ('a) eventq_state_scheme option" where
  "scan_head_loop s =
    (case long_event_head s of
       None \<Rightarrow> Some s
     | Some e \<Rightarrow>
         let s1 = dec_seconds e s
         in if ev_seconds (eq_events s1 e) = 0 then
              Option.bind (event_enqueue e (s1\<lparr>long_event_head := ev_next (eq_events s1 e)\<rparr>))
                scan_head_loop
            else Some s1)"

partial_function (option) scan_rest_loop ::
  "nat \<Rightarrow> nat option \<Rightarrow> ('a) eventq_state_scheme \<Rightarrow> ('a) eventq_state_scheme option" where
  "scan_rest_loop prev cur s =
    (case cur of
       None \<Rightarrow> Some s
     | Some c \<Rightarrow>
         let s1 = dec_seconds c s
         in if ev_seconds (eq_events s1 c) = 0 then
              Option.bind (event_enqueue c
                  (upd_event prev (ev_next_update (\<lambda>_. ev_next (eq_events s1 c))) s1))
                (\<lambda>s2. scan_rest_loop prev (ev_next (eq_events s2 prev)) s2)
            else scan_rest_loop c (ev_next (eq_events s1 c)) s1)"

definition event_scan_long :: "('a) eventq_state_scheme \<Rightarrow> ('a) eventq_state_scheme option" where
  "event_scan_long s = do {
     s1 \<leftarrow> scan_head_loop s;
     (case long_event_head s1 of
        None \<Rightarrow> Some s1
      | Some h \<Rightarrow> scan_rest_loop h (ev_next (eq_events s1 h)) s1) }"

partial_function (option) run_slice_loop ::
  "nat option \<Rightarrow> u32 \<Rightarrow> ('a) eventq_state_scheme \<Rightarrow> ('a) eventq_state_scheme option" where
  "run_slice_loop p nanosecs s =
    (case p of
       None \<Rightarrow> Some s
     | Some e \<Rightarrow>
         let s1 = (if ns_of s e \<le> nanosecs
                   then upd_event e (ev_nanosecs_update (\<lambda>_. 0)) s
                   else upd_event e (\<lambda>ev. ev\<lparr>ev_nanosecs := ev_nanosecs ev - nanosecs\<rparr>) s)
         in run_slice_loop (ev_next (eq_events s1 e)) nanosecs s1)"

definition event_run_slice :: "u32 \<Rightarrow> ('a) eventq_state_scheme \<Rightarrow> ('a) eventq_state_scheme option" where
  "event_run_slice nanosecs s = do {
     s1 \<leftarrow> run_slice_loop (event_head s) nanosecs s;
     let s2 = s1\<lparr>long_scan_time_remaining := long_scan_time_remaining s1 - nanosecs\<rparr>;
     s3 \<leftarrow> (if sint (long_scan_time_remaining s2) \<le> 0
           then event_scan_long
             (s2\<lparr>long_scan_time_remaining := long_scan_time_remaining s2 + LONG_SCAN_PERIOD\<rparr>)
           else Some s2);
     Some (event_update_pending s3) }"


section \<open>Linked lists in the event array\<close>

text \<open>\<open>chain ev p xs\<close>: following \<open>next\<close> from \<open>p\<close> visits exactly \<open>xs\<close>.\<close>

fun chain :: "(nat \<Rightarrow> event) \<Rightarrow> nat option \<Rightarrow> nat list \<Rightarrow> bool" where
  "chain ev p [] \<longleftrightarrow> p = None"
| "chain ev p (x # xs) \<longleftrightarrow> p = Some x \<and> chain ev (ev_next (ev x)) xs"

lemma chain_cong:
  "(\<And>x. x \<in> set xs \<Longrightarrow> ev_next (ev' x) = ev_next (ev x)) \<Longrightarrow> chain ev' p xs = chain ev p xs"
  by (induction xs arbitrary: p) auto

lemma chain_upd [simp]: "e \<notin> set xs \<Longrightarrow> chain (ev(e := v)) p xs = chain ev p xs"
  by (rule chain_cong) auto

lemma chain_upd_same [simp]:
  "ev_next v = ev_next (ev e) \<Longrightarrow> chain (ev(e := v)) p xs = chain ev p xs"
  by (rule chain_cong) auto

lemma chain_if_same [simp]:
  "ev_next v = ev_next (ev e) \<Longrightarrow> chain (\<lambda>a. if a = e then v else ev a) p xs = chain ev p xs"
  by (rule chain_cong) auto

lemma chain_None [simp]: "chain ev None xs \<longleftrightarrow> xs = []"
  by (cases xs) auto

lemma chain_unique: "chain ev p xs \<Longrightarrow> chain ev p ys \<Longrightarrow> xs = ys"
proof (induction xs arbitrary: p ys)
  case (Cons x xs)
  then show ?case by (cases ys) auto
qed (auto dest: sym)

text \<open>The position the code chooses: in front of the first strictly later event.\<close>

fun ins_ev :: "(nat \<Rightarrow> u32) \<Rightarrow> nat \<Rightarrow> nat list \<Rightarrow> nat list" where
  "ins_ev k e [] = [e]"
| "ins_ev k e (x # xs) = (if k x \<le> k e then x # ins_ev k e xs else e # x # xs)"

lemma set_ins_ev [simp]: "set (ins_ev k e xs) = insert e (set xs)"
  by (induction xs) auto

lemma distinct_ins_ev [simp]: "distinct (ins_ev k e xs) \<longleftrightarrow> e \<notin> set xs \<and> distinct xs"
  by (induction xs) auto

lemma ins_ev_cong: "(\<And>x. x \<in> insert e (set xs) \<Longrightarrow> k x = k' x) \<Longrightarrow> ins_ev k e xs = ins_ev k' e xs"
  by (induction xs) auto

lemma sorted_ins_ev: "sorted (map k xs) \<Longrightarrow> sorted (map k (ins_ev k e xs))"
  by (induction xs) auto

lemma sorted_ins_ev_stable:
  "sorted (map k xs) \<Longrightarrow>
     ins_ev k e xs = filter (\<lambda>x. k x \<le> k e) xs @ e # filter (\<lambda>x. k e < k x) xs"
proof (induction xs)
  case (Cons x xs)
  show ?case
  proof (cases "k x \<le> k e")
    case True
    with Cons show ?thesis by auto
  next
    case False
    with Cons.prems have "\<And>y. y \<in> set xs \<Longrightarrow> k e < k y" by fastforce
    then have "filter (\<lambda>y. k y \<le> k e) xs = []" "filter (\<lambda>y. k e < k y) xs = xs"
      by (auto simp: filter_empty_conv not_le filter_id_conv)
    with False show ?thesis by simp
  qed
qed simp

section \<open>What the operations leave alone\<close>

text \<open>
  Only the fields of the queue and the two SH4 fields that mirror it change, and a
  pending interrupt keeps its bit and its time.
\<close>

definition queue_fields :: "('a) eventq_state_scheme \<Rightarrow> ('a) eventq_state_scheme \<Rightarrow> bool" where
  "queue_fields s s' \<longleftrightarrow> s' = s\<lparr>sh4_event_pending := sh4_event_pending s',
     sh4_event_types := sh4_event_types s', eq_events := eq_events s',
     long_scan_time_remaining := long_scan_time_remaining s',
     event_head := event_head s', long_event_head := long_event_head s'\<rparr>"

definition irq_kept :: "('a) eventq_state_scheme \<Rightarrow> ('a) eventq_state_scheme \<Rightarrow> bool" where
  "irq_kept s s' \<longleftrightarrow> sh4_event_types s' AND PENDING_IRQ = sh4_event_types s AND PENDING_IRQ \<and>
     (sh4_event_types s AND PENDING_IRQ \<noteq> 0 \<longrightarrow> sh4_event_pending s' = sh4_event_pending s)"

definition eq_only :: "('a) eventq_state_scheme \<Rightarrow> ('a) eventq_state_scheme \<Rightarrow> bool" where
  "eq_only s s' \<longleftrightarrow> queue_fields s s' \<and> irq_kept s s'"

lemma queue_fields_trans: "queue_fields s s' \<Longrightarrow> queue_fields s' s'' \<Longrightarrow> queue_fields s s''"
  unfolding queue_fields_def by (erule ssubst)+ simp

lemma eq_only_refl [simp]: "eq_only s s"
  by (simp add: eq_only_def queue_fields_def irq_kept_def)

lemma eq_only_trans [trans]: "eq_only s s' \<Longrightarrow> eq_only s' s'' \<Longrightarrow> eq_only s s''"
  unfolding eq_only_def by (auto intro: queue_fields_trans simp: irq_kept_def)

lemma eq_only_upd [simp]:
  "eq_only s (upd_event e f s)"
  "eq_only s (s\<lparr>event_head := h\<rparr>)"
  "eq_only s (s\<lparr>long_event_head := h\<rparr>)"
  "eq_only s (s\<lparr>long_scan_time_remaining := r\<rparr>)"
  "eq_only s (event_update_pending s)"
  by (simp_all add: eq_only_def queue_fields_def irq_kept_def upd_event_def event_update_pending_def
    Let_def sh4_set_event_pending_def split: option.split)

lemma eq_only_slice: "eq_only s s' \<Longrightarrow> sh4_slice_cycle s' = sh4_slice_cycle s"
  unfolding eq_only_def queue_fields_def by (elim conjE, erule ssubst) simp

lemma upd_event_sel [simp]:
  "eq_events (upd_event e f s) = (eq_events s)(e := f (eq_events s e))"
  "event_head (upd_event e f s) = event_head s"
  "long_event_head (upd_event e f s) = long_event_head s"
  "long_scan_time_remaining (upd_event e f s) = long_scan_time_remaining s"
  "sh4_event_pending (upd_event e f s) = sh4_event_pending s"
  "sh4_event_types (upd_event e f s) = sh4_event_types s"
  "sh4_slice_cycle (upd_event e f s) = sh4_slice_cycle s"
  by (simp_all add: upd_event_def)

lemma event_update_pending_sel [simp]:
  "eq_events (event_update_pending s) = eq_events s"
  "event_head (event_update_pending s) = event_head s"
  "long_event_head (event_update_pending s) = long_event_head s"
  "long_scan_time_remaining (event_update_pending s) = long_scan_time_remaining s"
  "sh4_slice_cycle (event_update_pending s) = sh4_slice_cycle s"
  by (simp_all add: event_update_pending_def Let_def sh4_set_event_pending_def split: option.split)

text \<open>
  The mirror fields: bit 1 of \<open>event_types\<close> says whether the short queue is
  non-empty, and without a pending interrupt \<open>event_pending\<close> is its first time.
\<close>

definition pending_ok :: "('a) eventq_state_scheme \<Rightarrow> bool" where
  "pending_ok s \<longleftrightarrow> (sh4_event_types s AND PENDING_EVENT \<noteq> 0 \<longleftrightarrow> event_head s \<noteq> None) \<and>
     (sh4_event_types s AND PENDING_IRQ = 0 \<longrightarrow> sh4_event_pending s = event_get_next_time s)"

lemma pending_ok_update [simp]: "pending_ok (event_update_pending s)"
  by (auto simp: pending_ok_def event_update_pending_def Let_def sh4_set_event_pending_def
    event_get_next_time_def split: option.split)

lemma pending_ok_cong:
  "event_head s' = event_head s \<Longrightarrow> sh4_event_types s' = sh4_event_types s \<Longrightarrow>
   sh4_event_pending s' = sh4_event_pending s \<Longrightarrow>
   (\<And>h. event_head s = Some h \<Longrightarrow> ns_of s' h = ns_of s h) \<Longrightarrow> pending_ok s' = pending_ok s"
  by (auto simp: pending_ok_def event_get_next_time_def split: option.split)

section \<open>Linking and unlinking\<close>

text \<open>\<open>s'\<close> differs from \<open>s\<close> in the queue fields and in \<open>next\<close> pointers of \<open>A\<close>.\<close>

definition relinked :: "nat set \<Rightarrow> ('a) eventq_state_scheme \<Rightarrow> ('a) eventq_state_scheme \<Rightarrow> bool" where
  "relinked A s s' \<longleftrightarrow> eq_only s s' \<and> long_scan_time_remaining s' = long_scan_time_remaining s \<and>
     (\<forall>i. i \<notin> A \<longrightarrow> eq_events s' i = eq_events s i) \<and>
     (\<forall>i. eq_events s' i = (eq_events s i)\<lparr>ev_next := ev_next (eq_events s' i)\<rparr>)"

lemma relinked_fields:
  assumes "relinked A s s'"
  shows "ns_of s' i = ns_of s i" "ev_seconds (eq_events s' i) = ev_seconds (eq_events s i)"
    "ev_id (eq_events s' i) = ev_id (eq_events s i)" "ev_func (eq_events s' i) = ev_func (eq_events s i)"
proof -
  have "eq_events s' i = (eq_events s i)\<lparr>ev_next := ev_next (eq_events s' i)\<rparr>"
    using assms by (simp add: relinked_def)
  then obtain n where "eq_events s' i = (eq_events s i)\<lparr>ev_next := n\<rparr>" by blast
  then show "ns_of s' i = ns_of s i" "ev_seconds (eq_events s' i) = ev_seconds (eq_events s i)"
    "ev_id (eq_events s' i) = ev_id (eq_events s i)" "ev_func (eq_events s' i) = ev_func (eq_events s i)"
    by simp_all
qed

lemma relinked_next: "relinked A s s' \<Longrightarrow> i \<notin> A \<Longrightarrow> eq_events s' i = eq_events s i"
  by (simp add: relinked_def)

lemma relinked_chain:
  "relinked A s s' \<Longrightarrow> set xs \<inter> A = {} \<Longrightarrow> chain (eq_events s') p xs = chain (eq_events s) p xs"
  by (rule chain_cong) (auto simp: relinked_next disjoint_iff)

lemma enqueue_loop_chain:
  assumes "chain (eq_events s) (Some cur) (cur # xs)" "e \<notin> set (cur # xs)" "distinct (cur # xs)"
  shows "\<exists>s'. enqueue_loop e cur (ev_next (eq_events s cur)) s = Some s' \<and>
    chain (eq_events s') (Some cur) (cur # ins_ev (ns_of s) e xs) \<and>
    relinked (insert e (set (cur # xs))) s s' \<and>
    event_head s' = event_head s \<and> long_event_head s' = long_event_head s \<and>
    sh4_event_types s' = sh4_event_types s \<and> sh4_event_pending s' = sh4_event_pending s"
  using assms
proof (induction xs arbitrary: cur)
  case Nil
  then show ?case
    by (auto simp: enqueue_loop.simps link_event_def relinked_def fun_upd_def
      intro: eq_only_trans [OF eq_only_upd(1) eq_only_upd(1)])
next
  case (Cons x xs)
  have nxt: "ev_next (eq_events s cur) = Some x" using Cons.prems by simp
  show ?case
  proof (cases "ns_of s x \<le> ns_of s e")
    case True
    from Cons.IH [of x] Cons.prems obtain s' where
      s': "enqueue_loop e x (ev_next (eq_events s x)) s = Some s'"
        "chain (eq_events s') (Some x) (x # ins_ev (ns_of s) e xs)"
        "relinked (insert e (set (x # xs))) s s'"
        "event_head s' = event_head s" "long_event_head s' = long_event_head s"
        "sh4_event_types s' = sh4_event_types s" "sh4_event_pending s' = sh4_event_pending s"
      by auto
    have "eq_events s' cur = eq_events s cur"
      using s'(3) Cons.prems by (intro relinked_next) auto
    moreover have "relinked (insert e (set (cur # x # xs))) s s'"
      using s'(3) by (auto simp: relinked_def)
    ultimately show ?thesis
      using s' nxt True by (subst enqueue_loop.simps) auto
  next
    case False
    have "chain (eq_events (link_event e cur (Some x) s)) (Some cur) (cur # e # x # xs)"
      using Cons.prems by (auto simp: link_event_def)
    moreover have "relinked (insert e (set (cur # x # xs))) s (link_event e cur (Some x) s)"
      by (auto simp: relinked_def link_event_def intro: eq_only_trans [OF eq_only_upd(1) eq_only_upd(1)])
    ultimately show ?thesis
      using nxt False by (subst enqueue_loop.simps) (auto simp: link_event_def)
  qed
qed

lemma dequeue_loop_chain:
  assumes "chain (eq_events s) (Some cur) (cur # xs)" "distinct (cur # xs)" "cur \<noteq> e"
  shows "\<exists>s'. dequeue_loop e cur (ev_next (eq_events s cur)) s = Some s' \<and>
    chain (eq_events s') (Some cur) (cur # remove1 e xs) \<and>
    relinked (set (cur # xs)) s s' \<and>
    event_head s' = event_head s \<and> long_event_head s' = long_event_head s \<and>
    sh4_event_types s' = sh4_event_types s \<and> sh4_event_pending s' = sh4_event_pending s"
  using assms
proof (induction xs arbitrary: cur)
  case Nil
  then show ?case by (auto simp: dequeue_loop.simps relinked_def)
next
  case (Cons x xs)
  have nxt: "ev_next (eq_events s cur) = Some x" using Cons.prems by simp
  show ?case
  proof (cases "x = e")
    case True
    let ?s' = "upd_event cur (ev_next_update (\<lambda>_. ev_next (eq_events s e))) s"
    have "chain (eq_events ?s') (Some cur) (cur # xs)"
      using Cons.prems True by auto
    moreover have "relinked (set (cur # x # xs)) s ?s'"
      by (auto simp: relinked_def)
    ultimately show ?thesis
      using nxt True by (subst dequeue_loop.simps) auto
  next
    case False
    from Cons.IH [of x] Cons.prems False obtain s' where
      s': "dequeue_loop e x (ev_next (eq_events s x)) s = Some s'"
        "chain (eq_events s') (Some x) (x # remove1 e xs)"
        "relinked (set (x # xs)) s s'"
        "event_head s' = event_head s" "long_event_head s' = long_event_head s"
        "sh4_event_types s' = sh4_event_types s" "sh4_event_pending s' = sh4_event_pending s"
      by auto
    have "eq_events s' cur = eq_events s cur"
      using s'(3) Cons.prems by (intro relinked_next) auto
    moreover have "relinked (set (cur # x # xs)) s s'"
      using s'(3) by (auto simp: relinked_def)
    ultimately show ?thesis
      using s' nxt False by (subst dequeue_loop.simps) auto
  qed
qed

section \<open>The queue invariant and the abstract schedule\<close>

text \<open>
  \<open>eq_view s xs ys\<close>: the two lists are the disjoint chains \<open>xs\<close> and \<open>ys\<close> of
  existing events, the first sorted by time; an event is on a list exactly when its
  time is not the sentinel, and \<open>seconds\<close> tells which list it is on.
\<close>

definition eq_view :: "('a) eventq_state_scheme \<Rightarrow> nat list \<Rightarrow> nat list \<Rightarrow> bool" where
  "eq_view s xs ys \<longleftrightarrow>
     chain (eq_events s) (event_head s) xs \<and> chain (eq_events s) (long_event_head s) ys \<and>
     distinct (xs @ ys) \<and> (\<forall>i\<in>set (xs @ ys). i < MAX_EVENT_ID) \<and> sorted (map (ns_of s) xs) \<and>
     (\<forall>i\<in>set xs. ev_seconds (eq_events s i) = 0) \<and> (\<forall>i\<in>set ys. ev_seconds (eq_events s i) \<noteq> 0) \<and>
     (\<forall>i<MAX_EVENT_ID. ns_of s i \<noteq> NOT_SCHEDULED \<longleftrightarrow> i \<in> set (xs @ ys)) \<and>
     (\<forall>i<MAX_EVENT_ID. ev_id (eq_events s i) = of_nat i)"

definition eventq_inv :: "('a) eventq_state_scheme \<Rightarrow> bool" where
  "eventq_inv s \<longleftrightarrow> (\<exists>xs ys. eq_view s xs ys) \<and> pending_ok s"

text \<open>The abstract state: for each scheduled event the seconds and nanoseconds left.\<close>

definition deadline :: "('a) eventq_state_scheme \<Rightarrow> nat \<Rightarrow> (u32 \<times> u32) option" where
  "deadline s i = (if ns_of s i = NOT_SCHEDULED then None
     else Some (ev_seconds (eq_events s i), ns_of s i))"

lemma deadline_upd:
  "deadline (upd_event e f s) = (deadline s)(e :=
     if ev_nanosecs (f (eq_events s e)) = NOT_SCHEDULED then None
     else Some (ev_seconds (f (eq_events s e)), ev_nanosecs (f (eq_events s e))))"
  by (auto simp: deadline_def fun_eq_iff)

lemma deadline_sel [simp]:
  "deadline (s\<lparr>event_head := h\<rparr>) = deadline s" "deadline (s\<lparr>long_event_head := h\<rparr>) = deadline s"
  "deadline (s\<lparr>long_scan_time_remaining := r\<rparr>) = deadline s" "deadline (event_update_pending s) = deadline s"
  by (simp_all add: deadline_def fun_eq_iff)

definition funcs :: "('a) eventq_state_scheme \<Rightarrow> nat \<Rightarrow> event_func" where
  "funcs s i = ev_func (eq_events s i)"

lemma relinked_deadline: "relinked A s s' \<Longrightarrow> deadline s' = deadline s"
  by (rule ext) (simp add: deadline_def relinked_fields)

lemma relinked_funcs: "relinked A s s' \<Longrightarrow> funcs s' = funcs s"
  by (rule ext) (simp add: funcs_def relinked_fields)

lemma relinked_eq_only: "relinked A s s' \<Longrightarrow> eq_only s s'"
  by (simp add: relinked_def)

lemma relinked_update_pending:
  "relinked A s s' \<Longrightarrow> relinked A s (event_update_pending s')"
  unfolding relinked_def by (auto intro: eq_only_trans)

lemma relinked_head:
  "relinked A s s' \<Longrightarrow> relinked A s (s'\<lparr>event_head := h\<rparr>)"
  "relinked A s s' \<Longrightarrow> relinked A s (s'\<lparr>long_event_head := h\<rparr>)"
  unfolding relinked_def by (auto intro: eq_only_trans)

lemma relinked_upd_next: "e \<in> A \<Longrightarrow> relinked A s (upd_event e (ev_next_update f) s)"
  by (auto simp: relinked_def)

lemma event_enqueue_chain:
  assumes "chain (eq_events s) (event_head s) xs" "distinct (e # xs)"
  shows "\<exists>s'. event_enqueue e s = Some s' \<and>
    chain (eq_events s') (event_head s') (ins_ev (ns_of s) e xs) \<and>
    relinked (insert e (set xs)) s s' \<and> long_event_head s' = long_event_head s \<and>
    (pending_ok s \<longrightarrow> pending_ok s')"
proof (cases "event_head s = None \<or> ns_of s e < ns_of s (the (event_head s))")
  case True
  let ?s' = "event_update_pending
    ((upd_event e (ev_next_update (\<lambda>_. event_head s)) s)\<lparr>event_head := Some e\<rparr>)"
  have "chain (eq_events ?s') (event_head ?s') (e # xs)"
    using assms by simp
  moreover have "ins_ev (ns_of s) e xs = e # xs"
    using True assms by (cases xs) auto
  moreover have "relinked (insert e (set xs)) s ?s'"
    by (intro relinked_update_pending relinked_head relinked_upd_next) simp
  ultimately show ?thesis
    using True by (auto simp: event_enqueue_def)
next
  case False
  then obtain cur xs' where xs: "xs = cur # xs'" "event_head s = Some cur" "ns_of s cur \<le> ns_of s e"
    using assms by (cases xs) (auto simp: not_less)
  obtain s' where
    s': "enqueue_loop e cur (ev_next (eq_events s cur)) s = Some s'"
      "chain (eq_events s') (Some cur) (cur # ins_ev (ns_of s) e xs')"
      "relinked (insert e (set (cur # xs'))) s s'"
      "event_head s' = event_head s" "long_event_head s' = long_event_head s"
      "sh4_event_types s' = sh4_event_types s" "sh4_event_pending s' = sh4_event_pending s"
    using enqueue_loop_chain [of s cur xs' e] assms xs by auto
  moreover have "pending_ok s' = pending_ok s"
    using s' by (intro pending_ok_cong) (simp_all add: relinked_fields)
  ultimately show ?thesis
    using False xs by (auto simp: event_enqueue_def Let_def)
qed

lemma event_dequeue_chain:
  assumes "chain (eq_events s) (event_head s) xs" "distinct xs" "e \<in> set xs"
  shows "\<exists>s'. event_dequeue e s = Some s' \<and>
    chain (eq_events s') (event_head s') (remove1 e xs) \<and>
    relinked (set xs) s s' \<and> long_event_head s' = long_event_head s \<and>
    (event_head s \<noteq> Some e \<longrightarrow> event_head s' = event_head s \<and>
       sh4_event_types s' = sh4_event_types s \<and> sh4_event_pending s' = sh4_event_pending s) \<and>
    (event_head s = Some e \<longrightarrow> pending_ok s')"
proof -
  obtain h xs' where xs: "xs = h # xs'" "event_head s = Some h"
    using assms by (cases xs) auto
  show ?thesis
  proof (cases "h = e")
    case True
    have "relinked (set xs) s (event_update_pending (s\<lparr>event_head := ev_next (eq_events s h)\<rparr>))"
      by (intro relinked_update_pending relinked_head) (simp add: relinked_def)
    then show ?thesis
      using True xs assms by (auto simp: event_dequeue_def)
  next
    case False
    then show ?thesis
      using dequeue_loop_chain [of s h xs' e] assms xs by (auto simp: event_dequeue_def)
  qed
qed

lemma event_dequeue_long_chain:
  assumes "chain (eq_events s) (long_event_head s) ys" "distinct ys" "e \<in> set ys"
  shows "\<exists>s'. event_dequeue_long e s = Some s' \<and>
    chain (eq_events s') (long_event_head s') (remove1 e ys) \<and>
    relinked (set ys) s s' \<and> event_head s' = event_head s \<and>
    sh4_event_types s' = sh4_event_types s \<and> sh4_event_pending s' = sh4_event_pending s"
proof -
  obtain h ys' where ys: "ys = h # ys'" "long_event_head s = Some h"
    using assms by (cases ys) auto
  show ?thesis
  proof (cases "h = e")
    case True
    have "relinked (set ys) s (s\<lparr>long_event_head := ev_next (eq_events s h)\<rparr>)"
      by (intro relinked_head) (simp add: relinked_def)
    then show ?thesis
      using True ys assms by (auto simp: event_dequeue_long_def)
  next
    case False
    then show ?thesis
      using dequeue_loop_chain [of s h ys' e] assms ys by (auto simp: event_dequeue_long_def)
  qed
qed

section \<open>Scheduling and cancelling\<close>

text \<open>What every queue operation promises besides its effect on the schedule.\<close>

definition eq_step :: "('a) eventq_state_scheme \<Rightarrow> ('a) eventq_state_scheme \<Rightarrow> nat list \<Rightarrow> nat list \<Rightarrow> bool" where
  "eq_step s s' xs ys \<longleftrightarrow> eq_view s' xs ys \<and> eq_only s s' \<and> funcs s' = funcs s \<and>
     (pending_ok s \<longrightarrow> pending_ok s')"

lemma eq_step_trans:
  "eq_step s s1 xs1 ys1 \<Longrightarrow> eq_step s1 s2 xs2 ys2 \<Longrightarrow> eq_step s s2 xs2 ys2"
  by (auto simp: eq_step_def intro: eq_only_trans)

lemma eq_step_refl: "eq_view s xs ys \<Longrightarrow> eq_step s s xs ys"
  by (simp add: eq_step_def)

lemma set_remove1: "distinct xs \<Longrightarrow> set (remove1 e xs) = set xs - {e}"
  by (rule set_remove1_eq)

lemma sorted_map_cong':
  "sorted (map f xs) \<Longrightarrow> (\<And>i. i \<in> set xs \<Longrightarrow> g i = f i) \<Longrightarrow> sorted (map g xs)"
  by (simp cong: map_cong)

lemma sorted_remove1_cong:
  assumes "sorted (map f xs)" "distinct xs" "\<And>i. i \<noteq> e \<Longrightarrow> g i = f i"
  shows "sorted (map g (remove1 e xs))"
proof -
  have eq: "map g (remove1 e xs) = map f (remove1 e xs)"
    using assms by (auto simp: set_remove1)
  have "sorted (map f (remove1 e xs))"
    using assms(1) by (rule sorted_map_remove1)
  then show ?thesis by (simp only: eq)
qed

lemma event_cancel_view:
  assumes v: "eq_view s xs ys" and e: "e < MAX_EVENT_ID"
  shows "\<exists>s'. event_cancel e s = Some s' \<and> eq_step s s' (remove1 e xs) (remove1 e ys) \<and>
    deadline s' = (deadline s)(e := None) \<and>
    long_scan_time_remaining s' = long_scan_time_remaining s"
proof (cases "ns_of s e = NOT_SCHEDULED")
  case True
  then have "e \<notin> set xs" "e \<notin> set ys" using v e by (auto simp: eq_view_def)
  with True v show ?thesis
    by (auto simp: event_cancel_def eq_step_def remove1_idem deadline_def)
next
  case False
  let ?s1 = "upd_event e (ev_nanosecs_update (\<lambda>_. NOT_SCHEDULED)) s"
  note V = v [unfolded eq_view_def]
  have c1: "chain (eq_events ?s1) p zs = chain (eq_events s) p zs" for p zs
    by simp
  have fns: "funcs ?s1 = funcs s" by (auto simp: funcs_def)
  have dl: "deadline ?s1 = (deadline s)(e := None)" by (auto simp: deadline_def)
  show ?thesis
  proof (cases "ev_seconds (eq_events s e) = 0")
    case True
    have ein: "e \<in> set xs" "e \<notin> set ys" using V e False True by auto
    obtain s' where s': "event_dequeue e ?s1 = Some s'"
      "chain (eq_events s') (event_head s') (remove1 e xs)" "relinked (set xs) ?s1 s'"
      "long_event_head s' = long_event_head s"
      "event_head s \<noteq> Some e \<longrightarrow> event_head s' = event_head s \<and>
       sh4_event_types s' = sh4_event_types s \<and> sh4_event_pending s' = sh4_event_pending s"
      "event_head s = Some e \<longrightarrow> pending_ok s'"
      using event_dequeue_chain [of ?s1 xs e] V ein by auto
    have "chain (eq_events s') (long_event_head s') ys"
      using V s'(3,4) c1 by (subst relinked_chain) auto
    then have view: "eq_view s' (remove1 e xs) (remove1 e ys)"
      using V s'(2) ein unfolding eq_view_def
      by (auto simp: relinked_fields [OF s'(3)] remove1_idem intro: sorted_remove1_cong
        dest: in_set_remove1 [THEN iffD1] notin_set_remove1)
    have "eq_only s s'"
      using relinked_eq_only [OF s'(3)] by (rule eq_only_trans [OF eq_only_upd(1)])
    moreover have "pending_ok s'" if "pending_ok s"
    proof (cases "event_head s = Some e")
      case False
      with s'(3,5) have "pending_ok s' = pending_ok s"
        by (intro pending_ok_cong) (auto simp: relinked_fields)
      with that show ?thesis by simp
    qed (use s'(6) in simp)
    moreover have "long_scan_time_remaining s' = long_scan_time_remaining s"
      using s'(3) by (simp add: relinked_def)
    ultimately show ?thesis
      using False True s'(1) view relinked_deadline [OF s'(3)] relinked_funcs [OF s'(3)] fns dl
      by (auto simp: event_cancel_def eq_step_def Let_def)
  next
    case False': False
    have ein: "e \<notin> set xs" "e \<in> set ys" using V e False False' by auto
    obtain s' where s': "event_dequeue_long e ?s1 = Some s'"
      "chain (eq_events s') (long_event_head s') (remove1 e ys)" "relinked (set ys) ?s1 s'"
      "event_head s' = event_head s"
      "sh4_event_types s' = sh4_event_types s" "sh4_event_pending s' = sh4_event_pending s"
      using event_dequeue_long_chain [of ?s1 ys e] V ein by auto
    have "chain (eq_events s') (event_head s') xs"
      using V s'(3,4) c1 by (subst relinked_chain) auto
    then have view: "eq_view s' (remove1 e xs) (remove1 e ys)"
      using V s'(2) ein unfolding eq_view_def
      by (auto simp: relinked_fields [OF s'(3)] remove1_idem
        dest: in_set_remove1 [THEN iffD1] notin_set_remove1 intro: sorted_map_cong')
    have "eq_only s s'"
      using relinked_eq_only [OF s'(3)] by (rule eq_only_trans [OF eq_only_upd(1)])
    moreover have "event_head s \<noteq> Some e" using V ein by (cases xs) auto
    then have "pending_ok s' = pending_ok s"
      using s'(3-6) by (intro pending_ok_cong) (auto simp: relinked_fields)
    moreover have "long_scan_time_remaining s' = long_scan_time_remaining s"
      using s'(3) by (simp add: relinked_def)
    ultimately show ?thesis
      using False False' s'(1) view relinked_deadline [OF s'(3)] relinked_funcs [OF s'(3)] fns dl
      by (auto simp: event_cancel_def eq_step_def Let_def)
  qed
qed

lemma cancel_if:
  "(if ns_of s e \<noteq> NOT_SCHEDULED then event_cancel e s else Some s) = event_cancel e s"
  by (simp add: event_cancel_def)

lemma eq_view_head_neq: "eq_view s xs ys \<Longrightarrow> e \<notin> set xs \<Longrightarrow> event_head s \<noteq> Some e"
  by (cases xs) (auto simp: eq_view_def)

lemma event_schedule_view:
  assumes v: "eq_view s xs ys" and e: "e < MAX_EVENT_ID"
    and ns: "nanosecs + sh4_slice_cycle s \<noteq> NOT_SCHEDULED"
  shows "\<exists>s'. event_schedule e nanosecs s = Some s' \<and>
    eq_step s s' (ins_ev (ns_of s') e (remove1 e xs)) (remove1 e ys) \<and>
    deadline s' = (deadline s)(e \<mapsto> (0, nanosecs + sh4_slice_cycle s)) \<and>
    long_scan_time_remaining s' = long_scan_time_remaining s"
proof -
  obtain s1 where s1: "event_cancel e s = Some s1" "eq_step s s1 (remove1 e xs) (remove1 e ys)"
    "deadline s1 = (deadline s)(e := None)"
    "long_scan_time_remaining s1 = long_scan_time_remaining s"
    using event_cancel_view [OF v e] by blast
  let ?s2 = "upd_event e (\<lambda>ev. ev\<lparr>ev_id := of_nat e, ev_seconds := 0,
    ev_nanosecs := nanosecs + sh4_slice_cycle s\<rparr>) s1"
  have nin: "e \<notin> set (remove1 e xs)" "e \<notin> set (remove1 e ys)"
    using v by (auto simp: eq_view_def set_remove1)
  have v1: "eq_view s1 (remove1 e xs) (remove1 e ys)"
    using s1(2) by (simp add: eq_step_def)
  note V = v1 [unfolded eq_view_def]
  obtain s' where s': "event_enqueue e ?s2 = Some s'"
    "chain (eq_events s') (event_head s') (ins_ev (ns_of ?s2) e (remove1 e xs))"
    "relinked (insert e (set (remove1 e xs))) ?s2 s'"
    "long_event_head s' = long_event_head s1" "pending_ok ?s2 \<longrightarrow> pending_ok s'"
    using event_enqueue_chain [of ?s2 "remove1 e xs" e] V nin by auto
  have k: "ins_ev (ns_of ?s2) e (remove1 e xs) = ins_ev (ns_of s') e (remove1 e xs)"
    by (simp add: relinked_fields(1) [OF s'(3)])
  have "chain (eq_events s') (long_event_head s') (remove1 e ys)"
    using V s'(3,4) nin by (subst relinked_chain) auto
  moreover have "sorted (map (ns_of s') (remove1 e xs))"
    using V nin by - (rule sorted_map_cong' [where f = "ns_of s1"],
      auto simp: relinked_fields(1) [OF s'(3)])
  then have "sorted (map (ns_of s') (ins_ev (ns_of s') e (remove1 e xs)))"
    by (rule sorted_ins_ev)
  ultimately have view: "eq_view s' (ins_ev (ns_of s') e (remove1 e xs)) (remove1 e ys)"
    using V s'(2) nin e ns unfolding eq_view_def k by (auto simp: relinked_fields [OF s'(3)])
  have "eq_only s s1" using s1(2) by (simp add: eq_step_def)
  also have "eq_only s1 ?s2" by (rule eq_only_upd)
  also have "eq_only ?s2 s'" by (rule relinked_eq_only [OF s'(3)])
  finally have only: "eq_only s s'" .
  have "funcs s' = funcs s"
    using s1(2) relinked_funcs [OF s'(3)] by (auto simp: eq_step_def funcs_def fun_eq_iff)
  moreover have "pending_ok ?s2 = pending_ok s1"
    using eq_view_head_neq [OF v1 nin(1)] by (intro pending_ok_cong) auto
  then have "pending_ok s \<longrightarrow> pending_ok s'"
    using s'(5) s1(2) by (simp add: eq_step_def)
  moreover have "deadline s' = (deadline s)(e \<mapsto> (0, nanosecs + sh4_slice_cycle s))"
    using relinked_deadline [OF s'(3)] s1(3) ns by (simp add: deadline_upd)
  moreover have "long_scan_time_remaining s' = long_scan_time_remaining s"
    using s'(3) s1(4) by (simp add: relinked_def)
  ultimately show ?thesis
    using s1(1) s'(1) view only by (auto simp: event_schedule_def cancel_if eq_step_def)
qed

lemma event_schedule_long_view:
  assumes v: "eq_view s xs ys" and e: "e < MAX_EVENT_ID" and sec: "seconds \<noteq> 0"
    and ns: "nanosecs + sh4_slice_cycle s + (LONG_SCAN_PERIOD - long_scan_time_remaining s)
      \<noteq> NOT_SCHEDULED" (is "?ns \<noteq> _")
  shows "\<exists>s'. event_schedule_long e seconds nanosecs s = Some s' \<and>
    eq_step s s' (remove1 e xs) (e # remove1 e ys) \<and> deadline s' = (deadline s)(e \<mapsto> (seconds, ?ns)) \<and>
    long_scan_time_remaining s' = long_scan_time_remaining s"
proof -
  obtain s1 where s1: "event_cancel e s = Some s1" "eq_step s s1 (remove1 e xs) (remove1 e ys)"
    "deadline s1 = (deadline s)(e := None)"
    "long_scan_time_remaining s1 = long_scan_time_remaining s"
    using event_cancel_view [OF v e] by blast
  let ?s2 = "upd_event e (\<lambda>ev. ev\<lparr>ev_id := of_nat e, ev_seconds := seconds,
    ev_nanosecs := ?ns, ev_next := long_event_head s1\<rparr>) s1"
  let ?s' = "?s2\<lparr>long_event_head := Some e\<rparr>"
  have nin: "e \<notin> set (remove1 e xs)" "e \<notin> set (remove1 e ys)"
    using v by (auto simp: eq_view_def set_remove1)
  have v1: "eq_view s1 (remove1 e xs) (remove1 e ys)"
    using s1(2) by (simp add: eq_step_def)
  note V = v1 [unfolded eq_view_def]
  have slice: "sh4_slice_cycle s1 = sh4_slice_cycle s"
    using s1(2) by (simp add: eq_step_def eq_only_slice)
  have view: "eq_view ?s' (remove1 e xs) (e # remove1 e ys)"
    using V nin e ns sec unfolding eq_view_def by (auto intro: sorted_map_cong')
  have "eq_only s s1" using s1(2) by (simp add: eq_step_def)
  also have "eq_only s1 ?s2" by (rule eq_only_upd)
  also have "eq_only ?s2 ?s'" by (rule eq_only_upd)
  finally have only: "eq_only s ?s'" .
  have "funcs ?s' = funcs s"
    using s1(2) by (auto simp: eq_step_def funcs_def fun_eq_iff)
  moreover have "pending_ok ?s' = pending_ok s1"
    using eq_view_head_neq [OF v1 nin(1)] by (intro pending_ok_cong) auto
  then have "pending_ok s \<longrightarrow> pending_ok ?s'"
    using s1(2) by (simp add: eq_step_def)
  moreover have "deadline ?s' = (deadline s)(e \<mapsto> (seconds, ?ns))"
    using s1(3) ns by (simp add: deadline_upd)
  ultimately show ?thesis
    using s1(1,4) view sec slice only
    by (auto simp: event_schedule_long_def cancel_if eq_step_def)
qed

section \<open>The long-duration list\<close>

lemma enqueue_view:
  assumes "chain (eq_events s) (event_head s) xs" "chain (eq_events s) (long_event_head s) ys"
    "distinct (e # xs @ ys)" "\<forall>i\<in>set (e # xs @ ys). i < MAX_EVENT_ID" "sorted (map (ns_of s) xs)"
    "\<forall>i\<in>set (e # xs). ev_seconds (eq_events s i) = 0" "\<forall>i\<in>set ys. ev_seconds (eq_events s i) \<noteq> 0"
    "\<forall>i<MAX_EVENT_ID. ns_of s i \<noteq> NOT_SCHEDULED \<longleftrightarrow> i \<in> set (e # xs @ ys)"
    "\<forall>i<MAX_EVENT_ID. ev_id (eq_events s i) = of_nat i"
  shows "\<exists>s'. event_enqueue e s = Some s' \<and> eq_step s s' (ins_ev (ns_of s) e xs) ys \<and>
    deadline s' = deadline s \<and> long_scan_time_remaining s' = long_scan_time_remaining s \<and>
    ns_of s' = ns_of s \<and> (\<forall>i. ev_seconds (eq_events s' i) = ev_seconds (eq_events s i))"
proof -
  obtain s' where s': "event_enqueue e s = Some s'"
    "chain (eq_events s') (event_head s') (ins_ev (ns_of s) e xs)"
    "relinked (insert e (set xs)) s s'" "long_event_head s' = long_event_head s"
    "pending_ok s \<longrightarrow> pending_ok s'"
    using event_enqueue_chain [of s xs e] assms by auto
  note F = relinked_fields [OF s'(3)]
  have ns: "ns_of s' = ns_of s" by (simp add: F fun_eq_iff)
  have "chain (eq_events s') (long_event_head s') ys"
    using assms s'(3,4) by (subst relinked_chain) auto
  moreover have "sorted (map (ns_of s') (ins_ev (ns_of s) e xs))"
    using assms(5) unfolding ns by (rule sorted_ins_ev)
  ultimately have "eq_view s' (ins_ev (ns_of s) e xs) ys"
    using assms s'(2) unfolding eq_view_def by (auto simp: F)
  then show ?thesis
    using s'(1,5) ns relinked_eq_only [OF s'(3)] relinked_funcs [OF s'(3)]
      relinked_deadline [OF s'(3)] s'(3) by (auto simp: eq_step_def F relinked_def)
qed

lemma chain_unlink:
  assumes "chain ev p (pre @ v # c # rest)" "distinct (pre @ v # c # rest)"
    "ev_next ev_v = ev_next (ev c)"
  shows "chain (ev(v := ev_v)) p (pre @ v # rest)"
  using assms by (induction pre arbitrary: p) auto

lemma dec_seconds_sel [simp]:
  "event_head (dec_seconds e s) = event_head s"
  "long_event_head (dec_seconds e s) = long_event_head s"
  "long_scan_time_remaining (dec_seconds e s) = long_scan_time_remaining s"
  "eq_events (dec_seconds e s) = (eq_events s)(e := (eq_events s e)
     \<lparr>ev_seconds := ev_seconds (eq_events s e) - 1\<rparr>)"
  "eq_only s (dec_seconds e s)" "funcs (dec_seconds e s) = funcs s"
  by (simp_all add: dec_seconds_def funcs_def fun_eq_iff)

lemma dec_seconds_pending [simp]: "pending_ok (dec_seconds e s) = pending_ok s"
  by (rule pending_ok_cong) (simp_all add: dec_seconds_def)

lemma pending_ok_long_head [simp]:
  "pending_ok (s\<lparr>long_event_head := h\<rparr>) = pending_ok s"
  "pending_ok (s\<lparr>long_scan_time_remaining := r\<rparr>) = pending_ok s"
  by (rule pending_ok_cong; simp)+

lemma funcs_sel [simp]:
  "funcs (s\<lparr>event_head := h\<rparr>) = funcs s" "funcs (s\<lparr>long_event_head := h\<rparr>) = funcs s"
  "funcs (s\<lparr>long_scan_time_remaining := r\<rparr>) = funcs s" "funcs (event_update_pending s) = funcs s"
  "funcs (upd_event e (ev_next_update f) s) = funcs s"
  by (simp_all add: funcs_def fun_eq_iff)

text \<open>The effect of one scan on the events of the long list.\<close>

definition tick :: "('a) eventq_state_scheme \<Rightarrow> nat set \<Rightarrow> nat \<Rightarrow> (u32 \<times> u32) option" where
  "tick s A i = (if i \<in> A then Some (ev_seconds (eq_events s i) - 1, ns_of s i) else deadline s i)"

definition expires :: "('a) eventq_state_scheme \<Rightarrow> nat \<Rightarrow> bool" where
  "expires s i \<longleftrightarrow> ev_seconds (eq_events s i) = 1"

text \<open>One step of either scan loop when the event reached runs out of seconds.\<close>

lemma scan_move:
  assumes v: "eq_view s xs (pre @ c # rest)" and c: "expires s c"
    and s1: "s1 = dec_seconds c s"
    and s2: "eq_only s1 s2" "funcs s2 = funcs s1" "pending_ok s2 = pending_ok s1"
      "event_head s2 = event_head s" "long_scan_time_remaining s2 = long_scan_time_remaining s"
      "\<And>i. eq_events s2 i = (eq_events s1 i)\<lparr>ev_next := ev_next (eq_events s2 i)\<rparr>"
      "\<And>i. i \<notin> set pre \<Longrightarrow> eq_events s2 i = eq_events s1 i"
      "chain (eq_events s2) (long_event_head s2) (pre @ rest)"
  shows "\<exists>s'. event_enqueue c s2 = Some s' \<and> eq_step s s' (ins_ev (ns_of s) c xs) (pre @ rest) \<and>
    long_scan_time_remaining s' = long_scan_time_remaining s \<and> ns_of s' = ns_of s \<and>
    (\<forall>i. ev_seconds (eq_events s' i) =
       (if i = c then 0 else ev_seconds (eq_events s i))) \<and>
    deadline s' = tick s {c}"
proof -
  note V = v [unfolded eq_view_def]
  have F: "ns_of s2 i = ns_of s i" "ev_id (eq_events s2 i) = ev_id (eq_events s i)"
    "ev_seconds (eq_events s2 i) = (if i = c then 0 else ev_seconds (eq_events s i))" for i
  proof -
    obtain n where "eq_events s2 i = (eq_events s1 i)\<lparr>ev_next := n\<rparr>" using s2(6) by blast
    then show "ns_of s2 i = ns_of s i" "ev_id (eq_events s2 i) = ev_id (eq_events s i)"
      "ev_seconds (eq_events s2 i) = (if i = c then 0 else ev_seconds (eq_events s i))"
      using s1 c by (auto simp: expires_def)
  qed
  have ns: "ns_of s2 = ns_of s" by (simp add: F fun_eq_iff)
  have "chain (eq_events s2) (event_head s2) xs"
  proof -
    have "chain (eq_events s2) (event_head s) xs = chain (eq_events s) (event_head s) xs"
      using V s2(7) s1 by (intro chain_cong) (auto simp: disjoint_iff)
    then show ?thesis using V s2(4) by simp
  qed
  moreover have "\<forall>i\<in>set (c # xs). ev_seconds (eq_events s2 i) = 0"
    "\<forall>i\<in>set (pre @ rest). ev_seconds (eq_events s2 i) \<noteq> 0"
    using V by (auto simp: F)
  ultimately obtain s' where s': "event_enqueue c s2 = Some s'"
    "eq_step s2 s' (ins_ev (ns_of s2) c xs) (pre @ rest)" "deadline s' = deadline s2"
    "long_scan_time_remaining s' = long_scan_time_remaining s2" "ns_of s' = ns_of s2"
    "\<forall>i. ev_seconds (eq_events s' i) = ev_seconds (eq_events s2 i)"
    using enqueue_view [of s2 xs "pre @ rest" c] V s2(8) by (auto simp: F(1,2) ns)
  have "eq_only s s1" by (simp add: s1)
  also note s2(1)
  also have "eq_only s2 s'" using s'(2) by (simp add: eq_step_def)
  finally have "eq_only s s'" .
  moreover have "deadline s2 = tick s {c}"
    using V c by (auto simp: deadline_def tick_def F fun_eq_iff expires_def)
  ultimately show ?thesis
    using s' s2 s1 by (auto simp: eq_step_def F ns)
qed

lemma scan_stay:
  assumes v: "eq_view s xs ys" and c: "c \<in> set ys" "\<not> expires s c"
  shows "eq_step s (dec_seconds c s) xs ys" "deadline (dec_seconds c s) = tick s {c}"
    "ns_of (dec_seconds c s) = ns_of s"
proof -
  note V = v [unfolded eq_view_def]
  have sec: "ev_seconds (eq_events s c) - 1 \<noteq> 0" using c by (auto simp: expires_def)
  show ns: "ns_of (dec_seconds c s) = ns_of s" by (simp add: fun_eq_iff)
  have "c \<notin> set xs" using V c by auto
  then have "eq_view (dec_seconds c s) xs ys"
    using V sec unfolding eq_view_def ns by auto
  then show "eq_step s (dec_seconds c s) xs ys" by (simp add: eq_step_def)
  have "ns_of s c \<noteq> NOT_SCHEDULED" using V c by auto
  then show "deadline (dec_seconds c s) = tick s {c}"
    by (auto simp: deadline_def tick_def fun_eq_iff)
qed

lemma chain_next:
  "chain ev p (pre @ v # rest) \<Longrightarrow> ev_next (ev v) = (case rest of [] \<Rightarrow> None | c # _ \<Rightarrow> Some c)"
proof (induction pre arbitrary: p)
  case Nil
  then show ?case by (cases rest) auto
qed simp

text \<open>Two scans in sequence: the first over \<open>c\<close>, the second over the events behind it.\<close>

lemma tick_step:
  assumes "deadline s1 = tick s {c}" "ns_of s1 = ns_of s" "c \<notin> A"
    "\<And>i. i \<in> A \<Longrightarrow> ev_seconds (eq_events s1 i) = ev_seconds (eq_events s i)"
  shows "tick s1 A = tick s (insert c A)"
  using assms by (auto simp: tick_def fun_eq_iff)

definition scanned where
  "scanned s s' xs pre cs \<longleftrightarrow>
     eq_step s s' (fold (ins_ev (ns_of s)) (filter (expires s) cs) xs) (pre @ filter (\<lambda>i. \<not> expires s i) cs) \<and>
     deadline s' = tick s (set cs) \<and> long_scan_time_remaining s' = long_scan_time_remaining s"

lemma scanned_rest:
  assumes "\<And>i. i \<noteq> c \<Longrightarrow> ev_seconds (eq_events s1 i) = ev_seconds (eq_events s i)" "c \<notin> set cs"
    "deadline s1 = tick s {c}" "ns_of s1 = ns_of s"
  shows "filter (expires s1) cs = filter (expires s) cs"
    "filter (\<lambda>i. \<not> expires s1 i) cs = filter (\<lambda>i. \<not> expires s i) cs"
    "tick s1 (set cs) = tick s (insert c (set cs))"
proof -
  have same: "ev_seconds (eq_events s1 i) = ev_seconds (eq_events s i)" if "i \<in> set cs" for i
    using assms(1) [of i] assms(2) that by blast
  then have "expires s1 i = expires s i" if "i \<in> set cs" for i
    using that by (simp add: expires_def)
  then show "filter (expires s1) cs = filter (expires s) cs"
    "filter (\<lambda>i. \<not> expires s1 i) cs = filter (\<lambda>i. \<not> expires s i) cs"
    by (auto intro: filter_cong)
  show "tick s1 (set cs) = tick s (insert c (set cs))"
    using assms same by (intro tick_step) auto
qed

lemma scanned_move:
  assumes "eq_step s s1 (ins_ev (ns_of s) c xs) ys" "deadline s1 = tick s {c}" "ns_of s1 = ns_of s"
    "long_scan_time_remaining s1 = long_scan_time_remaining s" "expires s c"
    "\<And>i. i \<noteq> c \<Longrightarrow> ev_seconds (eq_events s1 i) = ev_seconds (eq_events s i)" "c \<notin> set cs"
    "scanned s1 s' (ins_ev (ns_of s) c xs) pre cs"
  shows "scanned s s' xs pre (c # cs)"
  using assms scanned_rest [OF assms(6,7,2,3)]
  unfolding scanned_def by (auto intro: eq_step_trans)

lemma scanned_stay:
  assumes "eq_step s s1 xs ys" "deadline s1 = tick s {c}" "ns_of s1 = ns_of s"
    "long_scan_time_remaining s1 = long_scan_time_remaining s" "\<not> expires s c"
    "\<And>i. i \<noteq> c \<Longrightarrow> ev_seconds (eq_events s1 i) = ev_seconds (eq_events s i)" "c \<notin> set cs"
    "scanned s1 s' xs (pre @ [c]) cs"
  shows "scanned s s' xs pre (c # cs)"
  using assms scanned_rest [OF assms(6,7,2,3)]
  unfolding scanned_def by (auto intro: eq_step_trans)

lemma scan_rest_loop_view:
  assumes "eq_view s xs (pre @ prev # cs)"
  shows "\<exists>s'. scan_rest_loop prev (ev_next (eq_events s prev)) s = Some s' \<and>
    scanned s s' xs (pre @ [prev]) cs"
  using assms
proof (induction cs arbitrary: s xs pre prev)
  case Nil
  then have "ev_next (eq_events s prev) = None"
    using chain_next [of "eq_events s" "long_event_head s" pre prev "[]"] by (simp add: eq_view_def)
  with Nil show ?case
    by (auto simp: scan_rest_loop.simps scanned_def eq_step_def tick_def fun_eq_iff)
next
  case (Cons c cs)
  note V = Cons.prems [unfolded eq_view_def]
  have nxt: "ev_next (eq_events s prev) = Some c" "prev \<noteq> c" "c \<notin> set cs"
    using chain_next [of "eq_events s" "long_event_head s" pre prev "c # cs"] V by auto
  show ?case
  proof (cases "expires s c")
    case True
    let ?s1 = "dec_seconds c s"
    let ?s2 = "upd_event prev (ev_next_update (\<lambda>_. ev_next (eq_events ?s1 c))) ?s1"
    have "chain ((eq_events ?s1)(prev := (eq_events ?s1 prev)\<lparr>ev_next := ev_next (eq_events ?s1 c)\<rparr>))
      (long_event_head s) (pre @ prev # cs)"
      using V by (intro chain_unlink) auto
    then have ch: "chain (eq_events ?s2) (long_event_head ?s2) ((pre @ [prev]) @ cs)"
      by (simp add: fun_upd_def)
    have "pending_ok ?s2 = pending_ok ?s1"
      by (rule pending_ok_cong) auto
    then obtain s3 where s3: "event_enqueue c ?s2 = Some s3"
      "eq_step s s3 (ins_ev (ns_of s) c xs) ((pre @ [prev]) @ cs)"
      "long_scan_time_remaining s3 = long_scan_time_remaining s" "ns_of s3 = ns_of s"
      "\<forall>i. ev_seconds (eq_events s3 i) = (if i = c then 0 else ev_seconds (eq_events s i))"
      "deadline s3 = tick s {c}"
      using scan_move [OF _ True refl _ _ _ _ _ _ _ ch, of xs] Cons.prems by auto
    have "eq_view s3 (ins_ev (ns_of s) c xs) (pre @ prev # cs)"
      using s3(2) by (simp add: eq_step_def)
    then obtain s' where s': "scan_rest_loop prev (ev_next (eq_events s3 prev)) s3 = Some s'"
      "scanned s3 s' (ins_ev (ns_of s) c xs) (pre @ [prev]) cs"
      using Cons.IH by blast
    have "scanned s s' xs (pre @ [prev]) (c # cs)"
      using s3 True nxt s'(2) by (intro scanned_move [where ?s1.0 = s3]) auto
    then show ?thesis
      using s'(1) s3(1) nxt True by (subst scan_rest_loop.simps) (simp add: Let_def expires_def)
  next
    case False
    let ?s1 = "dec_seconds c s"
    note st = scan_stay [OF Cons.prems _ False]
    have "eq_view ?s1 xs ((pre @ [prev]) @ c # cs)"
      using st(1) by (simp add: eq_step_def)
    then obtain s' where s': "scan_rest_loop c (ev_next (eq_events ?s1 c)) ?s1 = Some s'"
      "scanned ?s1 s' xs ((pre @ [prev]) @ [c]) cs"
      using Cons.IH by blast
    have "scanned s s' xs (pre @ [prev]) (c # cs)"
      using st False nxt s'(2) by (intro scanned_stay [where ?s1.0 = ?s1]) auto
    then show ?thesis
      using s'(1) nxt False by (subst scan_rest_loop.simps) (simp add: Let_def expires_def)
  qed
qed

lemma event_scan_long_view:
  assumes "eq_view s xs ys"
  shows "\<exists>s'. event_scan_long s = Some s' \<and> scanned s s' xs [] ys"
  using assms
proof (induction ys arbitrary: s xs)
  case Nil
  then have "long_event_head s = None" by (simp add: eq_view_def)
  with Nil show ?case
    by (auto simp: event_scan_long_def scan_head_loop.simps scanned_def eq_step_def tick_def fun_eq_iff)
next
  case (Cons c cs)
  note V = Cons.prems [unfolded eq_view_def]
  have hd: "long_event_head s = Some c" "c \<notin> set cs" using V by auto
  let ?s1 = "dec_seconds c s"
  show ?case
  proof (cases "expires s c")
    case True
    let ?s2 = "?s1\<lparr>long_event_head := ev_next (eq_events ?s1 c)\<rparr>"
    have ch: "chain (eq_events ?s2) (long_event_head ?s2) ([] @ cs)" using V by simp
    obtain s3 where s3: "event_enqueue c ?s2 = Some s3"
      "eq_step s s3 (ins_ev (ns_of s) c xs) cs"
      "long_scan_time_remaining s3 = long_scan_time_remaining s" "ns_of s3 = ns_of s"
      "\<forall>i. ev_seconds (eq_events s3 i) = (if i = c then 0 else ev_seconds (eq_events s i))"
      "deadline s3 = tick s {c}"
      using scan_move [OF _ True refl _ _ _ _ _ _ _ ch, of xs] Cons.prems by auto
    have "eq_view s3 (ins_ev (ns_of s) c xs) cs" using s3(2) by (simp add: eq_step_def)
    then obtain s' where s': "event_scan_long s3 = Some s'" "scanned s3 s' (ins_ev (ns_of s) c xs) [] cs"
      using Cons.IH by blast
    have "scanned s s' xs [] (c # cs)"
      using s3 True hd s'(2) by (intro scanned_move [where ?s1.0 = s3]) auto
    moreover have "event_scan_long s = Some s'"
      using s'(1) s3(1) hd True
      by (simp add: event_scan_long_def scan_head_loop.simps [of s] Let_def expires_def)
    ultimately show ?thesis by blast
  next
    case False
    note st = scan_stay [OF Cons.prems _ False]
    have "eq_view ?s1 xs ([] @ c # cs)" using st(1) by (simp add: eq_step_def)
    then obtain s' where s': "scan_rest_loop c (ev_next (eq_events ?s1 c)) ?s1 = Some s'"
      "scanned ?s1 s' xs [c] cs"
      using scan_rest_loop_view by fastforce
    have "scanned s s' xs [] (c # cs)"
      using st False hd s'(2) by (intro scanned_stay [where ?s1.0 = ?s1]) auto
    moreover have "event_scan_long s = Some s'"
      using s'(1) hd False
      by (simp add: event_scan_long_def scan_head_loop.simps [of s] Let_def expires_def)
    ultimately show ?thesis by blast
  qed
qed

section \<open>Advancing time\<close>

lemma sorted_map_mono:
  "sorted (map f xs) \<Longrightarrow> (\<And>x y. x \<le> y \<Longrightarrow> g x \<le> g y) \<Longrightarrow> sorted (map (\<lambda>i. g (f i)) xs)"
  by (induction xs) auto

definition ns_after :: "u32 \<Rightarrow> u32 \<Rightarrow> u32" where
  "ns_after n x = (if x \<le> n then 0 else x - n)"

lemma ns_after_mono: "x \<le> y \<Longrightarrow> ns_after n x \<le> ns_after n y"
  by (auto simp: ns_after_def word_le_nat_alt unat_sub)

lemma ns_after_scheduled: "x \<noteq> NOT_SCHEDULED \<Longrightarrow> ns_after n x \<noteq> NOT_SCHEDULED"
proof -
  assume x: "x \<noteq> NOT_SCHEDULED"
  have max: "NOT_SCHEDULED = - 1" by (simp add: NOT_SCHEDULED_def)
  have "x < NOT_SCHEDULED"
    using x unfolding max by (simp add: less_le)
  moreover have "ns_after n x \<le> x"
    by (auto simp: ns_after_def word_le_nat_alt unat_sub)
  ultimately show ?thesis by simp
qed

lemma run_slice_loop_chain:
  assumes "chain (eq_events s) p zs" "distinct zs"
  shows "run_slice_loop p n s = Some (s\<lparr>eq_events := (\<lambda>i. if i \<in> set zs
    then (eq_events s i)\<lparr>ev_nanosecs := ns_after n (ns_of s i)\<rparr> else eq_events s i)\<rparr>)"
  using assms
proof (induction zs arbitrary: p s)
  case Nil
  then show ?case by (simp add: run_slice_loop.simps)
next
  case (Cons z zs)
  let ?s1 = "upd_event z (ev_nanosecs_update (\<lambda>_. ns_after n (ns_of s z))) s"
  have step: "run_slice_loop p n s = run_slice_loop (ev_next (eq_events ?s1 z)) n ?s1"
  proof -
    have "(if ns_of s z \<le> n then upd_event z (ev_nanosecs_update (\<lambda>_. 0)) s
       else upd_event z (\<lambda>ev. ev\<lparr>ev_nanosecs := ev_nanosecs ev - n\<rparr>) s) = ?s1"
      by (simp add: upd_event_def ns_after_def)
    then show ?thesis
      using Cons.prems by (simp add: run_slice_loop.simps [of "Some z"] Let_def)
  qed
  have "run_slice_loop (ev_next (eq_events ?s1 z)) n ?s1 = Some (?s1\<lparr>eq_events := (\<lambda>i. if i \<in> set zs
    then (eq_events ?s1 i)\<lparr>ev_nanosecs := ns_after n (ns_of ?s1 i)\<rparr> else eq_events ?s1 i)\<rparr>)"
    using Cons.prems by (intro Cons.IH) auto
  also have "\<dots> = Some (s\<lparr>eq_events := (\<lambda>i. if i \<in> set (z # zs)
    then (eq_events s i)\<lparr>ev_nanosecs := ns_after n (ns_of s i)\<rparr> else eq_events s i)\<rparr>)"
    using Cons.prems by (auto simp: upd_event_def fun_eq_iff)
  finally show ?case using step by simp
qed

text \<open>The deadlines after the short queue has been brought \<open>n\<close> nanoseconds nearer.\<close>

definition elapse :: "u32 \<Rightarrow> ('a) eventq_state_scheme \<Rightarrow> nat \<Rightarrow> (u32 \<times> u32) option" where
  "elapse n s i = (case deadline s i of
     Some (sec, ns) \<Rightarrow> Some (sec, if sec = 0 then ns_after n ns else ns) | None \<Rightarrow> None)"

lemma run_slice_loop_view:
  assumes v: "eq_view s xs ys"
  shows "\<exists>s'. run_slice_loop (event_head s) n s = Some s' \<and> eq_view s' xs ys \<and> eq_only s s' \<and>
    funcs s' = funcs s \<and> (\<forall>i<MAX_EVENT_ID. deadline s' i = elapse n s i) \<and>
    long_scan_time_remaining s' = long_scan_time_remaining s \<and>
    (\<forall>i. ev_seconds (eq_events s' i) = ev_seconds (eq_events s i)) \<and>
    (\<forall>i. ns_of s' i = (if i \<in> set xs then ns_after n (ns_of s i) else ns_of s i))"
proof -
  note V = v [unfolded eq_view_def]
  let ?s' = "s\<lparr>eq_events := (\<lambda>i. if i \<in> set xs
    then (eq_events s i)\<lparr>ev_nanosecs := ns_after n (ns_of s i)\<rparr> else eq_events s i)\<rparr>"
  have run: "run_slice_loop (event_head s) n s = Some ?s'"
    using V by (intro run_slice_loop_chain) auto
  have ch: "chain (eq_events ?s') p zs = chain (eq_events s) p zs" for p zs
    by (rule chain_cong) simp
  have "sorted (map (\<lambda>i. ns_after n (ns_of s i)) xs)"
    using V by - (rule sorted_map_mono [where f = "ns_of s"], auto intro: ns_after_mono)
  then have "sorted (map (ns_of ?s') xs)"
    by (rule sorted_map_cong') simp
  moreover have "\<forall>i<MAX_EVENT_ID. ns_of ?s' i \<noteq> NOT_SCHEDULED \<longleftrightarrow> i \<in> set (xs @ ys)"
    using V by (auto simp: ns_after_scheduled)
  moreover have "set xs \<inter> set ys = {}" using V by simp
  ultimately have "eq_view ?s' xs ys"
    using V unfolding eq_view_def ch by auto
  moreover have "\<forall>i<MAX_EVENT_ID. deadline ?s' i = elapse n s i"
  proof (intro allI impI)
    fix i assume "i < MAX_EVENT_ID"
    then show "deadline ?s' i = elapse n s i"
      using V by (auto simp: deadline_def elapse_def ns_after_scheduled)
  qed
  ultimately show ?thesis
    using run by (auto simp: eq_only_def queue_fields_def irq_kept_def funcs_def fun_eq_iff)
qed

lemma event_run_slice_view:
  assumes v: "eq_view s xs ys"
  shows "\<exists>s'. event_run_slice n s = Some s' \<and> pending_ok s' \<and> eq_only s s' \<and> funcs s' = funcs s \<and>
    (if sint (long_scan_time_remaining s - n) \<le> 0
     then (\<exists>k. (\<forall>i. k i = (if i \<in> set xs then ns_after n (ns_of s i) else ns_of s i)) \<and>
            eq_view s' (fold (ins_ev k) (filter (expires s) ys) xs) (filter (\<lambda>i. \<not> expires s i) ys)) \<and>
          (\<forall>i<MAX_EVENT_ID. deadline s' i =
             (if i \<in> set ys then Some (ev_seconds (eq_events s i) - 1, ns_of s i) else elapse n s i)) \<and>
          long_scan_time_remaining s' = long_scan_time_remaining s - n + LONG_SCAN_PERIOD
     else eq_view s' xs ys \<and> (\<forall>i<MAX_EVENT_ID. deadline s' i = elapse n s i) \<and>
          long_scan_time_remaining s' = long_scan_time_remaining s - n)"
proof -
  obtain s1 where s1: "run_slice_loop (event_head s) n s = Some s1" "eq_view s1 xs ys" "eq_only s s1"
    "funcs s1 = funcs s" "\<forall>i<MAX_EVENT_ID. deadline s1 i = elapse n s i"
    "long_scan_time_remaining s1 = long_scan_time_remaining s"
    "\<forall>i. ev_seconds (eq_events s1 i) = ev_seconds (eq_events s i)"
    "\<forall>i. ns_of s1 i = (if i \<in> set xs then ns_after n (ns_of s i) else ns_of s i)"
    using run_slice_loop_view [OF v] by blast
  have upd: "eq_view (t\<lparr>long_scan_time_remaining := r\<rparr>) as bs = eq_view t as bs"
    "eq_view (event_update_pending t) as bs = eq_view t as bs"
    for t :: "'a eventq_state_scheme" and r as bs by (simp_all add: eq_view_def)
  show ?thesis
  proof (cases "sint (long_scan_time_remaining s - n) \<le> 0")
    case True
    let ?s2 = "s1\<lparr>long_scan_time_remaining := long_scan_time_remaining s - n + LONG_SCAN_PERIOD\<rparr>"
    obtain s3 where s3: "event_scan_long ?s2 = Some s3" "scanned ?s2 s3 xs [] ys"
      using event_scan_long_view [of ?s2 xs ys] s1(2) by (auto simp: upd)
    have ex: "expires ?s2 = expires s" using s1(7) by (auto simp: expires_def)
    have "eq_only s ?s2" by (rule eq_only_trans [OF s1(3) eq_only_upd(4)])
    also have "eq_only ?s2 s3" using s3(2) by (simp add: scanned_def eq_step_def)
    also have "eq_only s3 (event_update_pending s3)" by (rule eq_only_upd)
    finally have only: "eq_only s (event_update_pending s3)" .
    have "ns_of ?s2 i = ns_of s i" if "i \<in> set ys" for i
      using v s1(8) that by (auto simp: eq_view_def)
    then have dl: "\<forall>i<MAX_EVENT_ID. deadline s3 i =
      (if i \<in> set ys then Some (ev_seconds (eq_events s i) - 1, ns_of s i) else elapse n s i)"
      using s3(2) s1(5,7) by (auto simp: scanned_def tick_def)
    show ?thesis
      using True s1 s3 only dl ex
      by (auto simp: event_run_slice_def Let_def scanned_def eq_step_def upd intro!: exI [of _ "ns_of s1"])
  next
    case False
    let ?s2 = "s1\<lparr>long_scan_time_remaining := long_scan_time_remaining s - n\<rparr>"
    have "eq_only s ?s2" by (rule eq_only_trans [OF s1(3) eq_only_upd(4)])
    also have "eq_only ?s2 (event_update_pending ?s2)" by (rule eq_only_upd)
    finally show ?thesis
      using False s1 by (auto simp: event_run_slice_def Let_def upd)
  qed
qed


section \<open>Running the due events\<close>

lemma event_pop_view:
  assumes v: "eq_view s (e # xs) ys"
  shows "eq_view (event_pop e s) xs ys" "deadline (event_pop e s) = (deadline s)(e := None)"
    "sh4_slice_cycle (event_pop e s) = sh4_slice_cycle s" "funcs (event_pop e s) = funcs s"
    "i \<noteq> e \<Longrightarrow> ns_of (event_pop e s) i = ns_of s i"
proof -
  note V = v [unfolded eq_view_def]
  show "eq_view (event_pop e s) xs ys"
    using V unfolding eq_view_def event_pop_def by (auto intro: sorted_map_cong')
  show "deadline (event_pop e s) = (deadline s)(e := None)"
    by (auto simp: event_pop_def deadline_def)
  show "i \<noteq> e \<Longrightarrow> ns_of (event_pop e s) i = ns_of s i"
    by (simp add: event_pop_def)
qed (simp_all add: event_pop_def funcs_def fun_eq_iff)

definition due :: "('a) eventq_state_scheme \<Rightarrow> nat set" where
  "due s = {i. i < MAX_EVENT_ID \<and> ns_of s i \<noteq> NOT_SCHEDULED \<and> ev_seconds (eq_events s i) = 0 \<and>
     ns_of s i \<le> sh4_slice_cycle s}"

lemma finite_due: "finite (due s)"
  by (rule finite_subset [of _ "{..<MAX_EVENT_ID}"]) (auto simp: due_def)

lemma due_view: "eq_view s xs ys \<Longrightarrow> due s = {i \<in> set xs. ns_of s i \<le> sh4_slice_cycle s}"
  by (auto simp: due_def eq_view_def)

lemma due_empty:
  assumes "eq_view s xs ys" "event_head s = None \<or> \<not> ns_of s (the (event_head s)) \<le> sh4_slice_cycle s"
  shows "due s = {}"
  using assms by (cases xs) (force simp: due_view [OF assms(1)] eq_view_def)+

text \<open>
  The contract of a callback: it returns, leaves a well-formed queue, does not touch the
  clock, and makes no event due within the current slice that was not due before.
\<close>

definition handler_ok ::
  "(event_func \<Rightarrow> u32 \<Rightarrow> ('a) eventq_state_scheme \<Rightarrow> ('a) eventq_state_scheme option) \<Rightarrow> bool" where
  "handler_ok call \<longleftrightarrow> (\<forall>f i s xs ys. eq_view s xs ys \<longrightarrow>
     (\<exists>s' xs' ys'. call f i s = Some s' \<and> eq_view s' xs' ys' \<and>
        sh4_slice_cycle s' = sh4_slice_cycle s \<and> due s' \<subseteq> due s))"

lemma handler_okD:
  assumes "handler_ok call" "eq_view s xs ys"
  obtains s' xs' ys' where "call f i s = Some s'" "eq_view s' xs' ys'"
    "sh4_slice_cycle s' = sh4_slice_cycle s" "due s' \<subseteq> due s"
  using assms unfolding handler_ok_def by blast

lemma execute_loop_view:
  assumes "handler_ok call" "eq_view s xs ys"
  shows "\<exists>s' xs' ys'. execute_loop call s = Some s' \<and> eq_view s' xs' ys' \<and>
    sh4_slice_cycle s' = sh4_slice_cycle s \<and> due s' = {}"
  using assms(2)
proof (induction "card (due s)" arbitrary: s xs ys rule: less_induct)
  case less
  show ?case
  proof (cases "event_head s = None \<or> \<not> ns_of s (the (event_head s)) \<le> sh4_slice_cycle s")
    case True
    then have "execute_loop call s = Some s"
      by (subst execute_loop.simps) (auto split: option.split)
    with due_empty [OF less.prems True] less.prems show ?thesis by blast
  next
    case False
    then obtain e xs1 where xs: "xs = e # xs1" "event_head s = Some e" "ns_of s e \<le> sh4_slice_cycle s"
      using less.prems by (cases xs) (auto simp: eq_view_def)
    note pop = event_pop_view [OF less.prems [unfolded xs(1)]]
    obtain s1 xs' ys' where s1: "call (ev_func (eq_events s e)) (ev_id (eq_events s e)) (event_pop e s) = Some s1"
      "eq_view s1 xs' ys'" "sh4_slice_cycle s1 = sh4_slice_cycle (event_pop e s)" "due s1 \<subseteq> due (event_pop e s)"
      using handler_okD [OF assms(1) pop(1)] by blast
    have "due (event_pop e s) \<subset> due s"
    proof -
      have e: "e \<notin> set xs1" using less.prems xs by (auto simp: eq_view_def)
      have "due (event_pop e s) \<subseteq> due s - {e}"
      proof
        fix x assume "x \<in> due (event_pop e s)"
        then have x: "x \<in> set xs1" "ns_of (event_pop e s) x \<le> sh4_slice_cycle s"
          by (simp_all add: due_view [OF pop(1)] pop(3))
        moreover have "x \<noteq> e" using x e by blast
        ultimately show "x \<in> due s - {e}"
          using pop(5) [of x] by (simp add: due_view [OF less.prems] xs(1))
      qed
      moreover have "e \<in> due s" using xs by (simp add: due_view [OF less.prems])
      ultimately show ?thesis by blast
    qed
    with s1(4) have "card (due s1) < card (due s)"
      by (intro psubset_card_mono finite_due) blast
    from less.hyps [OF this s1(2)] obtain s' xs'' ys'' where s': "execute_loop call s1 = Some s'"
      "eq_view s' xs'' ys''" "sh4_slice_cycle s' = sh4_slice_cycle s1" "due s' = {}"
      by blast
    moreover have "execute_loop call s = Some s'"
      using xs s1(1) s'(1) by (subst execute_loop.simps) simp
    ultimately show ?thesis
      using s1(3) pop(3) by auto
  qed
qed

lemma execute_loop_inv:
  assumes "\<And>s e. P s \<Longrightarrow> P (event_pop e s)"
    and "\<And>f i s s'. P s \<Longrightarrow> call f i s = Some s' \<Longrightarrow> P s'"
    and "execute_loop call s = Some s'" "P s"
  shows "P s'"
proof -
  have "c = call \<longrightarrow> P s \<longrightarrow> P s'" if "execute_loop c s = Some s'" for c s s'
  proof (rule execute_loop.raw_induct [where P = "\<lambda>c s s'. c = call \<longrightarrow> P s \<longrightarrow> P s'", OF _ that], intro impI)
    fix loop c s s'
    assume IH: "\<And>c s s'. loop c s = Some s' \<Longrightarrow> c = call \<longrightarrow> P s \<longrightarrow> P s'"
      and step: "(case event_head s of None \<Rightarrow> Some s
       | Some e \<Rightarrow> if ns_of s e \<le> sh4_slice_cycle s
           then Option.bind (c (ev_func (eq_events s e)) (ev_id (eq_events s e)) (event_pop e s)) (loop c)
           else Some s) = Some s'" and c: "c = call" and P: "P s"
    show "P s'"
    proof (cases "event_head s")
      case None
      with step P show ?thesis by simp
    next
      case (Some e)
      show ?thesis
      proof (cases "ns_of s e \<le> sh4_slice_cycle s")
        case True
        with step Some c obtain s1 where "call (ev_func (eq_events s e)) (ev_id (eq_events s e)) (event_pop e s) = Some s1"
          "loop c s1 = Some s'" by (auto simp: bind_eq_Some_conv)
        then show ?thesis using IH c assms(1,2) P by blast
      next
        case False
        with step Some P show ?thesis by simp
      qed
    qed
  qed
  with assms(3,4) show ?thesis by blast
qed

lemma eq_view_update_pending [simp]: "eq_view (event_update_pending s) xs ys = eq_view s xs ys"
  by (simp add: eq_view_def)

lemma due_update_pending [simp]: "due (event_update_pending s) = due s"
  by (simp add: due_def)

lemma event_execute_view:
  assumes "eq_view s xs ys" "handler_ok call"
  shows "\<exists>s' xs' ys'. event_execute call s = Some s' \<and> eq_view s' xs' ys' \<and> pending_ok s' \<and>
    due s' = {} \<and> sh4_slice_cycle s' = sh4_slice_cycle s"
proof -
  obtain s1 xs' ys' where "execute_loop call s = Some s1" "eq_view s1 xs' ys'"
    "sh4_slice_cycle s1 = sh4_slice_cycle s" "due s1 = {}"
    using execute_loop_view [OF assms(2,1)] by blast
  then show ?thesis
    by (intro exI [of _ "event_update_pending s1"] exI [of _ xs'] exI [of _ ys'])
      (simp add: event_execute_def)
qed

text \<open>Callbacks that leave the queue alone run once for each due event, earliest first.\<close>

lemma more_update_sel [simp]:
  "eq_events (eventq_state.more_update h s) = eq_events s"
  "event_head (eventq_state.more_update h s) = event_head s"
  "long_event_head (eventq_state.more_update h s) = long_event_head s"
  "sh4_slice_cycle (eventq_state.more_update h s) = sh4_slice_cycle s"
  "long_scan_time_remaining (eventq_state.more_update h s) = long_scan_time_remaining s"
  by (cases s; simp)+

lemma event_update_pending_more [simp]:
  "eventq_state.more (event_update_pending s) = eventq_state.more s"
  by (simp add: event_update_pending_def Let_def sh4_set_event_pending_def split: option.split)

lemma event_pop_more [simp]: "eventq_state.more (event_pop e s) = eventq_state.more s"
  by (simp add: event_pop_def upd_event_def)

lemma more_more_update [simp]: "eventq_state.more (eventq_state.more_update h s) = h (eventq_state.more s)"
  by (cases s) simp

lemma execute_loop_order:
  assumes "eq_view s xs ys"
  shows "\<exists>s'. execute_loop (\<lambda>f i t. Some (eventq_state.more_update (h f i) t)) s = Some s' \<and>
    eventq_state.more s' = fold (\<lambda>i. h (funcs s i) (of_nat i))
      (takeWhile (\<lambda>i. ns_of s i \<le> sh4_slice_cycle s) xs) (eventq_state.more s) \<and>
    eq_view s' (dropWhile (\<lambda>i. ns_of s i \<le> sh4_slice_cycle s) xs) ys"
  using assms
proof (induction xs arbitrary: s)
  case Nil
  then show ?case by (subst execute_loop.simps) (auto simp: eq_view_def)
next
  case (Cons e xs)
  have hd: "event_head s = Some e" "ev_id (eq_events s e) = of_nat e" "e \<notin> set xs"
    using Cons.prems by (auto simp: eq_view_def)
  show ?case
  proof (cases "ns_of s e \<le> sh4_slice_cycle s")
    case True
    note pop = event_pop_view [OF Cons.prems]
    let ?s1 = "eventq_state.more_update (h (ev_func (eq_events s e)) (of_nat e)) (event_pop e s)"
    have "eq_view ?s1 xs ys" using pop(1) by (simp add: eq_view_def)
    from Cons.IH [OF this] obtain s' where
      s': "execute_loop (\<lambda>f i t. Some (eventq_state.more_update (h f i) t)) ?s1 = Some s'"
      "eventq_state.more s' = fold (\<lambda>i. h (funcs ?s1 i) (of_nat i))
        (takeWhile (\<lambda>i. ns_of ?s1 i \<le> sh4_slice_cycle ?s1) xs) (eventq_state.more ?s1)"
      "eq_view s' (dropWhile (\<lambda>i. ns_of ?s1 i \<le> sh4_slice_cycle ?s1) xs) ys"
      by blast
    have same: "ns_of ?s1 i \<le> sh4_slice_cycle ?s1 \<longleftrightarrow> ns_of s i \<le> sh4_slice_cycle s" if "i \<in> set xs" for i
    proof -
      have "i \<noteq> e" using hd(3) that by blast
      then show ?thesis using pop(3) pop(5) [of i] by simp
    qed
    have fns: "funcs ?s1 = funcs s"
      using pop(4) by (simp add: funcs_def fun_eq_iff)
    have "takeWhile (\<lambda>i. ns_of ?s1 i \<le> sh4_slice_cycle ?s1) xs = takeWhile (\<lambda>i. ns_of s i \<le> sh4_slice_cycle s) xs"
      "dropWhile (\<lambda>i. ns_of ?s1 i \<le> sh4_slice_cycle ?s1) xs = dropWhile (\<lambda>i. ns_of s i \<le> sh4_slice_cycle s) xs"
      using same by (auto intro: takeWhile_cong dropWhile_cong)
    then show ?thesis
      using hd True s' fns by (subst execute_loop.simps) (simp add: funcs_def)
  next
    case False
    then show ?thesis
      using hd Cons.prems by (subst execute_loop.simps) simp
  qed
qed

section \<open>Initialisation and saved states\<close>

lemma event_init_view: "eq_view (event_init s) [] []"
  by (simp add: eq_view_def event_init_def)

lemma event_reset_view:
  "\<forall>i<MAX_EVENT_ID. ev_id (eq_events s i) = of_nat i \<Longrightarrow> eq_view (event_reset s) [] []"
  by (simp add: eq_view_def event_reset_def)

lemma eventq_state_update_cong:
  "(\<And>j. f j = g j) \<Longrightarrow> s\<lparr>eq_events := f\<rparr> = s\<lparr>eq_events := g\<rparr>"
proof -
  assume "\<And>j. f j = g j"
  then have "f = g" by (rule ext)
  then show ?thesis by simp
qed

lemma if_never: "(\<lambda>j. if (n :: nat) \<le> j \<and> j < n then f j else g j) = g"
  by (rule ext) auto

lemma load_events_concat:
  assumes "i \<le> n"
  shows "load_events i (concat (map (\<lambda>j. [a j, b j, c j, d j]) [i..<n])) s =
    s\<lparr>eq_events := (\<lambda>j. if i \<le> j \<and> j < n then (eq_events s j)\<lparr>ev_id := a j, ev_seconds := b j,
       ev_nanosecs := c j, ev_next := id_ptr (d j)\<rparr> else eq_events s j)\<rparr>"
  using assms
proof (induction "n - i" arbitrary: i s)
  case 0
  then have i: "i = n" by linarith
  have "s\<lparr>eq_events := eq_events s\<rparr> = s" by simp
  then show ?case unfolding i if_never by (simp only: upt_rec [of n n] less_irrefl if_False list.map concat.simps load_events.simps)
next
  case (Suc k)
  then have i: "i < n" "k = n - Suc i" by auto
  define s1 where "s1 = upd_event i (\<lambda>ev. ev\<lparr>ev_id := a i, ev_seconds := b i,
    ev_nanosecs := c i, ev_next := id_ptr (d i)\<rparr>) s"
  define f where "f = (\<lambda>(ev :: nat \<Rightarrow> event) j. (ev j)\<lparr>ev_id := a j, ev_seconds := b j,
       ev_nanosecs := c j, ev_next := id_ptr (d j)\<rparr>)"
  have upt: "[i..<n] = i # [Suc i..<n]" using i by (simp add: upt_conv_Cons)
  have "load_events i (concat (map (\<lambda>j. [a j, b j, c j, d j]) [i..<n])) s =
    load_events (Suc i) (concat (map (\<lambda>j. [a j, b j, c j, d j]) [Suc i..<n])) s1"
    unfolding upt by (simp add: s1_def)
  also have "\<dots> = s1\<lparr>eq_events := (\<lambda>j. if Suc i \<le> j \<and> j < n then f (eq_events s1) j else eq_events s1 j)\<rparr>"
    unfolding f_def using Suc.hyps(1) [of "Suc i" s1] i by simp
  also have "\<dots> = s\<lparr>eq_events := (\<lambda>j. if Suc i \<le> j \<and> j < n then f (eq_events s1) j else eq_events s1 j)\<rparr>"
    by (simp add: s1_def upd_event_def)
  also have "\<dots> = s\<lparr>eq_events := (\<lambda>j. if i \<le> j \<and> j < n then f (eq_events s) j else eq_events s j)\<rparr>"
  proof (rule eventq_state_update_cong)
    fix j
    show "(if Suc i \<le> j \<and> j < n then f (eq_events s1) j else eq_events s1 j) =
      (if i \<le> j \<and> j < n then f (eq_events s) j else eq_events s j)"
      using i by (cases "j = i") (auto simp: f_def s1_def)
  qed
  finally show ?case unfolding f_def .
qed

lemma length_concat4: "length (concat (map (\<lambda>j. [a j, b j, c j, d j]) xs)) = 4 * length xs"
  by (induction xs) auto

lemma id_ptr_of_nat: "e < MAX_EVENT_ID \<Longrightarrow> id_ptr (of_nat e) = Some e"
proof -
  assume e: "e < MAX_EVENT_ID"
  then have u: "unat (of_nat e :: u32) = e"
    by (simp add: MAX_EVENT_ID_def unat_of_nat)
  have "(of_nat e :: u32) \<noteq> - 1"
  proof
    assume "(of_nat e :: u32) = - 1"
    then have "unat (of_nat e :: u32) = unat (- 1 :: u32)" by (rule arg_cong)
    moreover have "(- 1 :: u32) = 4294967295" by simp
    then have "unat (- 1 :: u32) = 4294967295" by (simp only: unat_numeral_32)
    ultimately show False using u e by (simp add: MAX_EVENT_ID_def)
  qed
  with u show ?thesis by (simp add: id_ptr_def)
qed

text \<open>Every pointer is null or points into the array, and the ids are the indices.\<close>

definition pointers_ok :: "('a) eventq_state_scheme \<Rightarrow> bool" where
  "pointers_ok s \<longleftrightarrow> (\<forall>i<MAX_EVENT_ID. ev_id (eq_events s i) = of_nat i) \<and>
     (\<forall>p \<in> {event_head s, long_event_head s} \<union> (\<lambda>i. ev_next (eq_events s i)) ` {..<MAX_EVENT_ID}.
        p = None \<or> the p < MAX_EVENT_ID)"

lemma id_ptr_ptr_id:
  assumes "pointers_ok s" "p = None \<or> the p < MAX_EVENT_ID"
  shows "id_ptr (ptr_id s p) = p"
proof (cases p)
  case None
  then show ?thesis by (simp add: ptr_id_def id_ptr_def)
next
  case (Some e)
  with assms have "e < MAX_EVENT_ID" "ev_id (eq_events s e) = of_nat e"
    by (simp_all add: pointers_ok_def)
  with Some show ?thesis by (simp add: ptr_id_def id_ptr_of_nat)
qed

lemma event_load_save:
  assumes p: "pointers_ok s"
  shows "event_load_state (event_save_state s) t = t\<lparr>event_head := event_head s,
    long_event_head := long_event_head s, long_scan_time_remaining := long_scan_time_remaining s,
    eq_events := (\<lambda>i. if i < MAX_EVENT_ID
      then (eq_events s i)\<lparr>ev_func := ev_func (eq_events t i)\<rparr> else eq_events t i)\<rparr>"
proof -
  have "id_ptr (ptr_id s (ev_next (eq_events s i))) = ev_next (eq_events s i)" if "i < MAX_EVENT_ID" for i
    using p that by (intro id_ptr_ptr_id) (auto simp: pointers_ok_def)
  moreover have "id_ptr (ptr_id s (event_head s)) = event_head s"
    "id_ptr (ptr_id s (long_event_head s)) = long_event_head s"
    using p by (auto intro!: id_ptr_ptr_id simp: pointers_ok_def)
  ultimately show ?thesis
    by (auto simp: event_save_state_def length_concat4 load_events_concat [OF le0] fun_eq_iff)
qed

section \<open>The interface that the devices use\<close>

text \<open>
  A device sees the queue through two operations. \<open>keeps\<close> relates states that
  differ in the queue's own fields only. \<open>clock\<close> stands for what the
  deadline is computed from (the position in the slice and the next scan of the long list), and
  \<open>fits\<close> for the times that do not collide with the sentinel.
\<close>

locale event_scheduler =
  fixes inv :: "'s \<Rightarrow> bool"
    and valid :: "nat \<Rightarrow> bool"
    and fits :: "u32 \<Rightarrow> u32 \<Rightarrow> 's \<Rightarrow> bool"
    and target :: "u32 \<Rightarrow> u32 \<Rightarrow> 's \<Rightarrow> 't"
    and sched :: "nat \<Rightarrow> u32 \<Rightarrow> u32 \<Rightarrow> 's \<Rightarrow> 's option"
    and cancel :: "nat \<Rightarrow> 's \<Rightarrow> 's option"
    and dl :: "'s \<Rightarrow> nat \<Rightarrow> 't option"
    and clock :: "'s \<Rightarrow> 'c"
    and keeps :: "'s \<Rightarrow> 's \<Rightarrow> bool"
  assumes sched_law: "inv s \<Longrightarrow> valid e \<Longrightarrow> fits sec ns s \<Longrightarrow> \<exists>s'. sched e sec ns s = Some s' \<and> inv s' \<and>
      dl s' = (dl s)(e \<mapsto> target sec ns s) \<and> clock s' = clock s \<and> keeps s s'"
    and cancel_law: "inv s \<Longrightarrow> valid e \<Longrightarrow> \<exists>s'. cancel e s = Some s' \<and> inv s' \<and>
      dl s' = (dl s)(e := None) \<and> clock s' = clock s \<and> keeps s s'"
    and keeps_refl: "keeps s s"
    and keeps_trans: "keeps s s' \<Longrightarrow> keeps s' s'' \<Longrightarrow> keeps s s''"
    and clock_law: "clock s = clock s' \<Longrightarrow> target sec ns s = target sec ns s' \<and>
      fits sec ns s = fits sec ns s'"
begin

lemma cancel_after_sched:
  assumes "inv s" "valid e" "fits sec ns s"
  shows "\<exists>s'. Option.bind (sched e sec ns s) (cancel e) = Some s' \<and> inv s' \<and>
    dl s' = (dl s)(e := None) \<and> clock s' = clock s \<and> keeps s s'"
proof -
  obtain s1 where s1: "sched e sec ns s = Some s1" "inv s1" "dl s1 = (dl s)(e \<mapsto> target sec ns s)"
    "clock s1 = clock s" "keeps s s1"
    using sched_law [OF assms] by blast
  moreover obtain s' where "cancel e s1 = Some s'" "inv s'" "dl s' = (dl s1)(e := None)"
    "clock s' = clock s1" "keeps s1 s'"
    using cancel_law [OF s1(2) assms(2)] by blast
  ultimately show ?thesis using keeps_trans by auto
qed

lemma sched_again:
  assumes "inv s" "valid e" "fits sec ns s" "fits sec' ns' s"
  shows "\<exists>s'. Option.bind (sched e sec ns s) (sched e sec' ns') = Some s' \<and> inv s' \<and>
    dl s' = (dl s)(e \<mapsto> target sec' ns' s) \<and> clock s' = clock s \<and> keeps s s'"
proof -
  obtain s1 where s1: "sched e sec ns s = Some s1" "inv s1" "dl s1 = (dl s)(e \<mapsto> target sec ns s)"
    "clock s1 = clock s" "keeps s s1"
    using sched_law [OF assms(1-3)] by blast
  have "fits sec' ns' s1" using assms(4) clock_law [OF s1(4)] by blast
  then obtain s' where "sched e sec' ns' s1 = Some s'" "inv s'"
    "dl s' = (dl s1)(e \<mapsto> target sec' ns' s1)" "clock s' = clock s1" "keeps s1 s'"
    using sched_law [OF s1(2) assms(2)] by blast
  then show ?thesis using s1 clock_law [OF s1(4)] keeps_trans by auto
qed

text \<open>A sequence of requests: what a device does to the queue while it handles a write.\<close>

fun requests :: "(nat \<times> (u32 \<times> u32) option) list \<Rightarrow> 's \<Rightarrow> 's option" where
  "requests [] s = Some s"
| "requests ((e, None) # rs) s = Option.bind (cancel e s) (requests rs)"
| "requests ((e, Some (sec, ns)) # rs) s = Option.bind (sched e sec ns s) (requests rs)"

lemma requests_other:
  assumes "inv s" "\<And>e q. (e, q) \<in> set rs \<Longrightarrow> valid e \<and> (\<forall>sec ns. q = Some (sec, ns) \<longrightarrow> fits sec ns s)"
  shows "\<exists>s'. requests rs s = Some s' \<and> inv s' \<and> clock s' = clock s \<and> keeps s s' \<and>
    (\<forall>i. i \<notin> fst ` set rs \<longrightarrow> dl s' i = dl s i)"
  using assms
proof (induction rs s rule: requests.induct)
  case (2 e rs s)
  then obtain s1 where s1: "cancel e s = Some s1" "inv s1" "dl s1 = (dl s)(e := None)" "clock s1 = clock s" "keeps s s1"
    using cancel_law [of s e] by fastforce
  with "2.prems" clock_law [OF s1(4)]
  obtain s' where "requests rs s1 = Some s'" "inv s'" "clock s' = clock s1" "keeps s1 s'"
    "\<forall>i. i \<notin> fst ` set rs \<longrightarrow> dl s' i = dl s1 i"
    using "2.IH" [of s1] by (fastforce simp: s1)
  with s1 show ?case using keeps_trans by auto
next
  case (3 e sec ns rs s)
  then obtain s1 where s1: "sched e sec ns s = Some s1" "inv s1" "dl s1 = (dl s)(e \<mapsto> target sec ns s)"
    "clock s1 = clock s" "keeps s s1"
    using sched_law [of s e sec ns] by fastforce
  with "3.prems" clock_law [OF s1(4)]
  obtain s' where "requests rs s1 = Some s'" "inv s'" "clock s' = clock s1" "keeps s1 s'"
    "\<forall>i. i \<notin> fst ` set rs \<longrightarrow> dl s' i = dl s1 i"
    using "3.IH" [of s1] by (fastforce simp: s1)
  with s1 show ?case using keeps_trans by auto
qed (simp add: keeps_refl)

end

definition eq_fits :: "u32 \<Rightarrow> u32 \<Rightarrow> ('a) eventq_state_scheme \<Rightarrow> bool" where
  "eq_fits sec ns s \<longleftrightarrow> (if sec = 0 then ns + sh4_slice_cycle s \<noteq> NOT_SCHEDULED
     else ns + sh4_slice_cycle s + (LONG_SCAN_PERIOD - long_scan_time_remaining s) \<noteq> NOT_SCHEDULED)"

definition eq_target :: "u32 \<Rightarrow> u32 \<Rightarrow> ('a) eventq_state_scheme \<Rightarrow> u32 \<times> u32" where
  "eq_target sec ns s = (sec, if sec = 0 then ns + sh4_slice_cycle s
     else ns + sh4_slice_cycle s + (LONG_SCAN_PERIOD - long_scan_time_remaining s))"

definition eq_clock :: "('a) eventq_state_scheme \<Rightarrow> u32 \<times> u32" where
  "eq_clock s = (sh4_slice_cycle s, long_scan_time_remaining s)"

lemma eventq_invI: "eq_step s s' xs ys \<Longrightarrow> pending_ok s \<Longrightarrow> eventq_inv s'"
  by (auto simp: eq_step_def eventq_inv_def)

interpretation evq: event_scheduler eventq_inv "\<lambda>e. e < MAX_EVENT_ID" eq_fits eq_target
  event_schedule_long event_cancel deadline eq_clock eq_only
proof
  fix s :: "'a eventq_state_scheme" and e sec ns
  assume inv: "eventq_inv s" and e: "e < MAX_EVENT_ID" and fits: "eq_fits sec ns s"
  then obtain xs ys where v: "eq_view s xs ys" "pending_ok s" by (auto simp: eventq_inv_def)
  show "\<exists>s'. event_schedule_long e sec ns s = Some s' \<and> eventq_inv s' \<and>
    deadline s' = (deadline s)(e \<mapsto> eq_target sec ns s) \<and> eq_clock s' = eq_clock s \<and> eq_only s s'"
  proof (cases "sec = 0")
    case True
    with fits have "ns + sh4_slice_cycle s \<noteq> NOT_SCHEDULED" by (simp add: eq_fits_def)
    from event_schedule_view [OF v(1) e this] obtain s' where
      "event_schedule e ns s = Some s'" "eq_step s s' (ins_ev (ns_of s') e (remove1 e xs)) (remove1 e ys)"
      "deadline s' = (deadline s)(e \<mapsto> (0, ns + sh4_slice_cycle s))"
      "long_scan_time_remaining s' = long_scan_time_remaining s" by blast
    with True v(2) show ?thesis
      by (simp add: event_schedule_long_def eq_target_def eq_clock_def eventq_invI)
        (simp add: eq_step_def eq_only_slice)
  next
    case False
    with fits have "ns + sh4_slice_cycle s + (LONG_SCAN_PERIOD - long_scan_time_remaining s) \<noteq> NOT_SCHEDULED"
      by (simp add: eq_fits_def)
    from event_schedule_long_view [OF v(1) e False this] obtain s' where
      "event_schedule_long e sec ns s = Some s'" "eq_step s s' (remove1 e xs) (e # remove1 e ys)"
      "deadline s' = (deadline s)(e \<mapsto> (sec, ns + sh4_slice_cycle s + (LONG_SCAN_PERIOD - long_scan_time_remaining s)))"
      "long_scan_time_remaining s' = long_scan_time_remaining s" by blast
    with False v(2) show ?thesis
      by (simp add: eq_target_def eq_clock_def eventq_invI) (simp add: eq_step_def eq_only_slice)
  qed
next
  fix s :: "'a eventq_state_scheme" and e
  assume inv: "eventq_inv s" and e: "e < MAX_EVENT_ID"
  then obtain xs ys where v: "eq_view s xs ys" "pending_ok s" by (auto simp: eventq_inv_def)
  from event_cancel_view [OF v(1) e] obtain s' where
    "event_cancel e s = Some s'" "eq_step s s' (remove1 e xs) (remove1 e ys)"
    "deadline s' = (deadline s)(e := None)" "long_scan_time_remaining s' = long_scan_time_remaining s"
    by blast
  with v(2) show "\<exists>s'. event_cancel e s = Some s' \<and> eventq_inv s' \<and> deadline s' = (deadline s)(e := None) \<and>
    eq_clock s' = eq_clock s \<and> eq_only s s'"
    by (simp add: eq_clock_def eventq_invI) (simp add: eq_step_def eq_only_slice)
next
  fix s s' s'' :: "'a eventq_state_scheme"
  assume "eq_only s s'" "eq_only s' s''"
  then show "eq_only s s''" by (rule eq_only_trans)
qed (simp_all add: eq_clock_def eq_target_def eq_fits_def)


section \<open>Properties\<close>

text \<open>A machine with an empty queue, on which the witnesses run; \<open>x\<close> is the rest of the state.\<close>

definition blank_sh4 :: "'a \<Rightarrow> ('a) sh4_registers_scheme" where
  "blank_sh4 x = \<lparr>sh4_r = (\<lambda>_. 0), sh4_sr = 0x600000F0, sh4_pc = 0xA0000000, sh4_t = 0, sh4_m = 0, sh4_q = 0,
     sh4_s = 0, sh4_fr = (\<lambda>_ _. 0), sh4_fpscr = 0x00040001, sh4_ssr = 0, sh4_spc = 0, sh4_sgr = 0, sh4_vbr = 0,
     sh4_r_bank = (\<lambda>_. 0), sh4_new_pc = 0xA0000002, sh4_event_pending = NOT_SCHEDULED, sh4_event_types = 0,
     sh4_in_delay_slot = 0, sh4_slice_cycle = 0, sh4_state = 1, sh4_xlat_mode = 0x40000000, \<dots> = x\<rparr>"

definition blank_eventq :: "'a \<Rightarrow> ('a) eventq_state_scheme" where
  "blank_eventq x = event_init (blank_sh4 (eventq_state_ext
     (\<lambda>_. \<lparr>ev_id = 0, ev_seconds = 0, ev_nanosecs = 0, ev_func = FN_NULL, ev_next = None\<rparr>) 0 None None x))"

lemma blank_eventq_view: "eq_view (blank_eventq x) [] []" "pending_ok (blank_eventq x)"
  "eventq_inv (blank_eventq x)"
proof -
  show v: "eq_view (blank_eventq x) [] []" unfolding blank_eventq_def by (rule event_init_view)
  show "pending_ok (blank_eventq x)"
    by (simp add: blank_eventq_def pending_ok_def event_get_next_time_def event_init_def blank_sh4_def)
  with v show "eventq_inv (blank_eventq x)" by (auto simp: eventq_inv_def)
qed

lemma blank_eventq_sel [simp]:
  "sh4_slice_cycle (blank_eventq x) = 0" "sh4_sr (blank_eventq x) = 0x600000F0"
  "sh4_event_types (blank_eventq x) = 0" "event_head (blank_eventq x) = None"
  "long_event_head (blank_eventq x) = None" "long_scan_time_remaining (blank_eventq x) = LONG_SCAN_PERIOD"
  "i < MAX_EVENT_ID \<Longrightarrow> ns_of (blank_eventq x) i = NOT_SCHEDULED"
  "eventq_state.more (blank_eventq x) = x"
  by (simp_all add: blank_eventq_def event_init_def blank_sh4_def)

text \<open>
  C1: Scheduling an event on a well-formed queue returns and keeps the queue well-formed
  and its mirror in the CPU registers exact. The event gets the requested time, counted
  from the current position in the slice, no other event changes, and among the events of
  the slice it is placed behind all that are due earlier or at the same time.
\<close>

theorem event_schedule_correct:
  assumes "eq_view s xs ys" "pending_ok s" "e < MAX_EVENT_ID"
    and "nanosecs + sh4_slice_cycle s \<noteq> NOT_SCHEDULED"
  shows "\<exists>s'. event_schedule e nanosecs s = Some s' \<and> pending_ok s' \<and>
    deadline s' = (deadline s)(e \<mapsto> (0, nanosecs + sh4_slice_cycle s)) \<and>
    eq_view s' (filter (\<lambda>i. ns_of s i \<le> nanosecs + sh4_slice_cycle s) (remove1 e xs)
      @ e # filter (\<lambda>i. nanosecs + sh4_slice_cycle s < ns_of s i) (remove1 e xs)) (remove1 e ys)"
proof -
  let ?t = "nanosecs + sh4_slice_cycle s"
  obtain s' where s': "event_schedule e nanosecs s = Some s'"
    "eq_step s s' (ins_ev (ns_of s') e (remove1 e xs)) (remove1 e ys)"
    "deadline s' = (deadline s)(e \<mapsto> (0, ?t))"
    using event_schedule_view [OF assms(1,3,4)] by blast
  have e: "e \<notin> set (remove1 e xs)" and sub: "\<And>i. i \<in> set (remove1 e xs) \<Longrightarrow> i < MAX_EVENT_ID"
    using assms(1) by (auto simp: eq_view_def set_remove1)
  have v: "eq_view s' (ins_ev (ns_of s') e (remove1 e xs)) (remove1 e ys)"
    using s'(2) by (simp add: eq_step_def)
  have time: "ns_of s' i = (if i = e then ?t else ns_of s i)" if "i \<in> insert e (set (remove1 e xs))" for i
  proof -
    have "deadline s' i \<noteq> None" using v that assms(3) sub by (auto simp: eq_view_def deadline_def)
    then have "snd (the (deadline s' i)) = ns_of s' i" by (auto simp: deadline_def split: if_splits)
    moreover have "snd (the (deadline s' i)) = (if i = e then ?t else ns_of s i)"
      using \<open>deadline s' i \<noteq> None\<close> by (auto simp: s'(3) deadline_def split: if_splits)
    ultimately show ?thesis by simp
  qed
  have same: "ns_of s' i = ns_of s i" if "i \<in> set (remove1 e xs)" for i
    using time [of i] that e by auto
  have "sorted (map (ns_of s) (remove1 e xs))"
    using assms(1) by (intro sorted_map_remove1) (simp add: eq_view_def)
  then have "sorted (map (ns_of s') (remove1 e xs))"
    by (rule sorted_map_cong') (rule same)
  from sorted_ins_ev_stable [OF this, of e]
  have "ins_ev (ns_of s') e (remove1 e xs) = filter (\<lambda>i. ns_of s' i \<le> ?t) (remove1 e xs)
    @ e # filter (\<lambda>i. ?t < ns_of s' i) (remove1 e xs)"
    using time [of e] by simp
  also have "\<dots> = filter (\<lambda>i. ns_of s i \<le> ?t) (remove1 e xs) @ e # filter (\<lambda>i. ?t < ns_of s i) (remove1 e xs)"
    using same by (simp cong: filter_cong)
  finally show ?thesis using s' v assms(2) by (auto simp: eq_step_def)
qed

theorem event_schedule_correct_witness:
  "\<exists>s'. event_schedule 97 500 (blank_eventq ()) = Some s' \<and> deadline s' 97 = Some (0, 500)"
  using event_schedule_correct [OF blank_eventq_view(1,2) [of "()"], of 97 500]
  by (auto simp: MAX_EVENT_ID_def NOT_SCHEDULED_def)

text \<open>
  C2: Cancelling an event that was scheduled, near or far, returns, and the queue is as if
  neither call had been made, except that the event is no longer scheduled.
\<close>

theorem event_schedule_then_cancel:
  assumes "eventq_inv s" "e < MAX_EVENT_ID" "eq_fits sec ns s"
  shows "\<exists>s'. Option.bind (event_schedule_long e sec ns s) (event_cancel e) = Some s' \<and> eventq_inv s' \<and>
    deadline s' = (deadline s)(e := None) \<and> eq_clock s' = eq_clock s \<and> eq_only s s'"
  by (rule evq.cancel_after_sched [OF assms])

theorem event_schedule_then_cancel_witness:
  "\<exists>s'. Option.bind (event_schedule_long 97 3 500 (blank_eventq ())) (event_cancel 97) = Some s' \<and>
    deadline s' 97 = None"
  using event_schedule_then_cancel [OF blank_eventq_view(3) [of "()"], of 97 3 500]
  by (auto simp: MAX_EVENT_ID_def eq_fits_def NOT_SCHEDULED_def)

text \<open>
  C3: \<open>event_execute\<close> returns whenever the callbacks keep the queue well-formed and make
  nothing due that was not due before, although they may schedule and cancel events; on
  return no event of the slice is due, and the mirror registers are exact.
\<close>

theorem event_execute_terminates:
  assumes "eq_view s xs ys" "handler_ok call"
  shows "\<exists>s' xs' ys'. event_execute call s = Some s' \<and> eq_view s' xs' ys' \<and> pending_ok s' \<and>
    due s' = {} \<and> sh4_slice_cycle s' = sh4_slice_cycle s"
  by (rule event_execute_view [OF assms])

theorem event_execute_terminates_witness:
  "\<exists>s'. event_execute (\<lambda>f i s. Some s) (blank_eventq ()) = Some s' \<and> due s' = {}"
proof -
  have "handler_ok (\<lambda>f i (s :: eventq_state). Some s)" by (auto simp: handler_ok_def)
  from event_execute_terminates [OF blank_eventq_view(1) this] show ?thesis by blast
qed



text \<open>
  C5: Advancing the clock returns and keeps the queue well-formed. Every event of the short
  queue comes nearer by the elapsed time, stopping at zero; when the one-second scan is
  due, every far event loses one second, and those that have none left join the short queue.
\<close>

theorem event_run_slice_correct:
  assumes "eq_view s xs ys"
  shows "\<exists>s'. event_run_slice n s = Some s' \<and> pending_ok s' \<and> eq_only s s' \<and> funcs s' = funcs s \<and>
    (if sint (long_scan_time_remaining s - n) \<le> 0
     then (\<exists>k. (\<forall>i. k i = (if i \<in> set xs then ns_after n (ns_of s i) else ns_of s i)) \<and>
            eq_view s' (fold (ins_ev k) (filter (expires s) ys) xs) (filter (\<lambda>i. \<not> expires s i) ys)) \<and>
          (\<forall>i<MAX_EVENT_ID. deadline s' i =
             (if i \<in> set ys then Some (ev_seconds (eq_events s i) - 1, ns_of s i) else elapse n s i)) \<and>
          long_scan_time_remaining s' = long_scan_time_remaining s - n + LONG_SCAN_PERIOD
     else eq_view s' xs ys \<and> (\<forall>i<MAX_EVENT_ID. deadline s' i = elapse n s i) \<and>
          long_scan_time_remaining s' = long_scan_time_remaining s - n)"
  by (rule event_run_slice_view [OF assms])

theorem event_run_slice_correct_witness:
  "\<exists>s'. event_run_slice 1000 (blank_eventq ()) = Some s' \<and> pending_ok s'"
proof -
  from event_run_slice_correct [OF blank_eventq_view(1) [of "()"], of 1000]
  obtain s' where "event_run_slice 1000 (blank_eventq ()) = Some s'" "pending_ok s'"
    by (elim exE conjE)
  then show ?thesis by blast
qed

text \<open>
  C6: Loading a saved queue restores both lists, all times and all links exactly; only the
  callbacks stay those of the running program.
\<close>

theorem event_save_load:
  assumes "pointers_ok s"
  shows "event_load_state (event_save_state s) t = t\<lparr>event_head := event_head s,
    long_event_head := long_event_head s, long_scan_time_remaining := long_scan_time_remaining s,
    eq_events := (\<lambda>i. if i < MAX_EVENT_ID
      then (eq_events s i)\<lparr>ev_func := ev_func (eq_events t i)\<rparr> else eq_events t i)\<rparr>"
  by (rule event_load_save [OF assms])

theorem event_save_load_witness:
  "event_head (event_load_state (event_save_state (blank_eventq ())) (blank_eventq ())) = None"
proof -
  have "pointers_ok (blank_eventq ())"
    by (auto simp: pointers_ok_def blank_eventq_def event_init_def)
  from event_save_load [OF this, of "blank_eventq ()"] show ?thesis by simp
qed

end
