(* ===== verification/IntC.thy ===== *)
theory IntC
  imports EventQ
begin

unbundle bit_operations_syntax

text \<open>
  The SH4 interrupt controller, \<open>sh4/intc.c\<close>. Pending sources are kept in an
  array ordered by precedence, the next one to be accepted last. The C \<open>int\<close>s that
  hold source numbers, counts and priorities are natural numbers: the code never
  makes them negative. An insertion into a full array would write behind it;
  the invariant shows that the array is never full when a source is missing.
\<close>

section \<open>State and sources\<close>

definition INT_NUM_SOURCES :: nat where "INT_NUM_SOURCES = 41"

definition INT_IRQ9 :: nat where "INT_IRQ9 = 9"
definition INT_IRQ11 :: nat where "INT_IRQ11 = 11"
definition INT_IRQ13 :: nat where "INT_IRQ13 = 13"
definition INT_NMI :: nat where "INT_NMI = 15"
definition INT_HUDI :: nat where "INT_HUDI = 16"
definition INT_GPIO :: nat where "INT_GPIO = 17"
definition INT_DMA_DMTE0 :: nat where "INT_DMA_DMTE0 = 18"
definition INT_DMA_DMAE :: nat where "INT_DMA_DMAE = 22"
definition INT_TMU_TUNI0 :: nat where "INT_TMU_TUNI0 = 23"
definition INT_TMU_TUNI1 :: nat where "INT_TMU_TUNI1 = 24"
definition INT_TMU_TUNI2 :: nat where "INT_TMU_TUNI2 = 25"
definition INT_TMU_TICPI2 :: nat where "INT_TMU_TICPI2 = 26"
definition INT_RTC_ATI :: nat where "INT_RTC_ATI = 27"
definition INT_RTC_CUI :: nat where "INT_RTC_CUI = 29"
definition INT_SCI_ERI :: nat where "INT_SCI_ERI = 30"
definition INT_SCI_TEI :: nat where "INT_SCI_TEI = 33"
definition INT_SCIF_ERI :: nat where "INT_SCIF_ERI = 34"
definition INT_SCIF_TXI :: nat where "INT_SCIF_TXI = 37"
definition INT_WDT_ITI :: nat where "INT_WDT_ITI = 38"
definition INT_REF_RCMI :: nat where "INT_REF_RCMI = 39"
definition INT_REF_ROVI :: nat where "INT_REF_ROVI = 40"

named_theorems int_nums \<open>the numbers of the interrupt sources\<close>
lemmas [int_nums] = INT_NUM_SOURCES_def INT_IRQ9_def INT_IRQ11_def INT_IRQ13_def INT_NMI_def
  INT_HUDI_def INT_GPIO_def INT_DMA_DMTE0_def INT_DMA_DMAE_def INT_TMU_TUNI0_def INT_TMU_TUNI1_def
  INT_TMU_TUNI2_def INT_TMU_TICPI2_def INT_RTC_ATI_def INT_RTC_CUI_def INT_SCI_ERI_def
  INT_SCI_TEI_def INT_SCIF_ERI_def INT_SCIF_TXI_def INT_WDT_ITI_def INT_REF_RCMI_def INT_REF_ROVI_def

record intc_state = eventq_state +
  num_pending :: nat
  pending :: "nat \<Rightarrow> nat"
  priority :: "nat \<Rightarrow> nat"
  mmio_INTC :: mem

definition intc_codes :: "u32 list" where
  "intc_codes =
    [0x200, 0x220, 0x240, 0x260, 0x280, 0x2A0, 0x2C0, 0x2E0, 0x300, 0x320, 0x340, 0x360,
     0x380, 0x3A0, 0x3C0, 0x1C0, 0x600, 0x620, 0x640, 0x660, 0x680, 0x6A0, 0x6C0, 0x400,
     0x420, 0x440, 0x460, 0x480, 0x4A0, 0x4C0, 0x4E0, 0x500, 0x520, 0x540, 0x700, 0x720,
     0x740, 0x760, 0x560, 0x580, 0x5A0]"

definition INTCODE :: "nat \<Rightarrow> u32" where
  "INTCODE which = intc_codes ! which"

definition intc_default_priority :: "nat \<Rightarrow> nat" where
  "intc_default_priority i = (if i < 15 then 15 - i else if i = 15 then 16 else 0)"

section \<open>Operations\<close>

text \<open>Assigning one priority to the sources from \<open>a\<close> to \<open>b\<close>.\<close>

definition set_priority :: "nat \<Rightarrow> nat \<Rightarrow> u32 \<Rightarrow> ('a) intc_state_scheme \<Rightarrow> ('a) intc_state_scheme" where
  "set_priority a b v s = s\<lparr>priority := (\<lambda>i. if a \<le> i \<and> i \<le> b then unat v else priority s i)\<rparr>"

definition ICR :: u32 where "ICR = 0x000"
definition IPRA :: u32 where "IPRA = 0x004"
definition IPRB :: u32 where "IPRB = 0x008"
definition IPRC :: u32 where "IPRC = 0x00C"

definition mmio_region_INTC_write :: "u32 \<Rightarrow> u32 \<Rightarrow> ('a) intc_state_scheme \<Rightarrow> ('a) intc_state_scheme" where
  "mmio_region_INTC_write reg0 val s =
    (let reg = reg0 AND 0xFFF;
         s1 =
           (if reg = IPRA then
              set_priority INT_RTC_ATI INT_RTC_CUI (val AND 0x000F)
              (set_priority INT_TMU_TUNI2 INT_TMU_TICPI2 (drop_bit 4 val AND 0x000F)
              (set_priority INT_TMU_TUNI1 INT_TMU_TUNI1 (drop_bit 8 val AND 0x000F)
              (set_priority INT_TMU_TUNI0 INT_TMU_TUNI0 (drop_bit 12 val AND 0x000F) s)))
            else if reg = IPRB then
              set_priority INT_SCI_ERI INT_SCI_TEI (drop_bit 4 val AND 0x000F)
              (set_priority INT_REF_RCMI INT_REF_ROVI (drop_bit 8 val AND 0x000F)
              (set_priority INT_WDT_ITI INT_WDT_ITI (drop_bit 12 val AND 0x000F) s))
            else if reg = IPRC then
              set_priority INT_HUDI INT_HUDI (val AND 0x000F)
              (set_priority INT_SCIF_ERI INT_SCIF_TXI (drop_bit 4 val AND 0x000F)
              (set_priority INT_DMA_DMTE0 INT_DMA_DMAE (drop_bit 8 val AND 0x000F)
              (set_priority INT_GPIO INT_GPIO (drop_bit 12 val AND 0x000F) s)))
            else s)
     in s1\<lparr>mmio_INTC := st32 (mmio_INTC s1) reg val\<rparr>)"

definition mmio_region_INTC_read :: "u32 \<Rightarrow> ('a) intc_state_scheme \<Rightarrow> u32" where
  "mmio_region_INTC_read reg s = ld32 (mmio_INTC s) (reg AND 0xFFF)"

definition INTC_reset :: "('a) intc_state_scheme \<Rightarrow> ('a) intc_state_scheme" where
  "INTC_reset s =
    (let s1 = s\<lparr>num_pending := 0,
           priority := (\<lambda>i. if i < INT_NUM_SOURCES then intc_default_priority i else priority s i)\<rparr>;
         s2 = sh4_set_event_pending (event_get_next_time s1) s1
     in s2\<lparr>sh4_event_types := sh4_event_types s2 AND NOT PENDING_IRQ\<rparr>)"

text \<open>The saved state is the struct as it lies in memory.\<close>

definition INTC_save_state :: "('a) intc_state_scheme \<Rightarrow> u32 list" where
  "INTC_save_state s = of_nat (num_pending s) # map (of_nat \<circ> pending s) [0..<INT_NUM_SOURCES]
     @ map (of_nat \<circ> priority s) [0..<INT_NUM_SOURCES]"

text \<open>\<open>None\<close> is the error return for a file that is too short.\<close>

definition INTC_load_state :: "u32 list \<Rightarrow> ('a) intc_state_scheme \<Rightarrow> ('a) intc_state_scheme option" where
  "INTC_load_state ws s =
    (if length ws < 2 * INT_NUM_SOURCES + 1 then None
     else Some (s\<lparr>num_pending := unat (ws ! 0),
       pending := (\<lambda>i. if i < INT_NUM_SOURCES then unat (ws ! (1 + i)) else pending s i),
       priority := (\<lambda>i. if i < INT_NUM_SOURCES then unat (ws ! (1 + INT_NUM_SOURCES + i))
                       else priority s i)\<rparr>))"

text \<open>The condition under which \<open>intc_raise_interrupt\<close> stops in front of an entry.\<close>

definition beats :: "('a) intc_state_scheme \<Rightarrow> nat \<Rightarrow> nat \<Rightarrow> bool" where
  "beats s a which \<longleftrightarrow> priority s which < priority s a \<or>
     priority s a = priority s which \<and> a < which"

text \<open>The search for the insertion point; \<open>None\<close> is the early return.\<close>

function raise_pos :: "nat \<Rightarrow> nat \<Rightarrow> ('a) intc_state_scheme \<Rightarrow> nat option" where
  "raise_pos which i s =
    (if i < num_pending s then
       if pending s i = which then None
       else if beats s (pending s i) which then Some i
       else raise_pos which (i + 1) s
     else Some i)"
  by pat_completeness auto
termination by (relation "measure (\<lambda>(w, i, s). num_pending s - i)") auto

declare raise_pos.simps [simp del]

text \<open>The two loops that move the tail of the array.\<close>

fun shift_up :: "nat \<Rightarrow> nat \<Rightarrow> (nat \<Rightarrow> nat) \<Rightarrow> nat \<Rightarrow> nat" where
  "shift_up i 0 p = p"
| "shift_up i (Suc j) p = (if i < Suc j then shift_up i j (p(Suc j := p j)) else p)"

function shift_down :: "nat \<Rightarrow> nat \<Rightarrow> (nat \<Rightarrow> nat) \<Rightarrow> nat \<Rightarrow> nat" where
  "shift_down i n p = (if i < n - 1 then shift_down (i + 1) n (p(i := p (i + 1))) else p)"
  by pat_completeness auto
termination by (relation "measure (\<lambda>(i, n, p). n - i)") auto

declare shift_down.simps [simp del]

definition intc_raise_interrupt :: "nat \<Rightarrow> ('a) intc_state_scheme \<Rightarrow> ('a) intc_state_scheme" where
  "intc_raise_interrupt which s =
    (let pri = priority s which
     in if pri = 0 then s
        else (case raise_pos which 0 s of
          None \<Rightarrow> s
        | Some i \<Rightarrow>
            (let s1 = s\<lparr>pending := (shift_up i (num_pending s) (pending s))(i := which)\<rparr>;
                 s2 = (if i = num_pending s1 \<and> sh4_sr s1 AND SR_BL = 0 \<and> unat (SH4_INTMASK s1) < pri
                       then (let s' = sh4_set_event_pending 0 s1
                             in s'\<lparr>sh4_event_types := sh4_event_types s' OR PENDING_IRQ\<rparr>)
                       else s1)
             in s2\<lparr>num_pending := num_pending s2 + 1\<rparr>)))"

definition intc_mask_changed :: "('a) intc_state_scheme \<Rightarrow> ('a) intc_state_scheme" where
  "intc_mask_changed s =
    (if 0 < num_pending s \<and> sh4_sr s AND SR_BL = 0 \<and>
        unat (SH4_INTMASK s) < priority s (pending s (num_pending s - 1))
     then (let s' = sh4_set_event_pending 0 s
           in s'\<lparr>sh4_event_types := sh4_event_types s' OR PENDING_IRQ\<rparr>)
     else (let s' = sh4_set_event_pending (event_get_next_time s) s
           in s'\<lparr>sh4_event_types := sh4_event_types s' AND NOT PENDING_IRQ\<rparr>))"

text \<open>The downward search of \<open>intc_clear_interrupt\<close>, from index \<open>k - 1\<close> to 0.\<close>

fun clear_pos :: "nat \<Rightarrow> nat \<Rightarrow> (nat \<Rightarrow> nat) \<Rightarrow> nat option" where
  "clear_pos which 0 p = None"
| "clear_pos which (Suc i) p = (if p i = which then Some i else clear_pos which i p)"

definition intc_clear_interrupt :: "nat \<Rightarrow> ('a) intc_state_scheme \<Rightarrow> ('a) intc_state_scheme" where
  "intc_clear_interrupt which s =
    (case clear_pos which (num_pending s) (pending s) of
       None \<Rightarrow> s
     | Some i \<Rightarrow> intc_mask_changed
         (s\<lparr>pending := shift_down i (num_pending s) (pending s), num_pending := num_pending s - 1\<rparr>))"

text \<open>\<open>None\<close> is the failed \<open>assert\<close>.\<close>

definition intc_accept_interrupt :: "('a) intc_state_scheme \<Rightarrow> u32 option" where
  "intc_accept_interrupt s =
    (if 0 < num_pending s then Some (INTCODE (pending s (num_pending s - 1))) else None)"

section \<open>The array as a strictly ordered sequence\<close>

lemma beats_irrefl [simp]: "\<not> beats s a a"
  by (simp add: beats_def)

lemma beats_trans: "beats s a b \<Longrightarrow> beats s b c \<Longrightarrow> beats s a c"
  by (auto simp: beats_def)

lemma beats_total: "a \<noteq> b \<Longrightarrow> \<not> beats s a b \<Longrightarrow> beats s b a"
  by (auto simp: beats_def)

definition pend_set :: "('a) intc_state_scheme \<Rightarrow> nat set" where
  "pend_set s = pending s ` {..<num_pending s}"

definition irq_wanted :: "('a) intc_state_scheme \<Rightarrow> bool" where
  "irq_wanted s \<longleftrightarrow> 0 < num_pending s \<and> sh4_sr s AND SR_BL = 0 \<and>
     unat (SH4_INTMASK s) < priority s (pending s (num_pending s - 1))"

text \<open>
  The two fields the translator polls: the IRQ bit says whether an interrupt can
  be accepted now, and it makes the event due at once.
\<close>

definition irq_ok :: "('a) intc_state_scheme \<Rightarrow> bool" where
  "irq_ok s \<longleftrightarrow> (sh4_event_types s AND PENDING_IRQ \<noteq> 0 \<longleftrightarrow> irq_wanted s) \<and>
     (irq_wanted s \<longrightarrow> sh4_event_pending s = 0)"

definition intc_ordered :: "('a) intc_state_scheme \<Rightarrow> bool" where
  "intc_ordered s \<longleftrightarrow> (\<forall>j k. j < k \<and> k < num_pending s \<longrightarrow> beats s (pending s k) (pending s j)) \<and>
     pend_set s \<subseteq> {..<INT_NUM_SOURCES}"

definition intc_inv :: "('a) intc_state_scheme \<Rightarrow> bool" where
  "intc_inv s \<longleftrightarrow> intc_ordered s \<and> irq_ok s \<and> pending_ok s"

lemma intc_ordered_inj: "intc_ordered s \<Longrightarrow> inj_on (pending s) {..<num_pending s}"
  unfolding intc_ordered_def inj_on_def by (metis beats_irrefl lessThan_iff nat_neq_iff)

lemma card_pend_set: "intc_ordered s \<Longrightarrow> card (pend_set s) = num_pending s"
  unfolding pend_set_def using intc_ordered_inj card_image by fastforce

lemma num_pending_bound: "intc_ordered s \<Longrightarrow> num_pending s \<le> INT_NUM_SOURCES"
  using card_mono [of "{..<INT_NUM_SOURCES}" "pend_set s"]
  by (auto simp: card_pend_set intc_ordered_def)

text \<open>A source that is not pending finds room in the array.\<close>

lemma room_for:
  assumes "intc_ordered s" "w < INT_NUM_SOURCES" "w \<notin> pend_set s"
  shows "num_pending s < INT_NUM_SOURCES"
proof -
  have "card (insert w (pend_set s)) \<le> card {..<INT_NUM_SOURCES}"
    using assms by (intro card_mono) (auto simp: intc_ordered_def)
  moreover have "finite (pend_set s)" by (simp add: pend_set_def)
  ultimately show ?thesis
    using assms by (simp add: card_pend_set)
qed

lemma shift_up_eq: "shift_up i j p = (\<lambda>k. if i < k \<and> k \<le> j then p (k - 1) else p k)"
proof (induction i j p rule: shift_up.induct)
  case (2 i j p)
  show ?case
  proof (cases "i < Suc j")
    case True
    with 2 show ?thesis by (auto simp: fun_eq_iff fun_upd_def)
  qed (auto simp: fun_eq_iff)
qed (auto simp: fun_eq_iff)

lemma shift_down_eq: "shift_down i n p = (\<lambda>k. if i \<le> k \<and> k < n - 1 then p (k + 1) else p k)"
proof (induction i n p rule: shift_down.induct)
  case (1 i n p)
  show ?case
  proof (cases "i < n - 1")
    case True
    then have "shift_down i n p = shift_down (i + 1) n (p(i := p (i + 1)))"
      by (subst shift_down.simps) simp
    also have "\<dots> = (\<lambda>k. if i + 1 \<le> k \<and> k < n - 1 then (p(i := p (i + 1))) (k + 1)
      else (p(i := p (i + 1))) k)"
      using 1 True by (simp add: fun_upd_def)
    finally show ?thesis using True by (auto simp: fun_eq_iff)
  next
    case False
    then show ?thesis by (subst shift_down.simps) (auto simp: fun_eq_iff)
  qed
qed

lemma clear_pos_None: "clear_pos w n p = None \<Longrightarrow> w \<notin> p ` {..<n}"
  by (induction n) (auto split: if_splits simp: lessThan_Suc)

lemma clear_pos_Some: "clear_pos w n p = Some i \<Longrightarrow> i < n \<and> p i = w"
  by (induction n) (auto split: if_splits)

lemma raise_pos_None: "raise_pos w i s = None \<Longrightarrow> w \<in> pend_set s"
proof (induction w i s rule: raise_pos.induct)
  case (1 w i s)
  then show ?case by (subst (asm) (2) raise_pos.simps) (auto simp: pend_set_def split: if_splits)
qed

lemma raise_pos_Some:
  "raise_pos w i s = Some k \<Longrightarrow> i \<le> num_pending s \<Longrightarrow> i \<le> k \<and> k \<le> num_pending s \<and>
    (\<forall>j. i \<le> j \<and> j < k \<longrightarrow> beats s w (pending s j)) \<and>
    (k < num_pending s \<longrightarrow> beats s (pending s k) w)"
proof (induction w i s rule: raise_pos.induct)
  case (1 w i s)
  show ?case
  proof (cases "i < num_pending s \<and> pending s i \<noteq> w \<and> \<not> beats s (pending s i) w")
    case True
    then have "raise_pos w (i + 1) s = Some k"
      using 1(2) by (subst (asm) raise_pos.simps) simp
    with 1(1) True have IH: "i + 1 \<le> k \<and> k \<le> num_pending s \<and>
      (\<forall>j. i + 1 \<le> j \<and> j < k \<longrightarrow> beats s w (pending s j)) \<and>
      (k < num_pending s \<longrightarrow> beats s (pending s k) w)" by simp
    moreover have "beats s w (pending s i)" using True beats_total by blast
    ultimately show ?thesis
      by (metis Suc_eq_plus1 Suc_leD Suc_leI le_neq_implies_less)
  next
    case False
    then show ?thesis
      using 1(2,3) by (subst (asm) raise_pos.simps) (auto split: if_splits)
  qed
qed

section \<open>Raising, clearing and accepting\<close>

lemma beats_cong: "priority s' = priority s \<Longrightarrow> beats s' = beats s"
  by (auto simp: beats_def fun_eq_iff)

lemma beats_sel [simp]:
  "beats (s\<lparr>num_pending := n\<rparr>) = beats s" "beats (s\<lparr>pending := p\<rparr>) = beats s"
  by (rule beats_cong, simp)+

lemma intc_orderedD:
  "intc_ordered s \<Longrightarrow> j < k \<Longrightarrow> k < num_pending s \<Longrightarrow> beats s (pending s k) (pending s j)"
  "intc_ordered s \<Longrightarrow> pend_set s \<subseteq> {..<INT_NUM_SOURCES}"
  by (simp_all add: intc_ordered_def)

lemma pend_setE: "v \<in> pend_set s \<Longrightarrow> (\<And>j. j < num_pending s \<Longrightarrow> v = pending s j \<Longrightarrow> P) \<Longrightarrow> P"
  by (auto simp: pend_set_def)

lemma insert_at_ordered:
  assumes "\<And>j k. j < k \<Longrightarrow> k < n \<Longrightarrow> R (p k) (p j)" "i \<le> n"
    "\<And>j. j < i \<Longrightarrow> R w (p j)" "\<And>j. i \<le> j \<Longrightarrow> j < n \<Longrightarrow> R (p j) w" "j < k" "k < Suc n"
  shows "R (((shift_up i n p)(i := w)) k) (((shift_up i n p)(i := w)) j)"
proof (cases "k = i")
  case True
  with assms show ?thesis by (simp add: shift_up_eq)
next
  case k: False
  have shk: "(((shift_up i n p)(i := w)) k) = (if i < k then p (k - 1) else p k)"
    using k assms(6) by (simp add: shift_up_eq)
  show ?thesis
  proof (cases "j = i")
    case True
    then show ?thesis using shk k assms(4) [of "k - 1"] assms(5,6) by auto
  next
    case False
    then have "(((shift_up i n p)(i := w)) j) = (if i < j then p (j - 1) else p j)"
      using assms(5,6) by (simp add: shift_up_eq)
    moreover have "R (if i < k then p (k - 1) else p k) (if i < j then p (j - 1) else p j)"
      using assms(1) [of "j - 1" "k - 1"] assms(1) [of j "k - 1"] assms(1) [of j k] assms(5,6) k False
        assms(2) by auto
    ultimately show ?thesis using shk by simp
  qed
qed

lemma insert_at_set:
  assumes "i \<le> n"
  shows "((shift_up i n p)(i := w)) ` {..<Suc n} = insert w (p ` {..<n})"
proof
  show "((shift_up i n p)(i := w)) ` {..<Suc n} \<subseteq> insert w (p ` {..<n})"
    using assms by (auto simp: shift_up_eq image_iff intro: less_Suc_eq_le [THEN iffD1])
      (metis Suc_diff_1 Suc_less_SucD gr_implies_not0 lessThan_iff not_gr_zero, metis lessThan_iff less_antisym)?
  show "insert w (p ` {..<n}) \<subseteq> ((shift_up i n p)(i := w)) ` {..<Suc n}"
  proof
    fix x assume "x \<in> insert w (p ` {..<n})"
    then consider "x = w" | j where "j < n" "x = p j" by auto
    then show "x \<in> ((shift_up i n p)(i := w)) ` {..<Suc n}"
    proof cases
      case 1
      then show ?thesis using assms by (intro image_eqI [of _ _ i]) auto
    next
      case (2 j)
      then show ?thesis
      proof (cases "j < i")
        case True
        then show ?thesis using 2 by (intro image_eqI [of _ _ j]) (auto simp: shift_up_eq)
      next
        case False
        then show ?thesis using 2 by (intro image_eqI [of _ _ "Suc j"]) (auto simp: shift_up_eq)
      qed
    qed
  qed
qed


lemma intc_sel [simp]:
  "event_head (s\<lparr>num_pending := n\<rparr>) = event_head s" "event_head (s\<lparr>pending := p\<rparr>) = event_head s"
  "event_get_next_time (s\<lparr>num_pending := n\<rparr>) = event_get_next_time s"
  "event_get_next_time (s\<lparr>pending := p\<rparr>) = event_get_next_time s"
  "event_get_next_time (sh4_set_event_pending c s) = event_get_next_time s"
  "SH4_INTMASK (s\<lparr>num_pending := n\<rparr>) = SH4_INTMASK s" "SH4_INTMASK (s\<lparr>pending := p\<rparr>) = SH4_INTMASK s"
  "SH4_INTMASK (s\<lparr>sh4_event_types := v\<rparr>) = SH4_INTMASK s"
  "SH4_INTMASK (sh4_set_event_pending c s) = SH4_INTMASK s"
  by (simp_all add: event_get_next_time_def SH4_INTMASK_def sh4_set_event_pending_def split: option.split)

lemma next_time_types [simp]:
  "event_get_next_time (s\<lparr>sh4_event_types := v\<rparr>) = event_get_next_time s"
  by (simp add: event_get_next_time_def split: option.split)

lemma pending_ok_intc [simp]:
  "pending_ok (s\<lparr>num_pending := n\<rparr>) = pending_ok s" "pending_ok (s\<lparr>pending := p\<rparr>) = pending_ok s"
  by (simp_all add: pending_ok_def)

text \<open>The three parts of the invariant depend on few fields.\<close>

lemma irq_wanted_mask [simp]:
  "irq_wanted (sh4_set_event_pending c s) = irq_wanted s"
  "irq_wanted (s\<lparr>sh4_event_types := v\<rparr>) = irq_wanted s"
  by (simp_all add: irq_wanted_def SH4_INTMASK_def sh4_set_event_pending_def)

lemma intc_mask_changed_ok: "irq_ok (intc_mask_changed s)"
  by (auto simp: intc_mask_changed_def Let_def irq_ok_def) (auto simp: irq_wanted_def sh4_set_event_pending_def)

lemma intc_mask_changed_pending: "pending_ok s \<Longrightarrow> pending_ok (intc_mask_changed s)"
  by (simp add: intc_mask_changed_def Let_def pending_ok_def) (simp add: sh4_set_event_pending_def)

lemma intc_mask_changed_sel [simp]:
  "num_pending (intc_mask_changed s) = num_pending s" "pending (intc_mask_changed s) = pending s"
  "priority (intc_mask_changed s) = priority s" "pend_set (intc_mask_changed s) = pend_set s"
  "sh4_sr (intc_mask_changed s) = sh4_sr s" "eq_events (intc_mask_changed s) = eq_events s"
  "event_head (intc_mask_changed s) = event_head s" "long_event_head (intc_mask_changed s) = long_event_head s"
  "long_scan_time_remaining (intc_mask_changed s) = long_scan_time_remaining s"
  "sh4_slice_cycle (intc_mask_changed s) = sh4_slice_cycle s"
  by (simp_all add: intc_mask_changed_def Let_def sh4_set_event_pending_def pend_set_def)

lemma intc_raise_sel:
  assumes "raise_pos w 0 s = Some i" "priority s w \<noteq> 0"
  shows "pending (intc_raise_interrupt w s) = (shift_up i (num_pending s) (pending s))(i := w)"
    "num_pending (intc_raise_interrupt w s) = Suc (num_pending s)"
    "priority (intc_raise_interrupt w s) = priority s" "sh4_sr (intc_raise_interrupt w s) = sh4_sr s"
    "event_head (intc_raise_interrupt w s) = event_head s"
    "eq_events (intc_raise_interrupt w s) = eq_events s"
  using assms by (simp_all add: intc_raise_interrupt_def Let_def sh4_set_event_pending_def)

lemma intc_ordered_cong:
  "num_pending s' = num_pending s \<Longrightarrow> pending s' = pending s \<Longrightarrow> priority s' = priority s \<Longrightarrow>
   intc_ordered s' = intc_ordered s"
  by (simp add: intc_ordered_def pend_set_def beats_def)

lemma intc_mask_changed_ordered: "intc_ordered (intc_mask_changed s) = intc_ordered s"
  by (rule intc_ordered_cong) simp_all

lemma intc_mask_changed_inv: "intc_ordered s \<Longrightarrow> pending_ok s \<Longrightarrow> intc_inv (intc_mask_changed s)"
  by (simp add: intc_inv_def intc_mask_changed_ok intc_mask_changed_pending intc_mask_changed_ordered)

lemma intc_raise_set:
  assumes "intc_ordered s"
  shows "pend_set (intc_raise_interrupt w s) = (if priority s w = 0 then pend_set s else insert w (pend_set s))"
proof (cases "priority s w = 0 \<or> raise_pos w 0 s = None")
  case True
  then show ?thesis
    using raise_pos_None [of w 0 s] by (auto simp: intc_raise_interrupt_def Let_def)
next
  case False
  then obtain i where i: "raise_pos w 0 s = Some i" "priority s w \<noteq> 0" by auto
  then have "i \<le> num_pending s" using raise_pos_Some by blast
  from insert_at_set [OF this, of "pending s" w] i show ?thesis
    unfolding pend_set_def intc_raise_sel [OF i] by simp
qed

lemma intc_raise_inv:
  assumes inv: "intc_inv s" and w: "w < INT_NUM_SOURCES"
  shows "intc_inv (intc_raise_interrupt w s)"
proof (cases "priority s w = 0 \<or> raise_pos w 0 s = None")
  case True
  then show ?thesis using inv by (auto simp: intc_raise_interrupt_def Let_def)
next
  case False
  then obtain i where i: "raise_pos w 0 s = Some i" "priority s w \<noteq> 0" by auto
  note pos = raise_pos_Some [OF i(1) le0]
  have ord: "\<And>j k. j < k \<Longrightarrow> k < num_pending s \<Longrightarrow> beats s (pending s k) (pending s j)"
    using inv by (simp add: intc_inv_def intc_orderedD)
  have above: "beats s (pending s j) w" if "i \<le> j" "j < num_pending s" for j
  proof (cases "i = j")
    case False
    with that have "beats s (pending s j) (pending s i)" "beats s (pending s i) w"
      using ord [of i j] pos by auto
    then show ?thesis by (rule beats_trans)
  qed (use pos that in auto)
  let ?s = "intc_raise_interrupt w s"
  let ?p = "(shift_up i (num_pending s) (pending s))(i := w)"
  note sel = intc_raise_sel [OF i]
  have "intc_ordered ?s"
    unfolding intc_ordered_def
  proof (intro conjI allI impI)
    fix j k assume "j < k \<and> k < num_pending ?s"
    then show "beats ?s (pending ?s k) (pending ?s j)"
      using insert_at_ordered [of "num_pending s" "beats s" "pending s" i w j k] ord above pos
      unfolding sel by (simp add: beats_cong [OF sel(3)])
  next
    show "pend_set ?s \<subseteq> {..<INT_NUM_SOURCES}"
      using inv w intc_orderedD(2) [of s] by (simp add: intc_raise_set intc_inv_def)
  qed
  moreover have mask: "SH4_INTMASK ?s = SH4_INTMASK s" by (simp add: SH4_INTMASK_def sel)
  have top: "?p (num_pending s) = (if i = num_pending s then w else pending s (num_pending s - 1))"
    using pos by (simp add: shift_up_eq)
  have "irq_ok ?s"
  proof (cases "i = num_pending s")
    case True
    have low: "priority s (pending s (num_pending s - 1)) \<le> priority s w" if "0 < num_pending s"
      using pos that True by (auto simp: beats_def dest!: spec [of _ "num_pending s - 1"])
    have "irq_wanted s \<longrightarrow> sh4_sr s AND SR_BL = 0 \<and> unat (SH4_INTMASK s) < priority s w"
      using low by (auto simp: irq_wanted_def)
    moreover have "irq_wanted ?s \<longleftrightarrow> sh4_sr s AND SR_BL = 0 \<and> unat (SH4_INTMASK s) < priority s w"
      using True by (simp add: irq_wanted_def sel mask top)
    moreover have "sh4_event_types ?s = (if sh4_sr s AND SR_BL = 0 \<and> unat (SH4_INTMASK s) < priority s w
        then sh4_event_types s OR PENDING_IRQ else sh4_event_types s)"
      "sh4_event_pending ?s = (if sh4_sr s AND SR_BL = 0 \<and> unat (SH4_INTMASK s) < priority s w
        then 0 else sh4_event_pending s)"
      using i True by (simp_all add: intc_raise_interrupt_def Let_def sh4_set_event_pending_def)
    ultimately show ?thesis using inv by (auto simp: irq_ok_def intc_inv_def)
  next
    case False
    then have "0 < num_pending s" using pos by linarith
    moreover have "shift_up i (num_pending s) (pending s) (num_pending s) = pending s (num_pending s - 1)"
      using pos False by (simp add: shift_up_eq)
    ultimately have "irq_wanted ?s = irq_wanted s"
      using False by (simp add: irq_wanted_def sel mask top)
    moreover have "sh4_event_types ?s = sh4_event_types s" "sh4_event_pending ?s = sh4_event_pending s"
      using i False by (simp_all add: intc_raise_interrupt_def Let_def)
    ultimately show ?thesis using inv by (simp add: irq_ok_def intc_inv_def)
  qed
  moreover have "pending_ok ?s"
    using inv i by (simp add: intc_inv_def pending_ok_def intc_raise_interrupt_def Let_def)
      (simp add: sh4_set_event_pending_def)
  ultimately show ?thesis by (simp add: intc_inv_def)
qed

lemma remove_at_set:
  assumes "inj_on p {..<n}" "i < n" "p i = w"
  shows "shift_down i n p ` {..<n - 1} = p ` {..<n} - {w}"
proof
  show "shift_down i n p ` {..<n - 1} \<subseteq> p ` {..<n} - {w}"
  proof
    fix x assume "x \<in> shift_down i n p ` {..<n - 1}"
    then obtain k where k: "k < n - 1" "x = (if i \<le> k then p (k + 1) else p k)"
      by (auto simp: shift_down_eq)
    define j where "j = (if i \<le> k then k + 1 else k)"
    have "x = p j" "j < n" "j \<noteq> i" using k by (auto simp: j_def)
    then show "x \<in> p ` {..<n} - {w}" using assms by (auto simp: inj_on_def)
  qed
  show "p ` {..<n} - {w} \<subseteq> shift_down i n p ` {..<n - 1}"
  proof
    fix x assume "x \<in> p ` {..<n} - {w}"
    then obtain j where j: "j < n" "x = p j" "j \<noteq> i" using assms(3) by auto
    then show "x \<in> shift_down i n p ` {..<n - 1}"
      using assms(2) by (intro image_eqI [of _ _ "if i < j then j - 1 else j"])
        (auto simp: shift_down_eq)
  qed
qed

lemma intc_clear_set:
  assumes "intc_ordered s"
  shows "pend_set (intc_clear_interrupt w s) = pend_set s - {w}"
proof (cases "clear_pos w (num_pending s) (pending s)")
  case None
  then show ?thesis
    using clear_pos_None [OF None] by (simp add: intc_clear_interrupt_def pend_set_def)
next
  case (Some i)
  then show ?thesis
    using remove_at_set [OF intc_ordered_inj [OF assms]] clear_pos_Some [OF Some]
    by (simp add: intc_clear_interrupt_def) (simp add: pend_set_def)
qed

lemma intc_clear_inv:
  assumes inv: "intc_inv s"
  shows "intc_inv (intc_clear_interrupt w s)"
proof (cases "clear_pos w (num_pending s) (pending s)")
  case None
  then show ?thesis using inv by (simp add: intc_clear_interrupt_def)
next
  case (Some i)
  let ?s = "s\<lparr>pending := shift_down i (num_pending s) (pending s), num_pending := num_pending s - 1\<rparr>"
  have ord: "\<And>j k. j < k \<Longrightarrow> k < num_pending s \<Longrightarrow> beats s (pending s k) (pending s j)"
    and o: "intc_ordered s" using inv by (simp_all add: intc_inv_def intc_orderedD)
  have "pend_set ?s = pend_set s - {w}"
    using remove_at_set [OF intc_ordered_inj [OF o]] clear_pos_Some [OF Some]
    by (simp add: pend_set_def)
  then have "pend_set ?s \<subseteq> {..<INT_NUM_SOURCES}"
    using intc_orderedD(2) [OF o] by blast
  moreover have "beats ?s (pending ?s k) (pending ?s j)" if "j < k" "k < num_pending ?s" for j k
  proof -
    have "beats s (if i \<le> k then pending s (k + 1) else pending s k)
      (if i \<le> j then pending s (j + 1) else pending s j)"
      using that ord [of j k] ord [of "j + 1" "k + 1"] ord [of j "k + 1"] by auto
    then show ?thesis using that by (auto simp: shift_down_eq split: if_splits)
  qed
  ultimately have "intc_ordered ?s" unfolding intc_ordered_def by blast
  moreover have "pending_ok ?s" using inv by (simp add: intc_inv_def)
  ultimately show ?thesis
    using Some by (simp add: intc_clear_interrupt_def intc_mask_changed_inv)
qed

text \<open>The source that is accepted: pending, and beaten by no other pending source.\<close>

lemma intc_accept_best:
  assumes "intc_ordered s" "pend_set s \<noteq> {}"
  shows "\<exists>w \<in> pend_set s. intc_accept_interrupt s = Some (INTCODE w) \<and>
    (\<forall>v \<in> pend_set s. v \<noteq> w \<longrightarrow> beats s w v)"
proof -
  have n: "0 < num_pending s" using assms(2) by (cases "num_pending s") (auto simp: pend_set_def)
  let ?w = "pending s (num_pending s - 1)"
  have "beats s ?w v" if v: "v \<in> pend_set s" "v \<noteq> ?w" for v
  proof -
    obtain j where j: "j < num_pending s" "v = pending s j" using v(1) by (rule pend_setE)
    with v have "j \<noteq> num_pending s - 1" by auto
    with j show ?thesis using n intc_orderedD(1) [OF assms(1), of j "num_pending s - 1"] by simp
  qed
  then show ?thesis
    using n by (intro bexI [of _ ?w]) (auto simp: intc_accept_interrupt_def pend_set_def)
qed

section \<open>The interface that the devices use\<close>

locale interrupt_controller =
  fixes inv :: "'s \<Rightarrow> bool"
    and valid :: "nat \<Rightarrow> bool"
    and enabled :: "'s \<Rightarrow> nat \<Rightarrow> bool"
    and pend :: "'s \<Rightarrow> nat set"
    and raise_irq :: "nat \<Rightarrow> 's \<Rightarrow> 's"
    and clear_irq :: "nat \<Rightarrow> 's \<Rightarrow> 's"
  assumes raise_inv: "inv s \<Longrightarrow> valid w \<Longrightarrow> inv (raise_irq w s)"
    and raise_set: "inv s \<Longrightarrow> valid w \<Longrightarrow>
      pend (raise_irq w s) = (if enabled s w then insert w (pend s) else pend s)"
    and raise_enabled: "enabled (raise_irq w s) = enabled s"
    and clear_inv: "inv s \<Longrightarrow> valid w \<Longrightarrow> inv (clear_irq w s)"
    and clear_set: "inv s \<Longrightarrow> valid w \<Longrightarrow> pend (clear_irq w s) = pend s - {w}"
    and clear_enabled: "enabled (clear_irq w s) = enabled s"
begin

lemma raise_commute:
  "inv s \<Longrightarrow> valid v \<Longrightarrow> valid w \<Longrightarrow> pend (raise_irq v (raise_irq w s)) = pend (raise_irq w (raise_irq v s))"
  by (auto simp: raise_set raise_inv raise_enabled)

lemma raise_twice:
  "inv s \<Longrightarrow> valid w \<Longrightarrow> pend (raise_irq w (raise_irq w s)) = pend (raise_irq w s)"
  by (auto simp: raise_set raise_inv raise_enabled)

lemma clear_raise: "inv s \<Longrightarrow> valid w \<Longrightarrow> pend (clear_irq w (raise_irq w s)) = pend s - {w}"
  by (auto simp: raise_set raise_inv clear_set)

text \<open>A device that drives several lines: each line is raised or cleared in turn.\<close>

definition drive :: "nat \<Rightarrow> bool \<Rightarrow> 's \<Rightarrow> 's" where
  "drive w level s = (if level then raise_irq w s else clear_irq w s)"

lemma drive_inv: "inv s \<Longrightarrow> valid w \<Longrightarrow> inv (drive w level s)"
  by (simp add: drive_def raise_inv clear_inv)

lemma drive_mem:
  "inv s \<Longrightarrow> valid w \<Longrightarrow> v \<in> pend (drive w level s) \<longleftrightarrow>
     (if v = w then (level \<and> (enabled s w \<or> w \<in> pend s)) else v \<in> pend s)"
  by (auto simp: drive_def raise_set clear_set)

lemma drive_enabled: "enabled (drive w level s) = enabled s"
  by (simp add: drive_def raise_enabled clear_enabled)

text \<open>A device that only raises a line, or only clears it, under a condition.\<close>

lemma raise_if:
  assumes "inv s" "valid w" "enabled s w"
  shows "inv (if b then raise_irq w s else s)" "enabled (if b then raise_irq w s else s) = enabled s"
    "v \<in> pend (if b then raise_irq w s else s) \<longleftrightarrow> (v = w \<and> b) \<or> v \<in> pend s"
  using assms by (auto simp: raise_inv raise_set raise_enabled)

lemma clear_if:
  assumes "inv s" "valid w"
  shows "inv (if b then clear_irq w s else s)" "enabled (if b then clear_irq w s else s) = enabled s"
    "v \<in> pend (if b then clear_irq w s else s) \<longleftrightarrow> v \<in> pend s \<and> \<not> (v = w \<and> b)"
  using assms by (auto simp: clear_inv clear_set clear_enabled)

lemma drive_fold_inv:
  "inv s \<Longrightarrow> \<forall>(w, l) \<in> set ls. valid w \<Longrightarrow> inv (fold (\<lambda>(w, l). drive w l) ls s)"
  by (induction ls arbitrary: s) (auto simp: drive_inv)

lemma drive_fold_mem:
  assumes "inv s" "\<forall>(w, l) \<in> set ls. valid w \<and> enabled s w" "distinct (map fst ls)"
  shows "v \<in> pend (fold (\<lambda>(w, l). drive w l) ls s) \<longleftrightarrow>
    (case map_of ls v of Some l \<Rightarrow> l | None \<Rightarrow> v \<in> pend s)"
  using assms
proof (induction ls arbitrary: s)
  case (Cons x ls)
  obtain w l where x: "x = (w, l)" by (cases x)
  have "inv (drive w l s)" using Cons.prems x by (auto simp: drive_inv)
  moreover have "\<forall>(u, m) \<in> set ls. valid u \<and> enabled (drive w l s) u"
    using Cons.prems by (auto simp: drive_enabled)
  ultimately have "v \<in> pend (fold (\<lambda>(w, l). drive w l) ls (drive w l s)) \<longleftrightarrow>
    (case map_of ls v of Some l \<Rightarrow> l | None \<Rightarrow> v \<in> pend (drive w l s))"
    using Cons by auto
  moreover have "map_of ls w = None" using Cons.prems x by (auto simp: map_of_eq_None_iff)
  ultimately show ?case
    using Cons.prems x by (auto simp: drive_mem split: option.split)
qed simp

end

interpretation intc: interrupt_controller intc_inv "\<lambda>w. w < INT_NUM_SOURCES" "\<lambda>s w. priority s w \<noteq> 0"
  pend_set intc_raise_interrupt intc_clear_interrupt
proof
  fix s :: "'a intc_state_scheme" and w
  assume inv: "intc_inv s" and w: "w < INT_NUM_SOURCES"
  show "intc_inv (intc_raise_interrupt w s)" by (rule intc_raise_inv [OF inv w])
  show "pend_set (intc_raise_interrupt w s) =
    (if priority s w \<noteq> 0 then insert w (pend_set s) else pend_set s)"
    using inv by (simp add: intc_raise_set intc_inv_def)
  show "intc_inv (intc_clear_interrupt w s)" by (rule intc_clear_inv [OF inv])
  show "pend_set (intc_clear_interrupt w s) = pend_set s - {w}"
    using inv by (simp add: intc_clear_set intc_inv_def)
next
  fix s :: "'a intc_state_scheme" and w
  show "(\<lambda>v. priority (intc_raise_interrupt w s) v \<noteq> 0) = (\<lambda>v. priority s v \<noteq> 0)"
    by (simp add: intc_raise_interrupt_def Let_def sh4_set_event_pending_def split: option.split)
  show "(\<lambda>v. priority (intc_clear_interrupt w s) v \<noteq> 0) = (\<lambda>v. priority s v \<noteq> 0)"
    by (simp add: intc_clear_interrupt_def split: option.split)
qed

section \<open>Reset, saved state and priority registers\<close>

lemma INTC_reset_inv: "pending_ok s \<Longrightarrow> intc_inv (INTC_reset s)"
  by (simp add: INTC_reset_def Let_def intc_inv_def intc_ordered_def pend_set_def irq_ok_def
    irq_wanted_def pending_ok_def sh4_set_event_pending_def)
    (simp add: event_get_next_time_def split: option.split)

lemma nth_save:
  assumes "i < n"
  shows "(x # map f [0..<n] @ map g [0..<n]) ! (1 + i) = f i"
    "(x # map f [0..<n] @ map g [0..<n]) ! (1 + n + i) = g i"
  using assms by (simp_all add: nth_append)


section \<open>Properties\<close>

text \<open>A controller after reset, with all interrupts unmasked; \<open>x\<close> is the rest of the state.\<close>

definition blank_intc :: "'a \<Rightarrow> ('a) intc_state_scheme" where
  "blank_intc x = INTC_reset ((blank_eventq (intc_state_ext 0 (\<lambda>_. 0) (\<lambda>_. 0) (\<lambda>_. 0) x))\<lparr>sh4_sr := 0x60000000\<rparr>)"

lemma blank_intc_inv: "intc_inv (blank_intc x)" "eq_view (blank_intc x) [] []"
proof -
  show "intc_inv (blank_intc x)"
    unfolding blank_intc_def
    by (rule INTC_reset_inv) (simp add: pending_ok_def event_get_next_time_def blank_eventq_def event_init_def
      blank_sh4_def)
  show "eq_view (blank_intc x) [] []"
    using blank_eventq_view(1) by (simp add: blank_intc_def INTC_reset_def Let_def sh4_set_event_pending_def eq_view_def)
qed

lemma blank_intc_sel [simp]:
  "num_pending (blank_intc x) = 0" "priority (blank_intc x) = (\<lambda>i. if i < INT_NUM_SOURCES then intc_default_priority i else 0)"
  "sh4_sr (blank_intc x) = 0x60000000" "intc_state.more (blank_intc x) = x" "pend_set (blank_intc x) = {}"
  "sh4_slice_cycle (blank_intc x) = 0" "long_scan_time_remaining (blank_intc x) = LONG_SCAN_PERIOD"
  "sh4_event_types (blank_intc x) = 0"
  by (simp_all add: blank_intc_def INTC_reset_def Let_def sh4_set_event_pending_def blank_eventq_def
    event_init_def blank_sh4_def pend_set_def fun_eq_iff)

text \<open>
  C7: Raising an interrupt adds exactly that source to the pending set, unless it is masked
  by priority zero; the array stays strictly ordered, so that no source is queued twice and
  the array never overflows, and the IRQ bit of the CPU stays exact.
\<close>

theorem intc_raise_correct:
  assumes "intc_inv s" "w < INT_NUM_SOURCES"
  shows "intc_inv (intc_raise_interrupt w s) \<and>
    pend_set (intc_raise_interrupt w s) = (if priority s w \<noteq> 0 then insert w (pend_set s) else pend_set s) \<and>
    num_pending (intc_raise_interrupt w s) \<le> INT_NUM_SOURCES"
  using intc.raise_inv [OF assms] intc.raise_set [OF assms] num_pending_bound
  by (auto simp: intc_inv_def)

theorem intc_raise_correct_witness:
  "pend_set (intc_raise_interrupt INT_IRQ13 (blank_intc ())) = {INT_IRQ13}"
  using intc_raise_correct [OF blank_intc_inv(1) [of "()"], of INT_IRQ13]
  by (simp add: int_nums intc_default_priority_def)

text \<open>
  Lines driven by a device: after each of the listed sources has been raised or cleared,
  a source is pending exactly when its line was raised, and every other source is as before.
\<close>

theorem intc_lines_correct:
  assumes "intc_inv s" "\<forall>(w, l) \<in> set ls. w < INT_NUM_SOURCES \<and> priority s w \<noteq> 0" "distinct (map fst ls)"
  defines "s' \<equiv> fold (\<lambda>(w, l) s. if l then intc_raise_interrupt w s else intc_clear_interrupt w s) ls s"
  shows "intc_inv s' \<and> (\<forall>v. v \<in> pend_set s' \<longleftrightarrow> (case map_of ls v of Some l \<Rightarrow> l | None \<Rightarrow> v \<in> pend_set s))"
proof -
  have eq: "(\<lambda>(w, l). intc.drive w l) = (\<lambda>(w, l) s. if l then intc_raise_interrupt w s else intc_clear_interrupt w s)"
    by (auto simp: intc.drive_def fun_eq_iff)
  have "\<forall>(w, l) \<in> set ls. w < INT_NUM_SOURCES" using assms(2) by auto
  from intc.drive_fold_inv [OF assms(1) this] intc.drive_fold_mem [OF assms(1,2,3)]
  show ?thesis unfolding eq s'_def by blast
qed

theorem intc_lines_correct_witness:
  "INT_IRQ9 \<in> pend_set (fold (\<lambda>(w, l) s. if l then intc_raise_interrupt w s else intc_clear_interrupt w s)
     [(INT_IRQ9, True), (INT_IRQ11, False)] (blank_intc ()))"
  using intc_lines_correct [OF blank_intc_inv(1) [of "()"], of "[(INT_IRQ9, True), (INT_IRQ11, False)]"]
  by (simp add: int_nums intc_default_priority_def)

text \<open>
  C8: The interrupt that is accepted is the best of the pending ones: no other pending
  source has a higher priority, nor the same priority and a lower number; and clearing it
  leaves exactly the others pending.
\<close>

theorem intc_accept_correct:
  assumes "intc_inv s" "pend_set s \<noteq> {}"
  shows "\<exists>w \<in> pend_set s. intc_accept_interrupt s = Some (INTCODE w) \<and>
    (\<forall>v \<in> pend_set s. v \<noteq> w \<longrightarrow> beats s w v) \<and>
    intc_inv (intc_clear_interrupt w s) \<and> pend_set (intc_clear_interrupt w s) = pend_set s - {w}"
proof -
  have o: "intc_ordered s" using assms(1) by (simp add: intc_inv_def)
  from intc_accept_best [OF o assms(2)] obtain w where w: "w \<in> pend_set s"
    "intc_accept_interrupt s = Some (INTCODE w)" "\<forall>v \<in> pend_set s. v \<noteq> w \<longrightarrow> beats s w v" by blast
  moreover have "w < INT_NUM_SOURCES" using w(1) intc_orderedD(2) [OF o] by blast
  ultimately show ?thesis
    using intc.clear_inv [OF assms(1)] intc.clear_set [OF assms(1)] by blast
qed

theorem intc_accept_correct_witness:
  "intc_accept_interrupt (intc_raise_interrupt INT_IRQ13 (blank_intc ())) = Some 0x3A0"
proof -
  let ?s = "intc_raise_interrupt INT_IRQ13 (blank_intc ())"
  have p: "priority (blank_intc ()) INT_IRQ13 \<noteq> 0" "INT_IRQ13 < INT_NUM_SOURCES"
    by (simp_all add: int_nums intc_default_priority_def)
  have "intc_inv ?s" "pend_set ?s = {INT_IRQ13}"
    using intc.raise_inv [OF blank_intc_inv(1) p(2)] intc.raise_set [OF blank_intc_inv(1) [of "()"] p(2)] p(1)
    by simp_all
  with intc_accept_correct [of ?s] show ?thesis by (simp add: INTCODE_def intc_codes_def int_nums)
qed

definition after_ipra_write :: "unit intc_state_scheme" where
  "after_ipra_write = mmio_region_INTC_write IPRA 0x1300
     (intc_raise_interrupt INT_TMU_TUNI0 (intc_raise_interrupt INT_TMU_TUNI1
       (mmio_region_INTC_write IPRA 0x5300 (blank_intc ()))))"

text \<open>
  Writing a priority register does not reorder the pending array. Here TUNI0 is lowered
  below TUNI1 while both are pending: TUNI0 is still the one accepted although TUNI1 beats
  it, and raising TUNI0 once more queues it a second time.
\<close>

theorem intc_priority_write_stale_order:
  "beats after_ipra_write INT_TMU_TUNI1 INT_TMU_TUNI0 \<and> pend_set after_ipra_write = {INT_TMU_TUNI0, INT_TMU_TUNI1} \<and>
   intc_accept_interrupt after_ipra_write = Some (INTCODE INT_TMU_TUNI0) \<and>
   map (pending (intc_raise_interrupt INT_TMU_TUNI0 after_ipra_write)) [0..<3] =
     [INT_TMU_TUNI0, INT_TMU_TUNI1, INT_TMU_TUNI0]"
proof -
  define s0 where "s0 = mmio_region_INTC_write IPRA 0x5300 (blank_intc ())"
  have s0: "num_pending s0 = 0" "priority s0 23 = 5" "priority s0 24 = 3"
    by (simp_all add: s0_def mmio_region_INTC_write_def Let_def IPRA_def set_priority_def int_nums)
  define s1 where "s1 = intc_raise_interrupt INT_TMU_TUNI1 s0"
  have r1: "raise_pos 24 0 s0 = Some 0" by (subst raise_pos.simps) (simp add: s0)
  have s1: "num_pending s1 = 1" "pending s1 0 = 24" "priority s1 = priority s0"
    using intc_raise_sel [OF r1] by (simp_all add: s1_def s0 int_nums)
  define s2 where "s2 = intc_raise_interrupt INT_TMU_TUNI0 s1"
  have "raise_pos 23 0 s1 = raise_pos 23 1 s1"
    by (subst raise_pos.simps) (simp add: s1 s0 beats_def)
  also have "\<dots> = Some 1" by (subst raise_pos.simps) (simp add: s1)
  finally have r2: "raise_pos 23 0 s1 = Some 1" .
  have s2: "num_pending s2 = 2" "pending s2 0 = 24" "pending s2 1 = 23"
    using intc_raise_sel [OF r2] by (simp_all add: s2_def s1 s0 int_nums shift_up_eq)
  have a: "after_ipra_write = mmio_region_INTC_write IPRA 0x1300 s2"
    by (simp add: after_ipra_write_def s2_def s1_def s0_def)
  have s3: "num_pending after_ipra_write = 2" "pending after_ipra_write = pending s2"
    "priority after_ipra_write 23 = 1" "priority after_ipra_write 24 = 3"
    by (simp_all add: a s2 mmio_region_INTC_write_def Let_def IPRA_def set_priority_def int_nums)
  have r3: "raise_pos 23 0 after_ipra_write = Some 0"
    by (subst raise_pos.simps) (simp add: s3 s2 beats_def)
  have "{..<2} = {0, 1 :: nat}" by auto
  then show ?thesis
    using intc_raise_sel [OF r3] s2
    by (auto simp: beats_def s3 int_nums pend_set_def intc_accept_interrupt_def shift_up_eq upt_rec)
qed

end
