(* ===== verification/Timer.thy ===== *)
theory Timer
  imports IntC
begin

unbundle bit_operations_syntax

text \<open>
  \<open>sh4/timer.c\<close>: the clock pulse generator, the real-time clock registers and the three
  timers of the TMU. A running timer is not stepped; its counter is brought up to
  date when it is read, and its underflow is an event of the queue. A division by
  zero (\<open>None\<close>) ends the emulator.
\<close>

section \<open>State\<close>

record TMU_timer =
  timer_period :: u32
  timer_remainder :: u32
  timer_run :: u32

record tmu_state = intc_state +
  mmio_CPG :: mem
  mmio_RTC :: mem
  mmio_TMU :: mem
  TMU_timers :: "nat \<Rightarrow> TMU_timer"
  rtc_output_period :: u32
  sh4_cpu_freq :: u32
  sh4_bus_freq :: u32
  sh4_peripheral_freq :: u32
  sh4_cpu_period :: u32
  sh4_bus_period :: u32
  sh4_peripheral_period :: u32

definition sh4_input_freq :: u32 where "sh4_input_freq = 200"
definition sh4_cpu_multiplier :: u32 where "sh4_cpu_multiplier = 2000"

section \<open>Clock pulse generator and real-time clock\<close>

definition FRQCR :: u32 where "FRQCR = 0x000"
definition STBCR :: u32 where "STBCR = 0x004"
definition STBCR2 :: u32 where "STBCR2 = 0x010"
definition FRQCR_PLL1EN :: u32 where "FRQCR_PLL1EN = 0x0400"

definition ifc_divider :: "u32 \<Rightarrow> u32" where
  "ifc_divider i = [1, 2, 3, 4, 5, 8, 8, 8] ! unat i"

definition pfc_divider :: "u32 \<Rightarrow> u32" where
  "pfc_divider i = [2, 3, 4, 6, 8, 8, 8, 8] ! unat i"

definition mmio_region_CPG_read :: "u32 \<Rightarrow> ('a) tmu_state_scheme \<Rightarrow> u32" where
  "mmio_region_CPG_read reg s = ld32 (mmio_CPG s) (reg AND 0xFFF)"

text \<open>\<open>scif\<close> is the effect of \<open>SCIF_update_line_speed\<close>.\<close>

definition mmio_region_CPG_write ::
  "(('a) tmu_state_scheme \<Rightarrow> ('a) tmu_state_scheme) \<Rightarrow> u32 \<Rightarrow> u32 \<Rightarrow> ('a) tmu_state_scheme \<Rightarrow> ('a) tmu_state_scheme" where
  "mmio_region_CPG_write scif reg0 val s =
    (let reg = reg0 AND 0xFFF;
         s1 = (if reg = FRQCR then
             let primary_clock = (if val AND FRQCR_PLL1EN = 0 then sh4_input_freq div 6 else sh4_input_freq);
                 idiv = ifc_divider (drop_bit 6 val AND 7);
                 bdiv = ifc_divider (drop_bit 3 val AND 7);
                 pdiv = pfc_divider (val AND 7)
             in scif (s\<lparr>sh4_cpu_freq := primary_clock div idiv,
                  sh4_cpu_period := sh4_cpu_multiplier * idiv div sh4_input_freq,
                  sh4_bus_freq := primary_clock div bdiv,
                  sh4_bus_period := 1000 * bdiv div sh4_input_freq,
                  sh4_peripheral_freq := primary_clock div pdiv,
                  sh4_peripheral_period := 1000 * pdiv div sh4_input_freq\<rparr>)
           else s)
     in s1\<lparr>mmio_CPG := st32 (mmio_CPG s1) reg val\<rparr>)"

definition CPG_reset ::
  "(('a) tmu_state_scheme \<Rightarrow> ('a) tmu_state_scheme) \<Rightarrow> ('a) tmu_state_scheme \<Rightarrow> ('a) tmu_state_scheme" where
  "CPG_reset scif = mmio_region_CPG_write scif FRQCR 0x0E0A"

definition mmio_region_RTC_read :: "u32 \<Rightarrow> ('a) tmu_state_scheme \<Rightarrow> u32" where
  "mmio_region_RTC_read reg s = ld32 (mmio_RTC s) (reg AND 0xFFF)"

definition mmio_region_RTC_write :: "u32 \<Rightarrow> u32 \<Rightarrow> ('a) tmu_state_scheme \<Rightarrow> ('a) tmu_state_scheme" where
  "mmio_region_RTC_write reg val s = s\<lparr>mmio_RTC := st32 (mmio_RTC s) (reg AND 0xFFF) val\<rparr>"

section \<open>Timers\<close>

definition EVENT_TMU0 :: nat where "EVENT_TMU0 = 97"

definition TSTR :: u32 where "TSTR = 0x004"
definition TCOR :: "nat \<Rightarrow> u32" where "TCOR timer = 0x008 + 12 * of_nat timer"
definition TCNT :: "nat \<Rightarrow> u32" where "TCNT timer = 0x00C + 12 * of_nat timer"
definition TCR :: "nat \<Rightarrow> u32" where "TCR timer = 0x010 + 12 * of_nat timer"

definition TCR_UNF :: u32 where "TCR_UNF = 0x0100"
definition TCR_UNIE :: u32 where "TCR_UNIE = 0x0020"
definition TCR_IRQ_ACTIVE :: u32 where "TCR_IRQ_ACTIVE = TCR_UNF OR TCR_UNIE"

abbreviation TMU_reg :: "u32 \<Rightarrow> ('a) tmu_state_scheme \<Rightarrow> u32" where
  "TMU_reg r s \<equiv> ld32 (mmio_TMU s) r"

definition TMU_write :: "u32 \<Rightarrow> u32 \<Rightarrow> ('a) tmu_state_scheme \<Rightarrow> ('a) tmu_state_scheme" where
  "TMU_write r v s = s\<lparr>mmio_TMU := st32 (mmio_TMU s) r v\<rparr>"

definition upd_timer :: "nat \<Rightarrow> (TMU_timer \<Rightarrow> TMU_timer) \<Rightarrow> ('a) tmu_state_scheme \<Rightarrow> ('a) tmu_state_scheme" where
  "upd_timer timer f s = s\<lparr>TMU_timers := (TMU_timers s)(timer := f (TMU_timers s timer))\<rparr>"

definition TMU_IS_RUNNING :: "nat \<Rightarrow> ('a) tmu_state_scheme \<Rightarrow> bool" where
  "TMU_IS_RUNNING timer s \<longleftrightarrow> TMU_reg TSTR s AND push_bit timer 1 \<noteq> 0"

definition TMU_duration :: "nat \<Rightarrow> ('a) tmu_state_scheme \<Rightarrow> u64" where
  "TMU_duration timer s = (ucast (TMU_reg (TCNT timer) s) + 1) * ucast (timer_period (TMU_timers s timer))
     - ucast (timer_remainder (TMU_timers s timer))"

definition TMU_schedule_timer :: "nat \<Rightarrow> ('a) tmu_state_scheme \<Rightarrow> ('a) tmu_state_scheme option" where
  "TMU_schedule_timer timer s =
    (let duration = TMU_duration timer s
     in event_schedule_long (EVENT_TMU0 + timer) (ucast (duration div 1000000000))
          (ucast (duration mod 1000000000)) s)"

definition TMU_count :: "nat \<Rightarrow> u32 \<Rightarrow> ('a) tmu_state_scheme \<Rightarrow> (u32 \<times> ('a) tmu_state_scheme) option" where
  "TMU_count timer nanosecs s =
    (let tm = TMU_timers s timer;
         run_ns = nanosecs + timer_remainder tm - timer_run tm
     in if timer_period tm = 0 then None
        else
          let s1 = upd_timer timer (\<lambda>t. t\<lparr>timer_remainder := run_ns mod timer_period tm,
                     timer_run := nanosecs\<rparr>) s;
              count = run_ns div timer_period tm;
              value = TMU_reg (TCNT timer) s1;
              reset = TMU_reg (TCOR timer) s1
          in if value < count then
               if reset = 0 then None
               else
                 let tcr = TMU_reg (TCR timer) s1 OR TCR_UNF;
                     value' = reset - (count - value) mod reset + 1;
                     s2 = TMU_write (TCR timer) tcr s1;
                     s3 = (if tcr AND TCR_UNIE \<noteq> 0
                           then intc_raise_interrupt (INT_TMU_TUNI0 + timer) s2 else s2);
                     s4 = TMU_write (TCNT timer) value' s3
                 in map_option (\<lambda>s5. (value', s5)) (TMU_schedule_timer timer s4)
             else Some (value - count, TMU_write (TCNT timer) (value - count) s1))"

definition TMU_event_callback :: "u32 \<Rightarrow> ('a) tmu_state_scheme \<Rightarrow> ('a) tmu_state_scheme option" where
  "TMU_event_callback eventid s =
    (let timer = unat (eventid - of_nat EVENT_TMU0)
     in do {
       (v, s1) \<leftarrow> TMU_count timer (sh4_slice_cycle s) s;
       if TMU_reg (TCR timer) s1 AND 0x100 \<noteq> 0 then Some s1 else None })"

definition TMU_init :: "('a) tmu_state_scheme \<Rightarrow> ('a) tmu_state_scheme" where
  "TMU_init s = register_event_callback (EVENT_TMU0 + 2) FN_TMU_event_callback
     (register_event_callback (EVENT_TMU0 + 1) FN_TMU_event_callback
     (register_event_callback EVENT_TMU0 FN_TMU_event_callback s))"

definition TMU_period :: "u32 \<Rightarrow> ('a) tmu_state_scheme \<Rightarrow> u32" where
  "TMU_period tcr s =
    (let sel = tcr AND 7; p = sh4_peripheral_period s
     in if sel = 0 then push_bit 2 p
        else if sel = 1 then push_bit 4 p
        else if sel = 2 then push_bit 6 p
        else if sel = 3 then push_bit 8 p
        else if sel = 4 then push_bit 10 p
        else if sel = 5 then push_bit 12 p
        else if sel = 6 then rtc_output_period s
        else p)"

definition TMU_set_timer_control :: "nat \<Rightarrow> u32 \<Rightarrow> ('a) tmu_state_scheme \<Rightarrow> ('a) tmu_state_scheme option" where
  "TMU_set_timer_control timer tcr0 s =
    (let oldtcr = TMU_reg (TCR timer) s;
         tcr = (if oldtcr AND TCR_UNF = 0 then tcr0 AND NOT TCR_UNF else tcr0);
         s1 = (if oldtcr AND TCR_UNF = 0 then s
               else if oldtcr AND TCR_UNIE = 0 \<and> tcr AND TCR_IRQ_ACTIVE = TCR_IRQ_ACTIVE
               then intc_raise_interrupt (INT_TMU_TUNI0 + timer) s
               else if oldtcr AND TCR_UNIE \<noteq> 0 \<and> tcr AND TCR_IRQ_ACTIVE \<noteq> TCR_IRQ_ACTIVE
               then intc_clear_interrupt (INT_TMU_TUNI0 + timer) s
               else s);
         period = TMU_period tcr s1
     in do {
       s3 \<leftarrow> (if period \<noteq> timer_period (TMU_timers s1 timer) then
               if TMU_IS_RUNNING timer s1 then do {
                 (v, s2) \<leftarrow> TMU_count timer (sh4_slice_cycle s1) s1;
                 TMU_schedule_timer timer (upd_timer timer (timer_period_update (\<lambda>_. period)) s2) }
               else Some (upd_timer timer (timer_period_update (\<lambda>_. period)) s1)
             else Some s1);
       Some (TMU_write (TCR timer) tcr s3) })"

definition TMU_start :: "nat \<Rightarrow> ('a) tmu_state_scheme \<Rightarrow> ('a) tmu_state_scheme option" where
  "TMU_start timer s = TMU_schedule_timer timer (upd_timer timer
     (\<lambda>t. t\<lparr>timer_run := sh4_slice_cycle s, timer_remainder := 0\<rparr>) s)"

definition TMU_stop :: "nat \<Rightarrow> ('a) tmu_state_scheme \<Rightarrow> ('a) tmu_state_scheme option" where
  "TMU_stop timer s = do {
     (v, s1) \<leftarrow> TMU_count timer (sh4_slice_cycle s) s;
     event_cancel (EVENT_TMU0 + timer) s1 }"

definition TMU_sync :: "nat \<Rightarrow> ('a) tmu_state_scheme \<Rightarrow> ('a) tmu_state_scheme option" where
  "TMU_sync timer s = (if TMU_IS_RUNNING timer s
     then map_option snd (TMU_count timer (sh4_slice_cycle s) s) else Some s)"

definition mmio_region_TMU_read :: "u32 \<Rightarrow> ('a) tmu_state_scheme \<Rightarrow> (u32 \<times> ('a) tmu_state_scheme) option" where
  "mmio_region_TMU_read reg0 s =
    (let reg = reg0 AND 0xFFF
     in do {
       s1 \<leftarrow> (if reg = TCNT 0 then TMU_sync 0 s
             else if reg = TCNT 1 then TMU_sync 1 s
             else if reg = TCNT 2 then TMU_sync 2 s
             else Some s);
       Some (TMU_reg reg s1, s1) })"

definition TMU_write_TCNT :: "nat \<Rightarrow> u32 \<Rightarrow> ('a) tmu_state_scheme \<Rightarrow> ('a) tmu_state_scheme option" where
  "TMU_write_TCNT timer val s =
    (let s1 = TMU_write (TCNT timer) val s
     in if TMU_IS_RUNNING timer s1
        then TMU_schedule_timer timer
          (upd_timer timer (timer_run_update (\<lambda>_. sh4_slice_cycle s1)) s1)
        else Some s1)"

definition TMU_startstop :: "u32 \<Rightarrow> u32 \<Rightarrow> nat \<Rightarrow> ('a) tmu_state_scheme \<Rightarrow> ('a) tmu_state_scheme option" where
  "TMU_startstop oldval val i s =
    (let tmp = push_bit i 1
     in if oldval AND tmp \<noteq> 0 \<and> val AND tmp = 0 then TMU_stop i s
        else if oldval AND tmp = 0 \<and> val AND tmp \<noteq> 0 then TMU_start i s
        else Some s)"

definition mmio_region_TMU_write :: "u32 \<Rightarrow> u32 \<Rightarrow> ('a) tmu_state_scheme \<Rightarrow> ('a) tmu_state_scheme option" where
  "mmio_region_TMU_write reg0 val s =
    (let reg = reg0 AND 0xFFF
     in if reg = TSTR then map_option (TMU_write reg val)
          (for_each [0, 1, 2] (TMU_startstop (TMU_reg TSTR s) val) s)
        else if reg = TCR 0 then TMU_set_timer_control 0 val s
        else if reg = TCR 1 then TMU_set_timer_control 1 val s
        else if reg = TCR 2 then TMU_set_timer_control 2 val s
        else if reg = TCNT 0 then TMU_write_TCNT 0 val s
        else if reg = TCNT 1 then TMU_write_TCNT 1 val s
        else if reg = TCNT 2 then TMU_write_TCNT 2 val s
        else Some (TMU_write reg val s))"

definition TMU_count_all :: "u32 \<Rightarrow> ('a) tmu_state_scheme \<Rightarrow> ('a) tmu_state_scheme option" where
  "TMU_count_all nanosecs s =
    (let tcr = TMU_reg TSTR s
     in for_each [0, 1, 2] (\<lambda>i s. if tcr AND push_bit i 1 \<noteq> 0
          then map_option snd (TMU_count i nanosecs s) else Some s) s)"

definition TMU_run_slice :: "u32 \<Rightarrow> ('a) tmu_state_scheme \<Rightarrow> ('a) tmu_state_scheme option" where
  "TMU_run_slice nanosecs s = map_option
     (\<lambda>s1. fold (\<lambda>i. upd_timer i (timer_run_update (\<lambda>_. 0))) [0, 1, 2] s1)
     (TMU_count_all nanosecs s)"

definition TMU_update_clocks :: "('a) tmu_state_scheme \<Rightarrow> ('a) tmu_state_scheme option" where
  "TMU_update_clocks = for_each [0, 1, 2] (\<lambda>i s. TMU_set_timer_control i (TMU_reg (TCR i) s) s)"

definition TMU_reset :: "('a) tmu_state_scheme \<Rightarrow> ('a) tmu_state_scheme option" where
  "TMU_reset s = TMU_update_clocks (fold (\<lambda>i. upd_timer i
     (\<lambda>t. t\<lparr>timer_remainder := 0, timer_run := 0\<rparr>)) [0, 1, 2] s)"

definition TMU_save_state :: "('a) tmu_state_scheme \<Rightarrow> u32 list" where
  "TMU_save_state s = concat (map (\<lambda>i. [timer_period (TMU_timers s i),
     timer_remainder (TMU_timers s i), timer_run (TMU_timers s i)]) [0..<3])"

definition TMU_load_state :: "u32 list \<Rightarrow> ('a) tmu_state_scheme \<Rightarrow> ('a) tmu_state_scheme" where
  "TMU_load_state ws s = s\<lparr>TMU_timers := (\<lambda>i. if i < 3 \<and> 3 * i + 2 < length ws
     then \<lparr>timer_period = ws ! (3 * i), timer_remainder = ws ! (3 * i + 1), timer_run = ws ! (3 * i + 2)\<rparr>
     else TMU_timers s i)\<rparr>"


section \<open>The invariant of the event queue and the interrupt controller together\<close>

definition sys_inv :: "('a) intc_state_scheme \<Rightarrow> bool" where
  "sys_inv s \<longleftrightarrow> eventq_inv s \<and> intc_inv s"

lemma queue_fields_intc:
  fixes s s' :: "('a) intc_state_scheme"
  assumes "eq_only s s'"
  shows "num_pending s' = num_pending s" "pending s' = pending s" "priority s' = priority s"
    "sh4_sr s' = sh4_sr s" "sh4_slice_cycle s' = sh4_slice_cycle s" "mmio_INTC s' = mmio_INTC s"
    "intc_state.more s' = intc_state.more s"
proof -
  from assms have "queue_fields s s'" by (simp add: eq_only_def)
  then obtain a b c d e f where s': "s' = s\<lparr>sh4_event_pending := a, sh4_event_types := b, eq_events := c,
     long_scan_time_remaining := d, event_head := e, long_event_head := f\<rparr>"
    unfolding queue_fields_def by blast
  show "num_pending s' = num_pending s" "pending s' = pending s" "priority s' = priority s"
    "sh4_sr s' = sh4_sr s" "sh4_slice_cycle s' = sh4_slice_cycle s" "mmio_INTC s' = mmio_INTC s"
    "intc_state.more s' = intc_state.more s"
    unfolding s' by simp_all
qed

lemma eq_only_intc_inv:
  assumes "eq_only s s'" "pending_ok s'" "intc_inv s"
  shows "intc_inv s'"
proof -
  note Q = queue_fields_intc [OF assms(1)]
  have "intc_ordered s' = intc_ordered s"
    by (rule intc_ordered_cong) (simp_all add: Q)
  moreover have "irq_wanted s' = irq_wanted s"
    by (simp add: irq_wanted_def SH4_INTMASK_def Q)
  moreover have "irq_kept s s'" using assms(1) by (simp add: eq_only_def)
  ultimately show ?thesis
    using assms by (auto simp: intc_inv_def irq_ok_def irq_kept_def)
qed

lemma intc_raise_eq_view [simp]: "eq_view (intc_raise_interrupt w s) xs ys = eq_view s xs ys"
  by (simp add: intc_raise_interrupt_def Let_def eq_view_def sh4_set_event_pending_def split: option.split)

lemma intc_clear_eq_view [simp]: "eq_view (intc_clear_interrupt w s) xs ys = eq_view s xs ys"
  by (simp add: intc_clear_interrupt_def eq_view_def split: option.split)

lemma intc_sys_inv:
  "sys_inv s \<Longrightarrow> w < INT_NUM_SOURCES \<Longrightarrow> sys_inv (intc_raise_interrupt w s)"
  "sys_inv s \<Longrightarrow> w < INT_NUM_SOURCES \<Longrightarrow> sys_inv (intc_clear_interrupt w s)"
  using intc.raise_inv [of s w] intc.clear_inv [of s w] by (auto simp: sys_inv_def eventq_inv_def intc_inv_def)

section \<open>What the timer operations leave alone\<close>

lemma queue_fields_tmu:
  fixes s s' :: "('a) tmu_state_scheme"
  assumes "eq_only s s'"
  shows "mmio_TMU s' = mmio_TMU s" "TMU_timers s' = TMU_timers s"
    "sh4_peripheral_period s' = sh4_peripheral_period s" "rtc_output_period s' = rtc_output_period s"
proof -
  from assms have "queue_fields s s'" by (simp add: eq_only_def)
  then obtain a b c d e f where s': "s' = s\<lparr>sh4_event_pending := a, sh4_event_types := b, eq_events := c,
     long_scan_time_remaining := d, event_head := e, long_event_head := f\<rparr>"
    unfolding queue_fields_def by blast
  show "mmio_TMU s' = mmio_TMU s" "TMU_timers s' = TMU_timers s"
    "sh4_peripheral_period s' = sh4_peripheral_period s" "rtc_output_period s' = rtc_output_period s"
    unfolding s' by simp_all
qed

lemma sys_inv_tmu [simp]:
  "sys_inv (TMU_write r v s) = sys_inv s" "sys_inv (upd_timer t f s) = sys_inv s"
  by (simp_all add: TMU_write_def upd_timer_def sys_inv_def eventq_inv_def eq_view_def intc_inv_def
    intc_ordered_def pend_set_def irq_ok_def irq_wanted_def SH4_INTMASK_def pending_ok_def
    event_get_next_time_def beats_def cong: option.case_cong)

lemma tmu_sel [simp]:
  "mmio_TMU (TMU_write r v s) = st32 (mmio_TMU s) r v" "TMU_timers (TMU_write r v s) = TMU_timers s"
  "sh4_slice_cycle (TMU_write r v s) = sh4_slice_cycle s"
  "long_scan_time_remaining (TMU_write r v s) = long_scan_time_remaining s"
  "deadline (TMU_write r v s) = deadline s"
  "mmio_TMU (upd_timer t f s) = mmio_TMU s"
  "TMU_timers (upd_timer t f s) = (TMU_timers s)(t := f (TMU_timers s t))"
  "sh4_slice_cycle (upd_timer t f s) = sh4_slice_cycle s"
  "long_scan_time_remaining (upd_timer t f s) = long_scan_time_remaining s"
  "deadline (upd_timer t f s) = deadline s"
  by (simp_all add: TMU_write_def upd_timer_def deadline_def fun_eq_iff)

lemma raise_tmu_sel [simp]:
  "mmio_TMU (intc_raise_interrupt w s) = mmio_TMU s" "TMU_timers (intc_raise_interrupt w s) = TMU_timers s"
  "sh4_slice_cycle (intc_raise_interrupt w s) = sh4_slice_cycle s"
  "long_scan_time_remaining (intc_raise_interrupt w s) = long_scan_time_remaining s"
  "deadline (intc_raise_interrupt w s) = deadline s"
  by (simp_all add: intc_raise_interrupt_def Let_def sh4_set_event_pending_def deadline_def fun_eq_iff
    split: option.split)

lemma tmu_apart:
  assumes "t < 3"
  shows "apart (TCR t) (TCNT t)" "apart (TCNT t) (TCR t)" "apart (TCR t) (TCOR t)" "apart (TCNT t) (TCOR t)"
    "apart (TCR t) TSTR" "apart (TCNT t) TSTR"
  using assms by (auto simp: apart_def TCR_def TCNT_def TCOR_def TSTR_def less_Suc_eq numeral_3_eq_3)

lemma tmu_apart_other:
  assumes "t < 3" "u < 3" "t \<noteq> u"
  shows "apart (TCR t) (TCNT u)" "apart (TCR t) (TCR u)" "apart (TCNT t) (TCNT u)" "apart (TCNT t) (TCR u)"
    "apart (TCR t) (TCOR u)" "apart (TCNT t) (TCOR u)"
  using assms by (auto simp: apart_def TCR_def TCNT_def TCOR_def less_Suc_eq numeral_3_eq_3)

section \<open>Scheduling the underflow\<close>

text \<open>The position in the slice is below two seconds, and the long list is scanned every second.\<close>

definition clock_ok :: "('a) eventq_state_scheme \<Rightarrow> bool" where
  "clock_ok s \<longleftrightarrow> unat (sh4_slice_cycle s) \<le> 2000000000 \<and> unat (long_scan_time_remaining s) \<le> 1000000000"

lemma target_nat:
  assumes "clock_ok s" "unat ns < 1000000000"
  shows "unat (snd (eq_target sec ns s)) = unat ns + unat (sh4_slice_cycle s)
    + (if sec = 0 then 0 else unat (LONG_SCAN_PERIOD - long_scan_time_remaining s))"
    "unat (LONG_SCAN_PERIOD - long_scan_time_remaining s) \<le> 1000000000"
proof -
  have a: "unat (ns + sh4_slice_cycle s) = unat ns + unat (sh4_slice_cycle s)"
    using assms by (intro unat_add_lem [THEN iffD1]) (simp add: clock_ok_def)
  have "long_scan_time_remaining s \<le> LONG_SCAN_PERIOD"
    using assms by (simp add: clock_ok_def word_le_nat_alt LONG_SCAN_PERIOD_def)
  then show b: "unat (LONG_SCAN_PERIOD - long_scan_time_remaining s) \<le> 1000000000"
    by (simp add: unat_sub LONG_SCAN_PERIOD_def)
  then have "unat (ns + sh4_slice_cycle s + (LONG_SCAN_PERIOD - long_scan_time_remaining s))
    = unat ns + unat (sh4_slice_cycle s) + unat (LONG_SCAN_PERIOD - long_scan_time_remaining s)"
    using assms a by (subst unat_add_lem [THEN iffD1]) (simp_all add: clock_ok_def)
  with a show "unat (snd (eq_target sec ns s)) = unat ns + unat (sh4_slice_cycle s)
    + (if sec = 0 then 0 else unat (LONG_SCAN_PERIOD - long_scan_time_remaining s))"
    by (simp add: eq_target_def)
qed

lemma fits_of_clock:
  assumes "clock_ok s" "unat ns < 1000000000"
  shows "eq_fits sec ns s"
proof -
  have "unat (snd (eq_target sec ns s)) < 4294967295"
    using target_nat(1) [OF assms, of sec] target_nat(2) [OF assms] assms by (simp add: clock_ok_def)
  then have "snd (eq_target sec ns s) \<noteq> NOT_SCHEDULED"
    by (auto simp: NOT_SCHEDULED_def)
  then show ?thesis by (auto simp: eq_fits_def eq_target_def split: if_splits)
qed

definition due_ns :: "nat \<Rightarrow> ('a) tmu_state_scheme \<Rightarrow> nat" where
  "due_ns t s = (unat (TMU_reg (TCNT t) s) + 1) * unat (timer_period (TMU_timers s t))
     - unat (timer_remainder (TMU_timers s t))"

definition tmu_ok :: "nat \<Rightarrow> ('a) tmu_state_scheme \<Rightarrow> bool" where
  "tmu_ok t s \<longleftrightarrow> timer_period (TMU_timers s t) \<noteq> 0 \<and> TMU_reg (TCOR t) s \<noteq> 0 \<and>
     timer_remainder (TMU_timers s t) < timer_period (TMU_timers s t)"

lemma TMU_duration_nat:
  assumes "timer_remainder (TMU_timers s t) < timer_period (TMU_timers s t)"
  shows "unat (TMU_duration t s) = due_ns t s"
proof -
  let ?c = "TMU_reg (TCNT t) s" and ?p = "timer_period (TMU_timers s t)"
    and ?r = "timer_remainder (TMU_timers s t)"
  have c: "unat (ucast ?c + 1 :: u64) = unat ?c + 1"
  proof -
    have "unat (ucast ?c :: u64) + unat (1 :: u64) < 2 ^ LENGTH(64)"
      using unat_less_exp [of ?c] by simp
    then show ?thesis by (subst unat_add_lem [THEN iffD1]) (simp_all)
  qed
  have "(unat ?c + 1) * unat ?p < 2 ^ 64"
  proof -
    have "(unat ?c + 1) * unat ?p \<le> 2 ^ 32 * unat ?p"
      using unat_less_exp [of ?c] by (intro mult_right_mono) simp_all
    also have "\<dots> < 2 ^ 32 * 2 ^ 32"
      using unat_less_exp [of ?p] by simp
    finally show ?thesis by simp
  qed
  then have m: "unat ((ucast ?c + 1) * ucast ?p :: u64) = (unat ?c + 1) * unat ?p"
    by (subst unat_mult_lem [THEN iffD1]) (simp_all add: c)
  have "unat ?r \<le> (unat ?c + 1) * unat ?p"
    using assms by (simp add: word_less_nat_alt)
  then have "(ucast ?r :: u64) \<le> (ucast ?c + 1) * ucast ?p"
    unfolding word_le_nat_alt m by simp
  then show ?thesis
    by (simp add: TMU_duration_def due_ns_def unat_sub m)
qed

lemma unat_duration_ns: "unat (ucast ((d :: u64) mod 1000000000) :: u32) = unat d mod 1000000000"
  "unat (ucast ((d :: u64) mod 1000000000) :: u32) < 1000000000"
proof -
  have "unat (d mod 1000000000) = unat d mod 1000000000" by (simp add: unat_mod)
  moreover have "unat d mod 1000000000 < 2 ^ 32" by (rule less_trans [OF mod_less_divisor]) simp_all
  ultimately show "unat (ucast ((d :: u64) mod 1000000000) :: u32) = unat d mod 1000000000"
    by (simp add: unsigned_ucast_eq take_bit_nat_def)
  then show "unat (ucast ((d :: u64) mod 1000000000) :: u32) < 1000000000" by simp
qed

lemma TMU_schedule_timer_ok:
  assumes inv: "sys_inv s" and t: "t < 3" and ck: "clock_ok s"
  shows "\<exists>s'. TMU_schedule_timer t s = Some s' \<and> sys_inv s' \<and> eq_only s s' \<and> eq_clock s' = eq_clock s \<and>
    deadline s' = (deadline s)(EVENT_TMU0 + t \<mapsto> eq_target (ucast (TMU_duration t s div 1000000000))
      (ucast (TMU_duration t s mod 1000000000)) s)"
proof -
  have "EVENT_TMU0 + t < MAX_EVENT_ID" using t by (simp add: EVENT_TMU0_def MAX_EVENT_ID_def)
  from evq.sched_law [OF _ this fits_of_clock [OF ck unat_duration_ns(2)]] inv
  obtain s' where s': "TMU_schedule_timer t s = Some s'" "eventq_inv s'"
    "deadline s' = (deadline s)(EVENT_TMU0 + t \<mapsto> eq_target (ucast (TMU_duration t s div 1000000000))
      (ucast (TMU_duration t s mod 1000000000)) s)" "eq_clock s' = eq_clock s" "eq_only s s'"
    by (auto simp: TMU_schedule_timer_def Let_def sys_inv_def)
  moreover have "intc_inv s'"
    using s' inv by (auto simp: sys_inv_def eventq_inv_def intro: eq_only_intc_inv)
  ultimately show ?thesis by (auto simp: sys_inv_def)
qed


section \<open>Counting\<close>

text \<open>The number of nanoseconds a count adds: no wrap-around within a slice.\<close>

definition run_ok :: "nat \<Rightarrow> u32 \<Rightarrow> ('a) tmu_state_scheme \<Rightarrow> bool" where
  "run_ok t ns s \<longleftrightarrow> timer_run (TMU_timers s t) \<le> ns \<and>
     unat ns + unat (timer_remainder (TMU_timers s t)) < 2 ^ 32"

lemma run_ns_nat:
  assumes "run_ok t ns s"
  shows "unat (ns + timer_remainder (TMU_timers s t) - timer_run (TMU_timers s t)) =
    unat ns - unat (timer_run (TMU_timers s t)) + unat (timer_remainder (TMU_timers s t))"
proof -
  let ?r = "timer_remainder (TMU_timers s t)" and ?u = "timer_run (TMU_timers s t)"
  have a: "unat (ns + ?r) = unat ns + unat ?r"
    using assms by (subst unat_add_lem [THEN iffD1]) (simp_all add: run_ok_def)
  moreover have "?u \<le> ns + ?r"
    using assms a by (simp add: word_le_nat_alt run_ok_def)
  ultimately show ?thesis
    using assms by (simp add: unat_sub run_ok_def word_le_nat_alt)
qed

lemma ticks_reached:
  assumes "0 < p" "r < p"
  shows "v < (e + r) div p \<longleftrightarrow> (v + 1) * p - r \<le> (e :: nat)"
proof -
  have "v < (e + r) div p \<longleftrightarrow> v + 1 \<le> (e + r) div p" by auto
  also have "\<dots> \<longleftrightarrow> (v + 1) * p \<le> e + r" using assms by (simp add: less_eq_div_iff_mult_less_eq)
  also have "\<dots> \<longleftrightarrow> (v + 1) * p - r \<le> e" by linarith
  finally show ?thesis .
qed

lemma ticks_left:
  assumes "0 < p" "r < p" "(e + r) div p \<le> v"
  shows "(v - (e + r) div p + 1) * p - (e + r) mod p = (v + 1) * p - r - (e :: nat)"
proof -
  have "(v + 1) * p = (v - (e + r) div p + 1) * p + (e + r) div p * p"
    using assms(3) by (simp add: add_mult_distrib [symmetric])
  moreover have "e + r = (e + r) div p * p + (e + r) mod p" by simp
  moreover have "(e + r) mod p < p" using assms(1) by simp
  ultimately show ?thesis by linarith
qed

text \<open>The condition on which \<open>TMU_count\<close> underflows, in nanoseconds.\<close>

lemma count_reached:
  assumes "run_ok t ns s" "tmu_ok t s"
  shows "TMU_reg (TCNT t) s < (ns + timer_remainder (TMU_timers s t) - timer_run (TMU_timers s t))
      div timer_period (TMU_timers s t)
    \<longleftrightarrow> due_ns t s \<le> unat ns - unat (timer_run (TMU_timers s t))"
proof -
  have "0 < unat (timer_period (TMU_timers s t))"
    "unat (timer_remainder (TMU_timers s t)) < unat (timer_period (TMU_timers s t))"
    using assms(2) by (simp_all add: tmu_ok_def word_less_nat_alt unat_gt_0)
  from ticks_reached [OF this] show ?thesis
    by (simp add: word_less_nat_alt unat_div run_ns_nat [OF assms(1)] due_ns_def)
qed

lemma TMU_count_no_underflow:
  assumes "run_ok t ns s" "tmu_ok t s" "t < 3" "unat ns - unat (timer_run (TMU_timers s t)) < due_ns t s"
  shows "\<exists>v s'. TMU_count t ns s = Some (v, s') \<and> v = TMU_reg (TCNT t) s' \<and>
    due_ns t s' = due_ns t s - (unat ns - unat (timer_run (TMU_timers s t))) \<and>
    timer_run (TMU_timers s' t) = ns \<and> TMU_reg (TCR t) s' = TMU_reg (TCR t) s \<and>
    timer_remainder (TMU_timers s' t) < timer_period (TMU_timers s' t) \<and>
    timer_period (TMU_timers s' t) = timer_period (TMU_timers s t) \<and>
    TMU_reg (TCOR t) s' = TMU_reg (TCOR t) s \<and> deadline s' = deadline s \<and> (sys_inv s \<longrightarrow> sys_inv s') \<and>
    sh4_slice_cycle s' = sh4_slice_cycle s \<and> long_scan_time_remaining s' = long_scan_time_remaining s"
proof -
  let ?p = "timer_period (TMU_timers s t)" and ?r = "timer_remainder (TMU_timers s t)"
    and ?e = "ns + timer_remainder (TMU_timers s t) - timer_run (TMU_timers s t)"
    and ?v = "TMU_reg (TCNT t) s"
  define s' where "s' = TMU_write (TCNT t) (?v - ?e div ?p)
    (upd_timer t (\<lambda>tm. tm\<lparr>timer_remainder := ?e mod ?p, timer_run := ns\<rparr>) s)"
  have nr: "\<not> ?v < ?e div ?p" using count_reached [OF assms(1,2)] assms(4) by simp
  have p: "?p \<noteq> 0" "0 < unat ?p" "unat ?r < unat ?p"
    using assms(2) by (simp_all add: tmu_ok_def unat_gt_0 word_less_nat_alt)
  have "TMU_count t ns s = Some (?v - ?e div ?p, s')"
    using nr p by (simp add: TMU_count_def Let_def s'_def)
  moreover have "due_ns t s' = due_ns t s - (unat ns - unat (timer_run (TMU_timers s t)))"
  proof -
    have "unat (?v - ?e div ?p) = unat ?v - unat ?e div unat ?p"
      using nr by (simp add: unat_sub not_less unat_div)
    moreover have "unat ?e div unat ?p \<le> unat ?v"
      using nr by (simp add: not_less word_le_nat_alt unat_div)
    ultimately show ?thesis
      using ticks_left [OF p(2,3), of "unat ns - unat (timer_run (TMU_timers s t))" "unat ?v"]
      by (simp add: s'_def due_ns_def unat_mod run_ns_nat [OF assms(1)])
  qed
  moreover have "?e mod ?p < ?p" using p by (simp add: word_less_nat_alt unat_mod)
  ultimately show ?thesis
    using assms(3) by (simp add: s'_def tmu_apart)
qed

lemma TMU_count_underflow:
  assumes "run_ok t ns s" "tmu_ok t s" "t < 3" "due_ns t s \<le> unat ns - unat (timer_run (TMU_timers s t))"
    "sys_inv s" "clock_ok s"
  shows "\<exists>v s'. TMU_count t ns s = Some (v, s') \<and> v = TMU_reg (TCNT t) s' \<and>
    TMU_reg (TCR t) s' = TMU_reg (TCR t) s OR TCR_UNF \<and>
    timer_run (TMU_timers s' t) = ns \<and> timer_period (TMU_timers s' t) = timer_period (TMU_timers s t) \<and>
    timer_remainder (TMU_timers s' t) < timer_period (TMU_timers s' t) \<and>
    TMU_reg (TCOR t) s' = TMU_reg (TCOR t) s \<and> sys_inv s' \<and>
    sh4_slice_cycle s' = sh4_slice_cycle s \<and> long_scan_time_remaining s' = long_scan_time_remaining s \<and>
    deadline s' = (deadline s)(EVENT_TMU0 + t \<mapsto> eq_target (ucast (TMU_duration t s' div 1000000000))
      (ucast (TMU_duration t s' mod 1000000000)) s') \<and>
    pend_set s' = (if TMU_reg (TCR t) s AND TCR_UNIE \<noteq> 0 \<and> priority s (INT_TMU_TUNI0 + t) \<noteq> 0
      then insert (INT_TMU_TUNI0 + t) (pend_set s) else pend_set s)"
proof -
  let ?p = "timer_period (TMU_timers s t)" and ?r = "timer_remainder (TMU_timers s t)"
    and ?e = "ns + timer_remainder (TMU_timers s t) - timer_run (TMU_timers s t)"
    and ?v = "TMU_reg (TCNT t) s" and ?c = "TMU_reg (TCOR t) s"
  define s1 where "s1 = upd_timer t (\<lambda>tm. tm\<lparr>timer_remainder := ?e mod ?p, timer_run := ns\<rparr>) s"
  define s2 where "s2 = TMU_write (TCR t) (TMU_reg (TCR t) s OR TCR_UNF) s1"
  define s3 where "s3 = (if (TMU_reg (TCR t) s OR TCR_UNF) AND TCR_UNIE \<noteq> 0
    then intc_raise_interrupt (INT_TMU_TUNI0 + t) s2 else s2)"
  define s4 where "s4 = TMU_write (TCNT t) (?c - (?e div ?p - ?v) mod ?c + 1) s3"
  have r: "?v < ?e div ?p" using count_reached [OF assms(1,2)] assms(4) by simp
  have p: "?p \<noteq> 0" "?c \<noteq> 0" using assms(2) by (simp_all add: tmu_ok_def)
  have w: "INT_TMU_TUNI0 + t < INT_NUM_SOURCES" using assms(3) by (simp add: int_nums)
  have sel: "sh4_slice_cycle s4 = sh4_slice_cycle s" "long_scan_time_remaining s4 = long_scan_time_remaining s"
    "deadline s4 = deadline s"
    "TMU_timers s4 = (TMU_timers s)(t := (TMU_timers s t)\<lparr>timer_remainder := ?e mod ?p, timer_run := ns\<rparr>)"
    "mmio_TMU s4 = st32 (st32 (mmio_TMU s) (TCR t) (TMU_reg (TCR t) s OR TCR_UNF)) (TCNT t)
       (?c - (?e div ?p - ?v) mod ?c + 1)"
    by (simp_all add: s4_def s3_def s2_def s1_def)
  have inv4: "sys_inv s4"
    using assms(5) w by (simp add: s4_def s3_def s2_def s1_def intc_sys_inv)
  have ck4: "clock_ok s4" using assms(6) by (simp add: clock_ok_def sel)
  obtain s' where s': "TMU_schedule_timer t s4 = Some s'" "sys_inv s'" "eq_only s4 s'" "eq_clock s' = eq_clock s4"
    "deadline s' = (deadline s4)(EVENT_TMU0 + t \<mapsto> eq_target (ucast (TMU_duration t s4 div 1000000000))
      (ucast (TMU_duration t s4 mod 1000000000)) s4)"
    using TMU_schedule_timer_ok [OF inv4 assms(3) ck4] by blast
  note T = queue_fields_tmu [OF s'(3)] queue_fields_intc(5) [OF s'(3)]
  have "TMU_count t ns s = Some (?c - (?e div ?p - ?v) mod ?c + 1, s')"
    using r p assms(3) s'(1) [unfolded s4_def s3_def s2_def s1_def]
    by (simp add: TMU_count_def Let_def tmu_apart del: if_split)
  moreover have "?e mod ?p < ?p" using p by (simp add: word_less_nat_alt unat_mod unat_gt_0)
  moreover have "pend_set s' = (if TMU_reg (TCR t) s AND TCR_UNIE \<noteq> 0 \<and> priority s (INT_TMU_TUNI0 + t) \<noteq> 0
      then insert (INT_TMU_TUNI0 + t) (pend_set s) else pend_set s)"
  proof -
    have "pend_set s' = pend_set s4"
      using queue_fields_intc(1,2) [OF s'(3)] by (simp add: pend_set_def)
    moreover have "pend_set s4 = pend_set s3" by (simp add: s4_def TMU_write_def pend_set_def)
    moreover have "(TMU_reg (TCR t) s OR TCR_UNF) AND TCR_UNIE = TMU_reg (TCR t) s AND TCR_UNIE"
      by (simp add: bit.conj_disj_distrib2 TCR_UNF_def TCR_UNIE_def)
    moreover have "sys_inv s2" using assms(5) by (simp add: s2_def s1_def)
    then have "intc_inv s2" by (simp add: sys_inv_def)
    moreover have "pend_set s2 = pend_set s" "priority s2 = priority s"
      by (simp_all add: s2_def s1_def TMU_write_def upd_timer_def pend_set_def)
    ultimately show ?thesis
      using intc.raise_set [OF _ w, of s2] by (simp add: s3_def)
  qed
  moreover have "TMU_duration t s' = TMU_duration t s4" by (simp add: TMU_duration_def T)
  moreover have "eq_target a b s' = eq_target a b s4" for a b
    using evq.clock_law [OF s'(4)] by blast
  moreover have "long_scan_time_remaining s' = long_scan_time_remaining s4"
    using s'(4) by (simp add: eq_clock_def)
  ultimately show ?thesis
    using s'(2,5) assms(3) by (simp add: T sel tmu_apart)
qed

section \<open>The callback\<close>

lemma TMU_callback_ok:
  assumes "run_ok t (sh4_slice_cycle s) s" "tmu_ok t s" "t < 3" "sys_inv s" "clock_ok s"
    "due_ns t s \<le> unat (sh4_slice_cycle s) - unat (timer_run (TMU_timers s t))"
  shows "\<exists>s'. TMU_event_callback (of_nat (EVENT_TMU0 + t)) s = Some s' \<and>
    TMU_count t (sh4_slice_cycle s) s = Some (TMU_reg (TCNT t) s', s') \<and>
    TMU_reg (TCR t) s' AND TCR_UNF \<noteq> 0"
proof -
  have t: "unat (of_nat (EVENT_TMU0 + t) - of_nat EVENT_TMU0 :: u32) = t"
    using assms(3) by (simp add: unat_of_nat)
  obtain s' where s': "TMU_count t (sh4_slice_cycle s) s = Some (TMU_reg (TCNT t) s', s')"
    "TMU_reg (TCR t) s' = TMU_reg (TCR t) s OR TCR_UNF"
    using TMU_count_underflow [OF assms(1,2,3,6,4,5)] by blast
  have "TMU_reg (TCR t) s' AND TCR_UNF \<noteq> 0"
    by (simp add: s'(2) TCR_UNF_def bit.conj_disj_distrib2)
  then show ?thesis
    using s' t by (simp add: TMU_event_callback_def Let_def TCR_UNF_def)
qed

text \<open>A timer that is started falls due exactly \<open>due_ns\<close> nanoseconds later.\<close>

lemma TMU_start_deadline:
  assumes "sys_inv s" "t < 3" "clock_ok s" "timer_period (TMU_timers s t) \<noteq> 0"
    "timer_period (TMU_timers s t) < 1000000000"
  shows "\<exists>s' sec ns. TMU_start t s = Some s' \<and> sys_inv s' \<and> mmio_TMU s' = mmio_TMU s \<and>
    timer_run (TMU_timers s' t) = sh4_slice_cycle s \<and> timer_remainder (TMU_timers s' t) = 0 \<and>
    timer_period (TMU_timers s' t) = timer_period (TMU_timers s t) \<and>
    deadline s' = (deadline s)(EVENT_TMU0 + t \<mapsto> (sec, ns)) \<and> eq_clock s' = eq_clock s \<and>
    unat sec * 1000000000 + unat ns = due_ns t s' + unat (sh4_slice_cycle s)
      + (if sec = 0 then 0 else unat (LONG_SCAN_PERIOD - long_scan_time_remaining s))"
proof -
  let ?s1 = "upd_timer t (\<lambda>tm. tm\<lparr>timer_run := sh4_slice_cycle s, timer_remainder := 0\<rparr>) s"
  have "clock_ok ?s1" "sys_inv ?s1" using assms by (simp_all add: clock_ok_def)
  from TMU_schedule_timer_ok [OF this(2) assms(2) this(1)] obtain s' where
    s': "TMU_schedule_timer t ?s1 = Some s'" "sys_inv s'" "eq_only ?s1 s'" "eq_clock s' = eq_clock ?s1"
    "deadline s' = (deadline ?s1)(EVENT_TMU0 + t \<mapsto> eq_target (ucast (TMU_duration t ?s1 div 1000000000))
      (ucast (TMU_duration t ?s1 mod 1000000000)) ?s1)" by blast
  note T = queue_fields_tmu [OF s'(3)]
  let ?d = "TMU_duration t ?s1"
  let ?sec = "ucast (?d div 1000000000) :: u32" and ?lo = "ucast (?d mod 1000000000) :: u32"
  have d: "unat ?d = due_ns t ?s1"
    using assms(4) by (intro TMU_duration_nat) (simp add: word_neq_0_conv)
  have "due_ns t s' = due_ns t ?s1" by (simp add: due_ns_def T)
  moreover have lo: "unat ?lo = due_ns t ?s1 mod 1000000000" "unat ?lo < 1000000000"
    using unat_duration_ns [of ?d] d by simp_all
  moreover have "unat ?sec = due_ns t ?s1 div 1000000000"
  proof -
    have "due_ns t ?s1 \<le> 2 ^ 32 * 999999999"
      unfolding due_ns_def using assms(5) unat_less_exp [of "TMU_reg (TCNT t) ?s1"]
      by (intro order_trans [OF diff_le_self mult_le_mono]) (simp_all add: word_less_nat_alt)
    then have "due_ns t ?s1 div 1000000000 < 2 ^ 32" by simp
    then show ?thesis
      using d by (simp add: unsigned_ucast_eq take_bit_nat_def unat_div)
  qed
  moreover have "unat (snd (eq_target ?sec ?lo ?s1)) = unat ?lo + unat (sh4_slice_cycle s)
    + (if ?sec = 0 then 0 else unat (LONG_SCAN_PERIOD - long_scan_time_remaining s))"
  proof -
    have "eq_target ?sec ?lo ?s1 = eq_target ?sec ?lo s" by (simp add: eq_target_def)
    with target_nat(1) [OF assms(3) lo(2), of ?sec] show ?thesis by (simp only:)
  qed
  moreover have "fst (eq_target ?sec ?lo ?s1) = ?sec" by (simp add: eq_target_def)
  ultimately have sum: "unat (fst (eq_target ?sec ?lo ?s1)) * 1000000000 + unat (snd (eq_target ?sec ?lo ?s1)) =
    due_ns t s' + unat (sh4_slice_cycle s)
      + (if fst (eq_target ?sec ?lo ?s1) = 0 then 0 else unat (LONG_SCAN_PERIOD - long_scan_time_remaining s))"
    by simp
  show ?thesis
    using s' sum by (intro exI [of _ s'] exI [of _ "fst (eq_target ?sec ?lo ?s1)"]
      exI [of _ "snd (eq_target ?sec ?lo ?s1)"]) (simp add: TMU_start_def T eq_clock_def)
qed


section \<open>Properties\<close>

text \<open>Timers with a period of 80 ns, counter 9 and constant 9, all stopped.\<close>

definition blank_tmu :: "unit tmu_state_scheme" where
  "blank_tmu = blank_intc (tmu_state_ext (\<lambda>_. 0) (\<lambda>_. 0)
     (\<lambda>a. if a = 0x0C \<or> a = 0x08 then 9 else 0) (\<lambda>_. \<lparr>timer_period = 80, timer_remainder = 0, timer_run = 0\<rparr>)
     0 200 100 50 5 10 20 ())"

lemma blank_tmu_sel [simp]:
  "TMU_timers blank_tmu t = \<lparr>timer_period = 80, timer_remainder = 0, timer_run = 0\<rparr>"
  "sh4_slice_cycle blank_tmu = 0" "long_scan_time_remaining blank_tmu = LONG_SCAN_PERIOD"
  "mmio_TMU blank_tmu = (\<lambda>a. if a = 0x0C \<or> a = 0x08 then 9 else 0)"
  by (simp_all add: blank_tmu_def blank_intc_def INTC_reset_def Let_def sh4_set_event_pending_def blank_eventq_def
    event_init_def blank_sh4_def)

lemma blank_tmu_inv: "sys_inv blank_tmu" "clock_ok blank_tmu" "tmu_ok 0 blank_tmu"
  "TMU_reg (TCNT 0) blank_tmu = 9" "TMU_reg (TCOR 0) blank_tmu = 9"
proof -
  have "intc_inv blank_tmu" "eq_view blank_tmu [] []"
    using blank_intc_inv by (simp_all add: blank_tmu_def)
  then show "sys_inv blank_tmu" by (auto simp: sys_inv_def eventq_inv_def intc_inv_def)
  show c: "TMU_reg (TCNT 0) blank_tmu = 9" "TMU_reg (TCOR 0) blank_tmu = 9"
    by (simp_all add: TCNT_def TCOR_def ld32_def)
  show "clock_ok blank_tmu" by (simp add: clock_ok_def LONG_SCAN_PERIOD_def)
  show "tmu_ok 0 blank_tmu" using c by (simp add: tmu_ok_def)
qed

text \<open>
  C10: As long as the elapsed time is less than what is left, counting a timer moves its
  underflow nearer by exactly the elapsed nanoseconds: nothing is lost to rounding, because
  the fraction of a tick is kept in the remainder. No event or interrupt is touched.
\<close>

theorem TMU_count_exact:
  assumes "run_ok t ns s" "tmu_ok t s" "t < 3" "unat ns - unat (timer_run (TMU_timers s t)) < due_ns t s"
  shows "\<exists>s'. TMU_count t ns s = Some (TMU_reg (TCNT t) s', s') \<and>
    due_ns t s' = due_ns t s - (unat ns - unat (timer_run (TMU_timers s t))) \<and>
    timer_run (TMU_timers s' t) = ns \<and> TMU_reg (TCR t) s' = TMU_reg (TCR t) s \<and> tmu_ok t s' \<and>
    deadline s' = deadline s \<and> (sys_inv s \<longrightarrow> sys_inv s')"
proof -
  from TMU_count_no_underflow [OF assms] obtain v s' where s': "TMU_count t ns s = Some (v, s')"
    "v = TMU_reg (TCNT t) s'" "due_ns t s' = due_ns t s - (unat ns - unat (timer_run (TMU_timers s t)))"
    "timer_run (TMU_timers s' t) = ns" "TMU_reg (TCR t) s' = TMU_reg (TCR t) s"
    "timer_remainder (TMU_timers s' t) < timer_period (TMU_timers s' t)"
    "timer_period (TMU_timers s' t) = timer_period (TMU_timers s t)"
    "TMU_reg (TCOR t) s' = TMU_reg (TCOR t) s" "deadline s' = deadline s" "sys_inv s \<longrightarrow> sys_inv s'"
    by (elim exE conjE)
  with assms(2) show ?thesis by (auto simp: tmu_ok_def)
qed

theorem TMU_count_exact_witness:
  "\<exists>s'. TMU_count 0 500 blank_tmu = Some (TMU_reg (TCNT 0) s', s') \<and> due_ns 0 s' = 300"
proof -
  have d: "due_ns 0 blank_tmu = 800" using blank_tmu_inv(4) by (simp add: due_ns_def)
  have "\<exists>s'. TMU_count 0 500 blank_tmu = Some (TMU_reg (TCNT 0) s', s') \<and> due_ns 0 s' = due_ns 0 blank_tmu - 500"
    using TMU_count_exact [of 0 500 blank_tmu] blank_tmu_inv(3) d by (simp add: run_ok_def) blast
  then show ?thesis by (simp add: d)
qed

text \<open>
  When the elapsed time reaches what is left, counting sets the underflow flag, raises
  the timer's interrupt if it is enabled in the control register and not masked, and
  schedules the next underflow for the reloaded counter.
\<close>

theorem TMU_count_underflows:
  assumes "run_ok t ns s" "tmu_ok t s" "t < 3" "due_ns t s \<le> unat ns - unat (timer_run (TMU_timers s t))"
    "sys_inv s" "clock_ok s"
  shows "\<exists>s'. TMU_count t ns s = Some (TMU_reg (TCNT t) s', s') \<and> sys_inv s' \<and> tmu_ok t s' \<and>
    TMU_reg (TCR t) s' = TMU_reg (TCR t) s OR TCR_UNF \<and>
    deadline s' = (deadline s)(EVENT_TMU0 + t \<mapsto> eq_target (ucast (TMU_duration t s' div 1000000000))
      (ucast (TMU_duration t s' mod 1000000000)) s') \<and>
    pend_set s' = (if TMU_reg (TCR t) s AND TCR_UNIE \<noteq> 0 \<and> priority s (INT_TMU_TUNI0 + t) \<noteq> 0
      then insert (INT_TMU_TUNI0 + t) (pend_set s) else pend_set s)"
proof -
  from TMU_count_underflow [OF assms] obtain v s' where "TMU_count t ns s = Some (v, s')"
    "v = TMU_reg (TCNT t) s'" "TMU_reg (TCR t) s' = TMU_reg (TCR t) s OR TCR_UNF"
    "timer_period (TMU_timers s' t) = timer_period (TMU_timers s t)"
    "timer_remainder (TMU_timers s' t) < timer_period (TMU_timers s' t)"
    "TMU_reg (TCOR t) s' = TMU_reg (TCOR t) s" "sys_inv s'"
    "deadline s' = (deadline s)(EVENT_TMU0 + t \<mapsto> eq_target (ucast (TMU_duration t s' div 1000000000))
      (ucast (TMU_duration t s' mod 1000000000)) s')"
    "pend_set s' = (if TMU_reg (TCR t) s AND TCR_UNIE \<noteq> 0 \<and> priority s (INT_TMU_TUNI0 + t) \<noteq> 0
      then insert (INT_TMU_TUNI0 + t) (pend_set s) else pend_set s)"
    by (elim exE conjE)
  with assms(2) show ?thesis by (auto simp: tmu_ok_def)
qed

theorem TMU_count_underflows_witness:
  "\<exists>s'. TMU_count 0 800 blank_tmu = Some (TMU_reg (TCNT 0) s', s') \<and>
    TMU_reg (TCR 0) s' = TMU_reg (TCR 0) blank_tmu OR TCR_UNF"
proof -
  have "due_ns 0 blank_tmu = 800" using blank_tmu_inv(4) by (simp add: due_ns_def)
  then show ?thesis
    using TMU_count_underflows [of 0 800 blank_tmu] blank_tmu_inv(1,2,3)
    by (auto simp: run_ok_def)
qed



text \<open>
  After an underflow the reloaded counter is never more than one above the constant in
  \<open>TCOR\<close>; but it is one above whenever the ticks past zero are a multiple of the constant, a value
  that the hardware's counter never takes.
\<close>

theorem TMU_reload_range:
  assumes "TMU_count t ns s = Some (v, s')" "t < 3" "TMU_reg (TCOR t) s \<noteq> - 1"
    "TMU_reg (TCNT t) s < (ns + timer_remainder (TMU_timers s t) - timer_run (TMU_timers s t))
       div timer_period (TMU_timers s t)"
  defines "past \<equiv> (ns + timer_remainder (TMU_timers s t) - timer_run (TMU_timers s t))
       div timer_period (TMU_timers s t) - TMU_reg (TCNT t) s"
  shows "1 < v \<and> v \<le> TMU_reg (TCOR t) s + 1 \<and> (v = TMU_reg (TCOR t) s + 1 \<longleftrightarrow> past mod TMU_reg (TCOR t) s = 0)"
proof -
  let ?c = "TMU_reg (TCOR t) s"
  have c: "?c \<noteq> 0" "v = ?c - past mod ?c + 1"
    using assms(1,2,4) by (auto simp: TMU_count_def Let_def past_def tmu_apart split: if_splits)
  have lt: "unat (past mod ?c) < unat ?c" using c by (simp add: unat_mod unat_gt_0)
  have max: "unat ?c + 1 < 2 ^ 32"
    using assms(3) by (rule unat_not_max)
  have d: "unat (?c - past mod ?c) = unat ?c - unat (past mod ?c)"
    using lt by (simp add: unat_sub word_le_nat_alt)
  then have v: "unat v = unat ?c - unat (past mod ?c) + 1"
    unfolding c(2) using max by (subst unat_add_lem [THEN iffD1]) simp_all
  have c1: "unat (?c + 1) = unat ?c + 1"
    using max by (subst unat_add_lem [THEN iffD1]) simp_all
  have "v = ?c + 1 \<longleftrightarrow> unat v = unat (?c + 1)" by (simp add: word_unat_eq_iff)
  also have "\<dots> \<longleftrightarrow> past mod ?c = 0" using v c1 lt by (auto simp: unat_eq_0 [symmetric])
  finally show ?thesis
    using v c1 lt by (auto simp: word_less_nat_alt word_le_nat_alt)
qed

theorem TMU_reload_range_witness:
  "\<exists>s'. TMU_count 0 1440 blank_tmu = Some (10, s')"
proof -
  have run: "run_ok 0 1440 blank_tmu" by (simp add: run_ok_def)
  have "due_ns 0 blank_tmu = 800" using blank_tmu_inv(4) by (simp add: due_ns_def)
  then obtain v s' where s': "TMU_count 0 1440 blank_tmu = Some (v, s')"
    using TMU_count_underflow [OF run blank_tmu_inv(3) _ _ blank_tmu_inv(1,2)] by auto
  from TMU_reload_range [OF this] blank_tmu_inv(4,5) have "v = 10" by simp
  with s' show ?thesis by blast
qed

text \<open>
  Every legal write to \<open>FRQCR\<close> with the PLL on keeps each clock's period and frequency
  reciprocal up to rounding; with the PLL off the frequencies are divided by six and the
  periods, which the timers use, are not.
\<close>

theorem CPG_write_clocks:
  assumes "\<And>s :: ('a) tmu_state_scheme. sh4_peripheral_period (scif s) = sh4_peripheral_period s \<and>
      sh4_peripheral_freq (scif s) = sh4_peripheral_freq s"
  shows "let s' = mmio_region_CPG_write scif FRQCR val s; pd = pfc_divider (val AND 7) in
    sh4_peripheral_period s' = 5 * pd \<and>
    sh4_peripheral_freq s' = (if val AND FRQCR_PLL1EN = 0 then 33 div pd else 200 div pd)"
proof -
  have "val AND 7 < 8" by (rule and_7_less)
  then have "unat (val AND 7) \<in> {0, 1, 2, 3, 4, 5, 6, 7}" by (simp add: word_less_nat_alt) linarith
  then have "pfc_divider (val AND 7) \<in> {2, 3, 4, 6, 8}" by (auto simp: pfc_divider_def)
  then show ?thesis
    using assms by (auto simp: mmio_region_CPG_write_def Let_def FRQCR_def sh4_input_freq_def)
qed

theorem CPG_write_clocks_witness:
  "sh4_peripheral_period (mmio_region_CPG_write id FRQCR 0x0E0A blank_tmu) = 20 \<and>
   sh4_peripheral_freq (mmio_region_CPG_write id FRQCR 0x0E0A blank_tmu) = 50 \<and>
   sh4_peripheral_freq (mmio_region_CPG_write id FRQCR 0x0A0A blank_tmu) = 8"
  using CPG_write_clocks [of id "0x0E0A" blank_tmu] CPG_write_clocks [of id "0x0A0A" blank_tmu]
  by (simp add: Let_def pfc_divider_def FRQCR_PLL1EN_def)

end
