(* ===== verification/Breakpoints.thy ===== *)
theory Breakpoints
  imports Prelude
begin

unbundle bit_operations_syntax

text \<open>
  Breakpoint tables. \<open>sh4/sh4.c\<close> and \<open>aica/armcore.c\<close> each keep an array of
  \<open>struct breakpoint_struct\<close> of \<open>mem.h\<close> with a counter and the same three operations on
  it. The search through such an array and what removing an entry does to it are shared,
  and the contract of the operations is the locale \<open>breakpoint_table\<close>.
\<close>

record breakpoint_struct =
  bp_address :: u32
  bp_type :: u32

definition BREAK_ONESHOT :: u32 where "BREAK_ONESHOT = 1"

fun find_breakpoint :: "(nat \<Rightarrow> breakpoint_struct) \<Rightarrow> (breakpoint_struct \<Rightarrow> bool) \<Rightarrow> nat list \<Rightarrow> nat option" where
  "find_breakpoint bp P [] = None"
| "find_breakpoint bp P (i # is) = (if P (bp i) then Some i else find_breakpoint bp P is)"

section \<open>Arrays of breakpoints as lists\<close>

lemma find_breakpoint_upt:
  "(case find_breakpoint bp P [m..<n] of
      None \<Rightarrow> (\<forall>k. m \<le> k \<and> k < n \<longrightarrow> \<not> P (bp k))
    | Some i \<Rightarrow> m \<le> i \<and> i < n \<and> P (bp i) \<and> (\<forall>k. m \<le> k \<and> k < i \<longrightarrow> \<not> P (bp k)))"
proof (induction "n - m" arbitrary: m)
  case 0
  then show ?case by auto
next
  case (Suc d)
  then have "m < n" "d = n - Suc m" by auto
  moreover have "[m..<n] = m # [Suc m..<n]" using \<open>m < n\<close> by (simp add: upt_conv_Cons)
  ultimately show ?case
    using Suc.hyps(1) [of "Suc m"] by (auto simp: Suc_le_eq split: option.splits) (metis le_neq_implies_less)+
qed

lemma fold_shift_bp:
  "fold (\<lambda>j bp. bp(j - 1 := bp j)) [Suc i..<n] bp = (\<lambda>k. if i \<le> k \<and> k < n - 1 then bp (Suc k) else bp k)"
proof (induction "n - i" arbitrary: i bp)
  case 0
  then show ?case by (auto simp: fun_eq_iff)
next
  case (Suc d)
  show ?case
  proof (cases "Suc i < n")
    case True
    then have "[Suc i..<n] = Suc i # [Suc (Suc i)..<n]" by (simp add: upt_conv_Cons)
    then have "fold (\<lambda>j bp. bp(j - 1 := bp j)) [Suc i..<n] bp =
      fold (\<lambda>j bp. bp(j - 1 := bp j)) [Suc (Suc i)..<n] (bp(i := bp (Suc i)))" by simp
    also have "\<dots> = (\<lambda>k. if Suc i \<le> k \<and> k < n - 1 then (bp(i := bp (Suc i))) (Suc k) else (bp(i := bp (Suc i))) k)"
      using Suc True by (intro Suc.hyps(1)) auto
    finally show ?thesis using True by (auto simp: fun_eq_iff)
  next
    case False
    then show ?thesis by (auto simp: fun_eq_iff)
  qed
qed

lemma remove1_first:
  assumes "i < length xs" "\<forall>k<i. xs ! k \<noteq> xs ! i"
  shows "remove1 (xs ! i) xs = take i xs @ drop (Suc i) xs"
proof -
  have "xs = take i xs @ xs ! i # drop (Suc i) xs" using assms(1) by (simp add: id_take_nth_drop)
  moreover have "xs ! i \<notin> set (take i xs)" using assms by (auto simp: in_set_conv_nth)
  ultimately show ?thesis by (metis remove1.simps(2) remove1_append)
qed

lemma bp_list_shift:
  assumes "i < n"
  shows "map (\<lambda>k. if i \<le> k \<and> k < n - 1 then bp (Suc k) else bp k) [0..<n - 1]
    = take i (map bp [0..<n]) @ drop (Suc i) (map bp [0..<n])"
  using assms by (intro nth_equalityI) (auto simp: nth_append)

lemma breakpoint_eq: "bp_address b = pc \<and> bp_type b = kind \<longleftrightarrow> b = \<lparr>bp_address = pc, bp_type = kind\<rparr>"
  by (cases b) auto

lemma find_breakpoint_find: "map_option bp (find_breakpoint bp P is) = find P (map bp is)"
  by (induction "is") auto

lemma find_breakpoint_type:
  "(case find_breakpoint bp P is of None \<Rightarrow> 0 | Some i \<Rightarrow> bp_type (bp i)) =
   (case find P (map bp is) of None \<Rightarrow> 0 | Some b \<Rightarrow> bp_type b)"
  by (simp add: find_breakpoint_find [symmetric] split: option.split)

text \<open>What searching for an entry and closing the gap do to the table.\<close>

lemma table_clear:
  fixes pc kind :: u32 and bp :: "nat \<Rightarrow> breakpoint_struct" and n i :: nat
  defines "b \<equiv> \<lparr>bp_address = pc, bp_type = kind\<rparr>"
  shows "find_breakpoint bp (\<lambda>b. bp_address b = pc \<and> bp_type b = kind) [0..<n] = None \<Longrightarrow> b \<notin> set (map bp [0..<n])"
    "find_breakpoint bp (\<lambda>b. bp_address b = pc \<and> bp_type b = kind) [0..<n] = Some i \<Longrightarrow>
      b \<in> set (map bp [0..<n]) \<and>
      map (fold (\<lambda>j bp. bp(j - 1 := bp j)) [Suc i..<n] bp) [0..<n - 1] = remove1 b (map bp [0..<n])"
proof -
  note find = find_breakpoint_upt [where bp = bp and P = "\<lambda>b. bp_address b = pc \<and> bp_type b = kind" and m = 0 and n = n]
  {
    assume "find_breakpoint bp (\<lambda>b. bp_address b = pc \<and> bp_type b = kind) [0..<n] = None"
    then show "b \<notin> set (map bp [0..<n])" using find by (auto simp: b_def breakpoint_eq)
  next
    assume "find_breakpoint bp (\<lambda>b. bp_address b = pc \<and> bp_type b = kind) [0..<n] = Some i"
    then have i: "i < n" "bp i = b" "\<forall>k<i. bp k \<noteq> b" using find by (auto simp: b_def breakpoint_eq)
    then have m: "map bp [0..<n] ! i = b" "\<forall>k<i. map bp [0..<n] ! k \<noteq> b" by auto
    then have "remove1 b (map bp [0..<n]) = take i (map bp [0..<n]) @ drop (Suc i) (map bp [0..<n])"
      using remove1_first [of i "map bp [0..<n]"] i(1) by simp
    moreover have "b \<in> set (map bp [0..<n])" using i by auto
    ultimately show "b \<in> set (map bp [0..<n]) \<and>
      map (fold (\<lambda>j bp. bp(j - 1 := bp j)) [Suc i..<n] bp) [0..<n - 1] = remove1 b (map bp [0..<n])"
      unfolding fold_shift_bp using bp_list_shift [OF i(1)] by simp
  }
qed

section \<open>The contract\<close>

locale breakpoint_table =
  fixes table :: "'s \<Rightarrow> breakpoint_struct list"
    and set_bp :: "u32 \<Rightarrow> u32 \<Rightarrow> 's \<Rightarrow> 's"
    and clear_bp :: "u32 \<Rightarrow> u32 \<Rightarrow> 's \<Rightarrow> bool \<times> 's"
    and get_bp :: "u32 \<Rightarrow> 's \<Rightarrow> u32"
  assumes set_appends: "table (set_bp pc kind s) = table s @ [\<lparr>bp_address = pc, bp_type = kind\<rparr>]"
    and clear_found: "fst (clear_bp pc kind s) \<longleftrightarrow> \<lparr>bp_address = pc, bp_type = kind\<rparr> \<in> set (table s)"
    and clear_removes: "table (snd (clear_bp pc kind s)) = remove1 \<lparr>bp_address = pc, bp_type = kind\<rparr> (table s)"
    and get_first: "get_bp pc s = (case find (\<lambda>b. bp_address b = pc) (table s) of None \<Rightarrow> 0 | Some b \<Rightarrow> bp_type b)"
begin

lemma set_then_clear:
  assumes "\<lparr>bp_address = pc, bp_type = kind\<rparr> \<notin> set (table s)"
  shows "fst (clear_bp pc kind (set_bp pc kind s))"
    "table (snd (clear_bp pc kind (set_bp pc kind s))) = table s"
  using assms by (simp_all add: clear_found clear_removes set_appends remove1_append)

lemma set_then_get:
  assumes "\<forall>b \<in> set (table s). bp_address b \<noteq> pc"
  shows "get_bp pc (set_bp pc kind s) = kind"
proof -
  have "find (\<lambda>b. bp_address b = pc) (xs @ [\<lparr>bp_address = pc, bp_type = kind\<rparr>]) = Some \<lparr>bp_address = pc, bp_type = kind\<rparr>"
    if "\<forall>b \<in> set xs. bp_address b \<noteq> pc" for xs
    using that by (induction xs) auto
  then show ?thesis using assms by (simp add: get_first set_appends)
qed

lemma get_none: "get_bp pc s = 0" if "\<forall>b \<in> set (table s). bp_address b \<noteq> pc"
proof -
  have "find (\<lambda>b. bp_address b = pc) (table s) = None" using that by (auto simp: find_None_iff)
  then show ?thesis by (simp add: get_first)
qed

end

end
