(* ===== verification/Sh4Cpu.thy ===== *)
theory Sh4Cpu
  imports Timer Breakpoints
begin

unbundle bit_operations_syntax

text \<open>
  \<open>sh4/sh4.c\<close>: the status register and the banked registers, exceptions and
  interrupts, sleep, the time slice around the execution core, breakpoints and the
  register map of the debugger. What the file calls in components that are not
  modelled (the MMU, the cache control, the serial port, the performance counters, the
  translation cache, the execution core) comes in as a record \<open>sh4_env\<close> of state
  transformers. Floating point helpers (\<open>sh4_fsca\<close>, \<open>sh4_ftrv\<close>) are left out.
\<close>

section \<open>State\<close>

record cpu_state = tmu_state +
  mmio_MMU :: mem
  sh4_breakpoints :: "nat \<Rightarrow> breakpoint_struct"
  sh4_breakpoint_count :: nat
  sh4_use_translator :: bool
  sh4_running :: bool
  sh4_starting :: bool
  sh4_mac :: u64

record 's sh4_env =
  env_SCIF_reset :: "'s \<Rightarrow> 's"
  env_MMU_reset :: "'s \<Rightarrow> 's"
  env_CCN_reset :: "'s \<Rightarrow> 's"
  env_PMM_reset :: "'s \<Rightarrow> 's"
  env_SCIF_speed :: "'s \<Rightarrow> 's"
  env_SCIF_run_slice :: "u32 \<Rightarrow> 's \<Rightarrow> 's"
  env_PMM_run_slice :: "u32 \<Rightarrow> 's \<Rightarrow> 's"
  env_xlat_flush :: "'s \<Rightarrow> 's"
  env_xlat_invalidate :: "u32 \<Rightarrow> 's \<Rightarrow> 's"
  env_dreamcast_stop :: "'s \<Rightarrow> 's"
  env_dreamcast_reset :: "'s \<Rightarrow> 's"
  env_event :: "event_func \<Rightarrow> u32 \<Rightarrow> 's \<Rightarrow> 's option"

definition SH4_STATE_RUNNING :: u32 where "SH4_STATE_RUNNING = 1"
definition SH4_STATE_SLEEP :: u32 where "SH4_STATE_SLEEP = 2"
definition SH4_STATE_DEEP_SLEEP :: u32 where "SH4_STATE_DEEP_SLEEP = 3"
definition SH4_STATE_STANDBY :: u32 where "SH4_STATE_STANDBY = 4"

definition FPSCR_FR :: u32 where "FPSCR_FR = 0x00200000"
definition FPSCR_SZ :: u32 where "FPSCR_SZ = 0x00100000"
definition FPSCR_PR :: u32 where "FPSCR_PR = 0x00080000"
definition FPSCR_MASK :: u32 where "FPSCR_MASK = 0x003FFFFF"

definition PTEH :: u32 where "PTEH = 0x000"
definition TEA :: u32 where "TEA = 0x00C"
definition TRA :: u32 where "TRA = 0x020"
definition EXPEVT :: u32 where "EXPEVT = 0x024"
definition INTEVT :: u32 where "INTEVT = 0x028"

definition EXC_POWER_RESET :: u32 where "EXC_POWER_RESET = 0x000"
definition EXC_MANUAL_RESET :: u32 where "EXC_MANUAL_RESET = 0x020"
definition EXC_TLB_MULTI_HIT :: u32 where "EXC_TLB_MULTI_HIT = 0x140"
definition EXC_TRAP :: u32 where "EXC_TRAP = 0x160"
definition EXV_EXCEPTION :: u32 where "EXV_EXCEPTION = 0x100"
definition EXV_TLBMISS :: u32 where "EXV_TLBMISS = 0x400"

definition MMU_write :: "u32 \<Rightarrow> u32 \<Rightarrow> ('a) cpu_state_scheme \<Rightarrow> ('a) cpu_state_scheme" where
  "MMU_write r v s = s\<lparr>mmio_MMU := st32 (mmio_MMU s) r v\<rparr>"

section \<open>Register banks and the status registers\<close>

definition sh4_switch_banks :: "('a) sh4_registers_scheme \<Rightarrow> ('a) sh4_registers_scheme" where
  "sh4_switch_banks s = s\<lparr>sh4_r := (\<lambda>i. if i < 8 then sh4_r_bank s i else sh4_r s i),
     sh4_r_bank := (\<lambda>i. if i < 8 then sh4_r s i else sh4_r_bank s i)\<rparr>"

definition sh4_switch_fr_banks :: "('a) sh4_registers_scheme \<Rightarrow> ('a) sh4_registers_scheme" where
  "sh4_switch_fr_banks s = s\<lparr>sh4_fr := (\<lambda>b i. if i < 16 \<and> b = 0 then sh4_fr s 1 i
     else if i < 16 \<and> b = 1 then sh4_fr s 0 i else sh4_fr s b i)\<rparr>"

definition xlat_mode :: "u32 \<Rightarrow> u32 \<Rightarrow> u32" where
  "xlat_mode sr fpscr = (sr AND SR_MD) OR (fpscr AND (FPSCR_SZ OR FPSCR_PR))"

definition sh4_write_sr :: "u32 \<Rightarrow> ('a) intc_state_scheme \<Rightarrow> ('a) intc_state_scheme" where
  "sh4_write_sr newval s =
    (let oldbank = (sh4_sr s AND SR_MDRB = SR_MDRB);
         newbank = (newval AND SR_MDRB = SR_MDRB);
         s1 = (if oldbank \<noteq> newbank then sh4_switch_banks s else s);
         s2 = s1\<lparr>sh4_sr := newval AND SR_MASK,
               sh4_t := b2w (newval AND SR_T \<noteq> 0),
               sh4_s := b2w (newval AND SR_S \<noteq> 0),
               sh4_m := b2w (newval AND SR_M \<noteq> 0),
               sh4_q := b2w (newval AND SR_Q \<noteq> 0)\<rparr>
     in intc_mask_changed (s2\<lparr>sh4_xlat_mode := xlat_mode (sh4_sr s2) (sh4_fpscr s2)\<rparr>))"

definition sh4_write_fpscr :: "u32 \<Rightarrow> ('a) sh4_registers_scheme \<Rightarrow> ('a) sh4_registers_scheme" where
  "sh4_write_fpscr newval s =
    (let s1 = (if (sh4_fpscr s XOR newval) AND FPSCR_FR \<noteq> 0 then sh4_switch_fr_banks s else s);
         s2 = s1\<lparr>sh4_fpscr := newval AND FPSCR_MASK\<rparr>
     in s2\<lparr>sh4_xlat_mode := xlat_mode (sh4_sr s2) (sh4_fpscr s2)\<rparr>)"

definition sh4_read_sr :: "('a) sh4_registers_scheme \<Rightarrow> u32 \<times> ('a) sh4_registers_scheme" where
  "sh4_read_sr s =
    (let v0 = sh4_sr s AND SR_MQSTMASK;
         v1 = (if sh4_t s \<noteq> 0 then v0 OR SR_T else v0);
         v2 = (if sh4_s s \<noteq> 0 then v1 OR SR_S else v1);
         v3 = (if sh4_m s \<noteq> 0 then v2 OR SR_M else v2);
         v4 = (if sh4_q s \<noteq> 0 then v3 OR SR_Q else v3)
     in (v4, s\<lparr>sh4_sr := v4\<rparr>))"

section \<open>Exceptions, traps and interrupts\<close>

definition sh4_raise_reset ::
  "('a) cpu_state_scheme sh4_env \<Rightarrow> u32 \<Rightarrow> ('a) cpu_state_scheme \<Rightarrow> ('a) cpu_state_scheme" where
  "sh4_raise_reset env code s =
    (let s1 = (MMU_write EXPEVT code s)\<lparr>sh4_vbr := 0, sh4_pc := 0xA0000000\<rparr>;
         s2 = s1\<lparr>sh4_new_pc := sh4_pc s1 + 2, sh4_in_delay_slot := 0\<rparr>;
         s3 = sh4_write_sr ((sh4_sr s2 OR SR_MD OR SR_BL OR SR_RB OR SR_IMASK) AND NOT SR_FD) s2
     in env_MMU_reset env (env_SCIF_reset env (INTC_reset s3)))"

definition set_fault_address :: "u32 \<Rightarrow> ('a) cpu_state_scheme \<Rightarrow> ('a) cpu_state_scheme" where
  "set_fault_address vpn s =
    (let s1 = MMU_write TEA vpn s
     in MMU_write PTEH ((ld32 (mmio_MMU s1) PTEH AND 0x000003FF) OR (vpn AND 0xFFFFFC00)) s1)"

definition sh4_raise_tlb_multihit ::
  "('a) cpu_state_scheme sh4_env \<Rightarrow> u32 \<Rightarrow> ('a) cpu_state_scheme \<Rightarrow> ('a) cpu_state_scheme" where
  "sh4_raise_tlb_multihit env vpn s = sh4_raise_reset env EXC_TLB_MULTI_HIT (set_fault_address vpn s)"

text \<open>
  The entry sequence that the exception functions share: save PC, SR and R15, jump to
  \<open>target\<close>, and enter privileged mode with exceptions blocked and bank 1 selected.
\<close>

definition enter_exception :: "u32 \<Rightarrow> ('a) cpu_state_scheme \<Rightarrow> ('a) cpu_state_scheme" where
  "enter_exception target s =
    (let s1 = s\<lparr>sh4_spc := sh4_pc s\<rparr>;
         (sr, s2) = sh4_read_sr s1;
         s3 = s2\<lparr>sh4_ssr := sr, sh4_sgr := sh4_r s2 15, sh4_pc := target, sh4_new_pc := target + 2\<rparr>;
         s4 = sh4_write_sr (sh4_ssr s3 OR SR_MD OR SR_BL OR SR_RB) s3
     in s4\<lparr>sh4_in_delay_slot := 0\<rparr>)"

definition sh4_raise_exception ::
  "('a) cpu_state_scheme sh4_env \<Rightarrow> u32 \<Rightarrow> ('a) cpu_state_scheme \<Rightarrow> ('a) cpu_state_scheme" where
  "sh4_raise_exception env code s =
    (if sh4_sr s AND SR_BL \<noteq> 0 then sh4_raise_reset env EXC_MANUAL_RESET s
     else enter_exception (sh4_vbr s + EXV_EXCEPTION) (MMU_write EXPEVT code s))"

definition sh4_raise_trap :: "u32 \<Rightarrow> ('a) cpu_state_scheme \<Rightarrow> ('a) cpu_state_scheme" where
  "sh4_raise_trap trap s = enter_exception (sh4_vbr s + EXV_EXCEPTION)
     (MMU_write EXPEVT EXC_TRAP (MMU_write TRA (push_bit 2 trap) s))"

definition sh4_raise_tlb_exception :: "u32 \<Rightarrow> u32 \<Rightarrow> ('a) cpu_state_scheme \<Rightarrow> ('a) cpu_state_scheme" where
  "sh4_raise_tlb_exception code vpn s = enter_exception (sh4_vbr s + EXV_TLBMISS)
     (MMU_write EXPEVT code (set_fault_address vpn s))"

definition sh4_reraise_exception :: "u32 \<Rightarrow> ('a) cpu_state_scheme \<Rightarrow> ('a) cpu_state_scheme" where
  "sh4_reraise_exception exception_pc s = enter_exception exception_pc s"

definition sh4_accept_interrupt :: "('a) cpu_state_scheme \<Rightarrow> ('a) cpu_state_scheme option" where
  "sh4_accept_interrupt s = do {
     code \<leftarrow> intc_accept_interrupt s;
     Some (enter_exception (sh4_vbr s + 0x600) (MMU_write INTEVT code s)) }"

definition sh4_handle_pending_events ::
  "('a) cpu_state_scheme sh4_env \<Rightarrow> ('a) cpu_state_scheme \<Rightarrow> ('a) cpu_state_scheme option" where
  "sh4_handle_pending_events env s = do {
     s1 \<leftarrow> (if sh4_event_types s AND PENDING_EVENT \<noteq> 0 then event_execute (env_event env) s else Some s);
     (if sh4_event_types s1 AND PENDING_IRQ \<noteq> 0 then sh4_accept_interrupt s1 else Some s1) }"

definition signsat48 :: "('a) cpu_state_scheme \<Rightarrow> ('a) cpu_state_scheme" where
  "signsat48 s =
    (if sint (sh4_mac s) < sint (0xFFFF800000000000 :: u64) then s\<lparr>sh4_mac := 0xFFFF800000000000\<rparr>
     else if sint (0x00007FFFFFFFFFFF :: u64) < sint (sh4_mac s) then s\<lparr>sh4_mac := 0x00007FFFFFFFFFFF\<rparr>
     else s)"

section \<open>Breakpoints\<close>

definition sh4_set_breakpoint ::
  "('a) cpu_state_scheme sh4_env \<Rightarrow> u32 \<Rightarrow> u32 \<Rightarrow> ('a) cpu_state_scheme \<Rightarrow> ('a) cpu_state_scheme" where
  "sh4_set_breakpoint env pc kind s =
    (let s1 = s\<lparr>sh4_breakpoints := (sh4_breakpoints s)(sh4_breakpoint_count s := \<lparr>bp_address = pc, bp_type = kind\<rparr>)\<rparr>;
         s2 = (if sh4_use_translator s1 then env_xlat_invalidate env pc s1 else s1)
     in s2\<lparr>sh4_breakpoint_count := sh4_breakpoint_count s2 + 1\<rparr>)"

definition sh4_clear_breakpoint ::
  "('a) cpu_state_scheme sh4_env \<Rightarrow> u32 \<Rightarrow> u32 \<Rightarrow> ('a) cpu_state_scheme \<Rightarrow> bool \<times> ('a) cpu_state_scheme" where
  "sh4_clear_breakpoint env pc kind s =
    (case find_breakpoint (sh4_breakpoints s) (\<lambda>b. bp_address b = pc \<and> bp_type b = kind)
       [0..<sh4_breakpoint_count s] of
       None \<Rightarrow> (False, s)
     | Some i \<Rightarrow>
         (let s1 = s\<lparr>sh4_breakpoints := fold (\<lambda>j bp. bp(j - 1 := bp j)) [i + 1..<sh4_breakpoint_count s]
                       (sh4_breakpoints s)\<rparr>;
              s2 = (if sh4_use_translator s1 then env_xlat_invalidate env pc s1 else s1)
          in (True, s2\<lparr>sh4_breakpoint_count := sh4_breakpoint_count s2 - 1\<rparr>)))"

definition sh4_get_breakpoint :: "u32 \<Rightarrow> ('a) cpu_state_scheme \<Rightarrow> u32" where
  "sh4_get_breakpoint pc s =
    (case find_breakpoint (sh4_breakpoints s) (\<lambda>b. bp_address b = pc) [0..<sh4_breakpoint_count s] of
       None \<Rightarrow> 0 | Some i \<Rightarrow> bp_type (sh4_breakpoints s i))"

section \<open>Reset, sleep and the time slice\<close>

definition sh4_poweron_reset ::
  "('a) cpu_state_scheme sh4_env \<Rightarrow> ('a) cpu_state_scheme \<Rightarrow> ('a) cpu_state_scheme option" where
  "sh4_poweron_reset env s0 =
    (let zero = s0\<lparr>sh4_r := (\<lambda>_. 0), sh4_sr := 0, sh4_pc := 0, sh4_t := 0, sh4_m := 0, sh4_q := 0, sh4_s := 0,
           sh4_fr := (\<lambda>_ _. 0), sh4_fpscr := 0, sh4_ssr := 0, sh4_spc := 0, sh4_sgr := 0, sh4_vbr := 0,
           sh4_r_bank := (\<lambda>_. 0), sh4_new_pc := 0, sh4_event_pending := 0, sh4_event_types := 0,
           sh4_in_delay_slot := 0, sh4_slice_cycle := 0, sh4_state := 0, sh4_xlat_mode := 0, sh4_mac := 0\<rparr>;
         s1 = (if sh4_use_translator zero then env_xlat_flush env zero else zero);
         s2 = s1\<lparr>sh4_state := SH4_STATE_RUNNING, sh4_pc := 0xA0000000, sh4_new_pc := 0xA0000002,
               sh4_vbr := 0, sh4_fpscr := 0x00040001\<rparr>;
         s3 = MMU_write EXPEVT EXC_POWER_RESET (sh4_write_sr 0x700000F0 s2);
         s4 = env_PMM_reset env (INTC_reset (CPG_reset (env_SCIF_speed env) s3))
     in map_option (env_MMU_reset env \<circ> env_CCN_reset env \<circ> env_SCIF_reset env) (TMU_reset s4))"

definition sh4_start :: "('a) cpu_state_scheme \<Rightarrow> ('a) cpu_state_scheme" where
  "sh4_start s = s\<lparr>sh4_starting := True\<rparr>"

definition sh4_stop :: "('a) cpu_state_scheme \<Rightarrow> ('a) cpu_state_scheme" where
  "sh4_stop s = (if sh4_use_translator s then s\<lparr>sh4_new_pc := sh4_pc s + 2, sh4_in_delay_slot := 0\<rparr> else s)"

definition sh4_set_pc :: "u32 \<Rightarrow> ('a) cpu_state_scheme \<Rightarrow> ('a) cpu_state_scheme" where
  "sh4_set_pc pc s = s\<lparr>sh4_pc := pc, sh4_new_pc := pc + 2\<rparr>"

text \<open>The peripherals catch up with the slice; shared by the sleep entry and the halt exit.\<close>

definition run_peripherals ::
  "('a) cpu_state_scheme sh4_env \<Rightarrow> u32 \<Rightarrow> ('a) cpu_state_scheme \<Rightarrow> ('a) cpu_state_scheme option" where
  "run_peripherals env ns s = map_option
     (\<lambda>s1. env_PMM_run_slice env (sh4_slice_cycle s1) (env_SCIF_run_slice env ns s1)) (TMU_run_slice ns s)"

text \<open>
  \<open>sh4_sleep\<close> up to its last statement, which leaves the core with
  \<open>CORE_EXIT_SLEEP\<close>.
\<close>

definition sh4_sleep ::
  "('a) cpu_state_scheme sh4_env \<Rightarrow> ('a) cpu_state_scheme \<Rightarrow> ('a) cpu_state_scheme option" where
  "sh4_sleep env s =
    (if ld32 (mmio_CPG s) STBCR AND 0x80 \<noteq> 0
     then run_peripherals env (sh4_slice_cycle s) (s\<lparr>sh4_state := SH4_STATE_STANDBY\<rparr>)
     else if ld32 (mmio_CPG s) STBCR2 AND 0x80 \<noteq> 0
     then Some (s\<lparr>sh4_state := SH4_STATE_DEEP_SLEEP\<rparr>)
     else Some (s\<lparr>sh4_state := SH4_STATE_SLEEP\<rparr>))"

definition sh4_wakeup :: "('a) cpu_state_scheme \<Rightarrow> ('a) cpu_state_scheme" where
  "sh4_wakeup s = s\<lparr>sh4_state := SH4_STATE_RUNNING\<rparr>"

partial_function (option) sleep_loop ::
  "('a) cpu_state_scheme sh4_env \<Rightarrow> u32 \<Rightarrow> ('a) cpu_state_scheme \<Rightarrow> ('a) cpu_state_scheme option" where
  "sleep_loop env nanosecs s =
    (if sh4_event_pending s < nanosecs then
       let s1 = s\<lparr>sh4_slice_cycle := sh4_event_pending s\<rparr>
       in Option.bind (if sh4_event_types s1 AND PENDING_EVENT \<noteq> 0 then event_execute (env_event env) s1 else Some s1)
         (\<lambda>s2. if sh4_event_types s2 AND PENDING_IRQ \<noteq> 0 then Some (sh4_wakeup s2)
               else sleep_loop env nanosecs s2)
     else Some (if sh4_slice_cycle s < nanosecs then s\<lparr>sh4_slice_cycle := nanosecs\<rparr> else s))"

definition sh4_sleep_run_slice ::
  "('a) cpu_state_scheme sh4_env \<Rightarrow> u32 \<Rightarrow> ('a) cpu_state_scheme \<Rightarrow> ('a) cpu_state_scheme option" where
  "sh4_sleep_run_slice env nanosecs s =
    (if sh4_state s \<noteq> SH4_STATE_RUNNING then sleep_loop env nanosecs s else None)"


definition CORE_EXIT_HALT :: u32 where "CORE_EXIT_HALT = 2"
definition CORE_EXIT_BREAKPOINT :: u32 where "CORE_EXIT_BREAKPOINT = 3"
definition CORE_EXIT_SYSRESET :: u32 where "CORE_EXIT_SYSRESET = 4"
definition CORE_EXIT_FLUSH_ICACHE :: u32 where "CORE_EXIT_FLUSH_ICACHE = 6"

text \<open>
  \<open>sh4_run_slice\<close> from the return of \<open>setjmp\<close> with value \<open>code\<close> on (0 at first). The
  core runs the slice and returns 0, or the code it passes to \<open>sh4_core_exit\<close>, which
  returns to the \<open>setjmp\<close>; \<open>None\<close> means that it does not come back.
\<close>

definition finish_slice ::
  "('a) cpu_state_scheme sh4_env \<Rightarrow> u32 \<Rightarrow> ('a) cpu_state_scheme \<Rightarrow> ('a) cpu_state_scheme option" where
  "finish_slice env nanosecs s =
    (let s1 = s\<lparr>sh4_running := False, sh4_starting := False, sh4_slice_cycle := nanosecs\<rparr>
     in if sh4_state s1 \<noteq> SH4_STATE_STANDBY then run_peripherals env nanosecs s1 else Some s1)"

definition slice_exit ::
  "('a) cpu_state_scheme sh4_env \<Rightarrow> u32 \<Rightarrow> ('a) cpu_state_scheme \<Rightarrow> ('a) cpu_state_scheme" where
  "slice_exit env code s =
    (if code = CORE_EXIT_BREAKPOINT \<or> code = CORE_EXIT_HALT \<or> code = CORE_EXIT_SYSRESET then env_dreamcast_reset env s
     else if code = CORE_EXIT_FLUSH_ICACHE then env_xlat_flush env s
     else s)"

partial_function (option) run_slice_from ::
  "('a) cpu_state_scheme sh4_env \<Rightarrow> (u32 \<Rightarrow> ('a) cpu_state_scheme \<Rightarrow> (u32 \<times> ('a) cpu_state_scheme) option) \<Rightarrow>
   u32 \<Rightarrow> u32 \<Rightarrow> ('a) cpu_state_scheme \<Rightarrow> (u32 \<times> ('a) cpu_state_scheme) option" where
  "run_slice_from env core nanosecs code s =
    (let s1 = (if code = CORE_EXIT_BREAKPOINT then snd (sh4_clear_breakpoint env (sh4_pc s) BREAK_ONESHOT s) else s)
     in if (code = CORE_EXIT_BREAKPOINT \<or> code = CORE_EXIT_HALT) \<and> sh4_state s1 \<noteq> SH4_STATE_STANDBY
        then map_option (\<lambda>s2. (sh4_slice_cycle (env_dreamcast_stop env s2), env_dreamcast_stop env s2))
          (run_peripherals env (sh4_slice_cycle s1) s1)
        else
          let s2 = slice_exit env code s1
          in if sh4_state s2 \<noteq> SH4_STATE_RUNNING
             then Option.bind (sh4_sleep_run_slice env nanosecs s2)
               (\<lambda>s3. map_option (Pair nanosecs) (finish_slice env nanosecs s3))
             else Option.bind (core nanosecs (s2\<lparr>sh4_running := True\<rparr>))
               (\<lambda>r. if fst r = 0 then map_option (Pair nanosecs) (finish_slice env nanosecs (snd r))
                    else run_slice_from env core nanosecs (fst r) ((snd r)\<lparr>sh4_running := False\<rparr>)))"

definition sh4_run_slice ::
  "('a) cpu_state_scheme sh4_env \<Rightarrow> (u32 \<Rightarrow> ('a) cpu_state_scheme \<Rightarrow> (u32 \<times> ('a) cpu_state_scheme) option) \<Rightarrow>
   u32 \<Rightarrow> ('a) cpu_state_scheme \<Rightarrow> (u32 \<times> ('a) cpu_state_scheme) option" where
  "sh4_run_slice env core nanosecs s = run_slice_from env core nanosecs 0 (s\<lparr>sh4_slice_cycle := 0\<rparr>)"

section \<open>The debugger's register map\<close>

text \<open>\<open>sh4_get_register\<close> returns a pointer; the model returns what it points to by name.\<close>

datatype reg_ref = Ref_r nat | Ref_bank nat | Ref_fr nat nat | Ref_pc | Ref_pr | Ref_gbr | Ref_vbr
  | Ref_mach | Ref_macl | Ref_sr | Ref_fpul | Ref_fpscr | Ref_ssr | Ref_spc

definition sh4_reg_map :: "reg_ref list" where
  "sh4_reg_map = map Ref_r [0..<16] @ [Ref_pc, Ref_pr, Ref_gbr, Ref_vbr, Ref_mach, Ref_macl, Ref_sr,
     Ref_fpul, Ref_fpscr]
     @ concat (map (\<lambda>i. [Ref_fr 0 (2 * i + 1), Ref_fr 0 (2 * i)]) [0..<8]) @ [Ref_ssr, Ref_spc]"

definition sh4_get_register :: "int \<Rightarrow> ('a) cpu_state_scheme \<Rightarrow> reg_ref option" where
  "sh4_get_register reg s =
    (if reg < 0 \<or> 94 \<le> reg then None
     else if reg < 43 then Some (sh4_reg_map ! nat reg)
     else if reg < 51 then
       (if sh4_sr s AND SR_MDRB = SR_MDRB then Some (Ref_bank (nat (reg - 43)))
        else Some (Ref_r (nat (reg - 43))))
     else if reg < 59 then
       (if sh4_sr s AND SR_MDRB = SR_MDRB then Some (Ref_r (nat (reg - 43)))
        else Some (Ref_bank (nat (reg - 43))))
     else None)"



section \<open>The register file as the program sees it\<close>

text \<open>Register \<open>i\<close> (below 8) of bank 1 or bank 0, wherever it is kept at the moment.\<close>

definition bank_reg :: "('a) sh4_registers_scheme \<Rightarrow> bool \<Rightarrow> nat \<Rightarrow> u32" where
  "bank_reg s b i = (if (sh4_sr s AND SR_MDRB = SR_MDRB) = b then sh4_r s i else sh4_r_bank s i)"

definition fpu_reg :: "('a) sh4_registers_scheme \<Rightarrow> bool \<Rightarrow> nat \<Rightarrow> u32" where
  "fpu_reg s b i = sh4_fr s (if (sh4_fpscr s AND FPSCR_FR \<noteq> 0) = b then 0 else 1) i"

definition sr_ok :: "('a) sh4_registers_scheme \<Rightarrow> bool" where
  "sr_ok s \<longleftrightarrow> sh4_sr s AND SR_MASK = sh4_sr s"

lemma intc_mask_changed_regs [simp]:
  "sh4_r (intc_mask_changed s) = sh4_r s" "sh4_r_bank (intc_mask_changed s) = sh4_r_bank s"
  "sh4_t (intc_mask_changed s) = sh4_t s" "sh4_s (intc_mask_changed s) = sh4_s s"
  "sh4_m (intc_mask_changed s) = sh4_m s" "sh4_q (intc_mask_changed s) = sh4_q s"
  "sh4_pc (intc_mask_changed s) = sh4_pc s" "sh4_spc (intc_mask_changed s) = sh4_spc s"
  "sh4_ssr (intc_mask_changed s) = sh4_ssr s" "sh4_sgr (intc_mask_changed s) = sh4_sgr s"
  "sh4_new_pc (intc_mask_changed s) = sh4_new_pc s" "sh4_vbr (intc_mask_changed s) = sh4_vbr s"
  "sh4_fpscr (intc_mask_changed s) = sh4_fpscr s" "intc_state.more (intc_mask_changed s) = intc_state.more s"
  by (simp_all add: intc_mask_changed_def Let_def sh4_set_event_pending_def)

lemma sh4_write_sr_sel [simp]:
  "sh4_sr (sh4_write_sr v s) = v AND SR_MASK"
  "sh4_t (sh4_write_sr v s) = b2w (v AND SR_T \<noteq> 0)" "sh4_s (sh4_write_sr v s) = b2w (v AND SR_S \<noteq> 0)"
  "sh4_m (sh4_write_sr v s) = b2w (v AND SR_M \<noteq> 0)" "sh4_q (sh4_write_sr v s) = b2w (v AND SR_Q \<noteq> 0)"
  "sh4_pc (sh4_write_sr v s) = sh4_pc s" "sh4_spc (sh4_write_sr v s) = sh4_spc s"
  "sh4_ssr (sh4_write_sr v s) = sh4_ssr s" "sh4_sgr (sh4_write_sr v s) = sh4_sgr s"
  "sh4_new_pc (sh4_write_sr v s) = sh4_new_pc s" "sh4_vbr (sh4_write_sr v s) = sh4_vbr s"
  "sh4_fpscr (sh4_write_sr v s) = sh4_fpscr s" "num_pending (sh4_write_sr v s) = num_pending s"
  "8 \<le> i \<Longrightarrow> sh4_r (sh4_write_sr v s) i = sh4_r s i"
  "intc_state.more (sh4_write_sr v s) = intc_state.more s" "event_head (sh4_write_sr v s) = event_head s"
  "pending (sh4_write_sr v s) = pending s" "priority (sh4_write_sr v s) = priority s"
  "eq_events (sh4_write_sr v s) = eq_events s" "long_event_head (sh4_write_sr v s) = long_event_head s"
  by (simp_all add: sh4_write_sr_def Let_def sh4_switch_banks_def)

lemma mask_mdrb: "(v AND SR_MASK) AND SR_MDRB = v AND SR_MDRB"
  by (simp add: sh4_bits and.assoc)

lemma bank_reg_write_sr: "i < 8 \<Longrightarrow> bank_reg (sh4_write_sr v s) b i = bank_reg s b i"
  by (auto simp: bank_reg_def sh4_write_sr_def Let_def sh4_switch_banks_def mask_mdrb)

lemma mqst_bits:
  "((((v AND SR_MASK) AND SR_MQSTMASK OR (v AND SR_T)) OR (v AND SR_S)) OR (v AND SR_M)) OR (v AND SR_Q) = v AND SR_MASK"
proof -
  have "(SR_MASK AND SR_MQSTMASK) OR SR_T OR SR_S OR SR_M OR SR_Q = SR_MASK" by (simp add: sh4_bits)
  then have "v AND ((SR_MASK AND SR_MQSTMASK) OR SR_T OR SR_S OR SR_M OR SR_Q) = v AND SR_MASK" by (simp only:)
  then show ?thesis by (simp only: bit.conj_disj_distrib and.assoc or.assoc)
qed

lemma or_bit_if:
  "m = 2 ^ k \<Longrightarrow> k < 32 \<Longrightarrow> (if (v :: u32) AND m \<noteq> 0 then x OR m else x) = x OR (v AND m)"
  by (simp add: and_exp_eq_0_iff_not_bit bit_word_eqI) (auto intro!: bit_word_eqI simp: bit_simps)

lemma flag_powers: "SR_T = 2 ^ 0" "SR_S = 2 ^ 1" "SR_M = 2 ^ 9" "SR_Q = 2 ^ 8"
  by (simp_all add: sh4_bits)

lemma read_write_sr: "fst (sh4_read_sr (sh4_write_sr v s)) = v AND SR_MASK"
proof -
  have "(if v AND SR_T \<noteq> 0 then x OR SR_T else x) = x OR (v AND SR_T)"
    "(if v AND SR_S \<noteq> 0 then x OR SR_S else x) = x OR (v AND SR_S)"
    "(if v AND SR_M \<noteq> 0 then x OR SR_M else x) = x OR (v AND SR_M)"
    "(if v AND SR_Q \<noteq> 0 then x OR SR_Q else x) = x OR (v AND SR_Q)" for x
    by (rule or_bit_if [OF flag_powers(1)] or_bit_if [OF flag_powers(2)] or_bit_if [OF flag_powers(3)]
      or_bit_if [OF flag_powers(4)], simp)+
  then show ?thesis
    by (simp add: sh4_read_sr_def Let_def mqst_bits)
qed


section \<open>Exception entry\<close>

lemma sr_masks: "(v AND SR_MASK OR SR_MD OR SR_BL OR SR_RB) AND SR_MASK = v AND SR_MASK OR SR_MD OR SR_BL OR SR_RB"
  "(x OR SR_MD OR SR_BL OR SR_RB) AND SR_BL \<noteq> 0" "(x OR SR_MD OR SR_BL OR SR_RB) AND SR_MDRB = SR_MDRB"
  by (simp_all add: sh4_bits bit.conj_disj_distrib2 and.assoc)
    (simp_all add: bit.disj_conj_distrib2 or.assoc)?

lemma enter_exception_sel:
  fixes s :: "('a) cpu_state_scheme"
  defines "sr \<equiv> fst (sh4_read_sr s)"
  shows "sh4_spc (enter_exception tgt s) = sh4_pc s" "sh4_ssr (enter_exception tgt s) = sr"
    "sh4_sgr (enter_exception tgt s) = sh4_r s 15" "sh4_pc (enter_exception tgt s) = tgt"
    "sh4_new_pc (enter_exception tgt s) = tgt + 2" "sh4_in_delay_slot (enter_exception tgt s) = 0"
    "sh4_sr (enter_exception tgt s) = (sr OR SR_MD OR SR_BL OR SR_RB) AND SR_MASK"
    "sh4_vbr (enter_exception tgt s) = sh4_vbr s" "num_pending (enter_exception tgt s) = num_pending s"
    "intc_state.more (enter_exception tgt s) = intc_state.more s"
    "8 \<le> i \<Longrightarrow> sh4_r (enter_exception tgt s) i = sh4_r s i"
  by (simp_all add: enter_exception_def sr_def Let_def sh4_read_sr_def split_def)

lemma mmio_MMU_kept [simp]:
  "mmio_MMU (intc_mask_changed s) = mmio_MMU s" "mmio_MMU (sh4_write_sr v s) = mmio_MMU s"
  "mmio_MMU (enter_exception tgt s) = mmio_MMU s"
  by (simp_all add: intc_mask_changed_def Let_def sh4_set_event_pending_def sh4_write_sr_def sh4_switch_banks_def
    enter_exception_def sh4_read_sr_def)

text \<open>Reading SR does not change which bank is selected.\<close>

lemma read_sr_mdrb: "fst (sh4_read_sr s) AND SR_MDRB = sh4_sr s AND SR_MDRB"
  by (auto simp: sh4_read_sr_def Let_def bit.conj_disj_distrib2 sh4_bits and.assoc)

lemma bank_reg_read_sr: "bank_reg (snd (sh4_read_sr s)) = bank_reg s"
  using read_sr_mdrb [of s] by (simp add: bank_reg_def sh4_read_sr_def Let_def fun_eq_iff)

lemma bank_reg_cong:
  "sh4_sr s' = sh4_sr s \<Longrightarrow> sh4_r s' = sh4_r s \<Longrightarrow> sh4_r_bank s' = sh4_r_bank s \<Longrightarrow> bank_reg s' = bank_reg s"
  by (simp add: bank_reg_def fun_eq_iff)

lemma bank_reg_enter_exception: "i < 8 \<Longrightarrow> bank_reg (enter_exception tgt s) b i = bank_reg s b i"
proof -
  assume i: "i < 8"
  let ?s1 = "s\<lparr>sh4_spc := sh4_pc s\<rparr>"
  let ?s3 = "(snd (sh4_read_sr ?s1))\<lparr>sh4_ssr := fst (sh4_read_sr ?s1), sh4_sgr := sh4_r (snd (sh4_read_sr ?s1)) 15,
    sh4_pc := tgt, sh4_new_pc := tgt + 2\<rparr>"
  have "bank_reg (enter_exception tgt s) b i = bank_reg (sh4_write_sr (sh4_ssr ?s3 OR SR_MD OR SR_BL OR SR_RB) ?s3) b i"
    by (rule fun_cong [OF fun_cong [OF bank_reg_cong]]) (simp_all add: enter_exception_def Let_def split_def)
  also have "\<dots> = bank_reg ?s3 b i" by (rule bank_reg_write_sr [OF i])
  also have "bank_reg ?s3 = bank_reg (snd (sh4_read_sr ?s1))" by (rule bank_reg_cong) simp_all
  also have "\<dots> = bank_reg s" unfolding bank_reg_read_sr by (rule bank_reg_cong) simp_all
  finally show ?thesis .
qed

lemma no_irq_blocked: "irq_ok s \<Longrightarrow> sh4_sr s AND SR_BL \<noteq> 0 \<Longrightarrow> sh4_event_types s AND PENDING_IRQ = 0"
  by (simp add: irq_ok_def irq_wanted_def)

lemma enter_exception_irq_ok: "irq_ok (enter_exception tgt s)"
proof -
  have "irq_ok (sh4_write_sr v t)" for v and t :: "'a cpu_state_scheme"
    by (simp add: sh4_write_sr_def Let_def intc_mask_changed_ok)
  then show ?thesis
    by (simp add: enter_exception_def Let_def split_def irq_ok_def irq_wanted_def SH4_INTMASK_def)
qed

section \<open>The interrupt invariant during event execution\<close>

definition irq_inv :: "('a) intc_state_scheme \<Rightarrow> bool" where
  "irq_inv s \<longleftrightarrow> intc_ordered s \<and> irq_ok s"

lemma irq_inv_eq_only: "eq_only s s' \<Longrightarrow> irq_inv s \<Longrightarrow> irq_inv s'"
proof -
  assume e: "eq_only s s'" and i: "irq_inv s"
  note Q = queue_fields_intc [OF e]
  have "intc_ordered s' = intc_ordered s" by (rule intc_ordered_cong) (simp_all add: Q)
  moreover have "irq_wanted s' = irq_wanted s" by (simp add: irq_wanted_def SH4_INTMASK_def Q)
  moreover have "irq_kept s s'" using e by (simp add: eq_only_def)
  ultimately show ?thesis using i by (auto simp: irq_inv_def irq_ok_def irq_kept_def)
qed

lemma irq_inv_pop: "irq_inv s \<Longrightarrow> irq_inv (event_pop e s)"
  unfolding event_pop_def
  by (rule irq_inv_eq_only [OF eq_only_upd(1)], rule irq_inv_eq_only [OF eq_only_upd(2)])

text \<open>What the callbacks of the events promise.\<close>

definition events_ok :: "('a) cpu_state_scheme sh4_env \<Rightarrow> bool" where
  "events_ok env \<longleftrightarrow> handler_ok (env_event env) \<and>
     (\<forall>f i s s'. irq_inv s \<longrightarrow> env_event env f i s = Some s' \<longrightarrow> irq_inv s')"

lemma event_execute_sys:
  assumes "events_ok env" "eq_view s xs ys" "irq_inv s"
  shows "\<exists>s' xs' ys'. event_execute (env_event env) s = Some s' \<and> eq_view s' xs' ys' \<and> pending_ok s' \<and>
    due s' = {} \<and> sh4_slice_cycle s' = sh4_slice_cycle s \<and> irq_inv s'"
proof -
  obtain s' xs' ys' where s': "event_execute (env_event env) s = Some s'" "eq_view s' xs' ys'" "pending_ok s'"
    "due s' = {}" "sh4_slice_cycle s' = sh4_slice_cycle s"
    using event_execute_view [OF assms(2)] assms(1) unfolding events_ok_def by blast
  then obtain s1 where s1: "execute_loop (env_event env) s = Some s1" "s' = event_update_pending s1"
    by (auto simp: event_execute_def)
  have "irq_inv s1"
    using execute_loop_inv [of irq_inv, OF irq_inv_pop _ s1(1) assms(3)] assms(1) unfolding events_ok_def by blast
  then have "irq_inv s'" unfolding s1(2) by (rule irq_inv_eq_only [OF eq_only_upd(5)])
  with s' show ?thesis by blast
qed

lemma slice_update_inv [simp]:
  "eq_view (s\<lparr>sh4_slice_cycle := c\<rparr>) xs ys = eq_view s xs ys"
  "pending_ok (s\<lparr>sh4_slice_cycle := c\<rparr>) = pending_ok s"
  "eq_view (s\<lparr>sh4_state := w\<rparr>) xs ys = eq_view s xs ys" "pending_ok (s\<lparr>sh4_state := w\<rparr>) = pending_ok s"
  by (simp_all add: eq_view_def pending_ok_def event_get_next_time_def cong: option.case_cong)

lemma slice_update_irq [simp]:
  "irq_inv (s\<lparr>sh4_slice_cycle := c\<rparr>) = irq_inv s" "irq_inv (s\<lparr>sh4_state := w\<rparr>) = irq_inv s"
  by (simp_all add: irq_inv_def intc_ordered_def pend_set_def irq_ok_def irq_wanted_def SH4_INTMASK_def beats_def)

lemma next_time_after_due:
  assumes "eq_view s xs ys" "due s = {}" "pending_ok s" "sh4_event_types s AND PENDING_IRQ = 0"
    "sh4_slice_cycle s < n"
  shows "sh4_slice_cycle s < sh4_event_pending s"
proof (cases xs)
  case Nil
  with assms(1) have "event_head s = None" by (simp add: eq_view_def)
  with assms(3,4) have p: "sh4_event_pending s = NOT_SCHEDULED"
    by (simp add: pending_ok_def event_get_next_time_def)
  have max: "NOT_SCHEDULED = - 1" by (simp add: NOT_SCHEDULED_def)
  have "n \<le> - 1" by simp
  with assms(5) show ?thesis unfolding p max by (rule less_le_trans)
next
  case (Cons h t)
  then have "event_head s = Some h" "h \<in> set xs" using assms(1) by (auto simp: eq_view_def)
  then show ?thesis
    using assms(2-4) due_view [OF assms(1)] by (auto simp: pending_ok_def event_get_next_time_def not_le)
qed

lemma sleep_loop_view:
  assumes ok: "events_ok env"
  shows "eq_view s xs ys \<Longrightarrow> pending_ok s \<Longrightarrow> irq_inv s \<Longrightarrow>
    \<exists>s' xs' ys'. sleep_loop env n s = Some s' \<and> eq_view s' xs' ys' \<and> pending_ok s' \<and> irq_inv s' \<and>
      (sh4_state s' = SH4_STATE_RUNNING \<and> sh4_event_types s' AND PENDING_IRQ \<noteq> 0 \<or>
       n \<le> sh4_slice_cycle s' \<and> n \<le> sh4_event_pending s')"
proof (induction "unat n - unat (sh4_event_pending s)" arbitrary: s xs ys rule: less_induct)
  case less
  show ?case
  proof (cases "sh4_event_pending s < n")
    case False
    let ?s' = "if sh4_slice_cycle s < n then s\<lparr>sh4_slice_cycle := n\<rparr> else s"
    have "sleep_loop env n s = Some ?s'"
      using False by (subst sleep_loop.simps) simp
    moreover have "eq_view ?s' xs ys" "pending_ok ?s'" "irq_inv ?s'" "n \<le> sh4_slice_cycle ?s'"
      "n \<le> sh4_event_pending ?s'"
      using False less.prems by (simp_all add: not_less)
    ultimately show ?thesis by blast
  next
    case True
    let ?s1 = "s\<lparr>sh4_slice_cycle := sh4_event_pending s\<rparr>"
    have "eq_view ?s1 xs ys" "pending_ok ?s1" "irq_inv ?s1" using less.prems by simp_all
    obtain s2 xs2 ys2 where s2: "(if sh4_event_types ?s1 AND PENDING_EVENT \<noteq> 0
        then event_execute (env_event env) ?s1 else Some ?s1) = Some s2"
      "eq_view s2 xs2 ys2" "pending_ok s2" "irq_inv s2" "due s2 = {}" "sh4_slice_cycle s2 = sh4_event_pending s"
    proof (cases "sh4_event_types ?s1 AND PENDING_EVENT \<noteq> 0")
      case True
      then show ?thesis
        using event_execute_sys [OF ok, of ?s1] less.prems that by fastforce
    next
      case False
      then have "event_head ?s1 = None" using less.prems(2) by (simp add: pending_ok_def)
      then have "due ?s1 = {}" using less.prems(1) by (intro due_empty [of ?s1 xs ys]) simp_all
      with False show ?thesis using less.prems by (intro that [of ?s1 xs ys]) simp_all
    qed
    show ?thesis
    proof (cases "sh4_event_types s2 AND PENDING_IRQ \<noteq> 0")
      case irq: True
      then have "sleep_loop env n s = Some (sh4_wakeup s2)"
        using True s2(1) by (subst sleep_loop.simps) (simp add: Let_def)
      with irq s2 show ?thesis
        by (intro exI [of _ "sh4_wakeup s2"] exI [of _ xs2] exI [of _ ys2]) (simp add: sh4_wakeup_def)
    next
      case no_irq: False
      then have step: "sleep_loop env n s = sleep_loop env n s2"
        using True s2(1) by (subst sleep_loop.simps) (simp add: Let_def)
      have "sh4_event_pending s < sh4_event_pending s2"
        using next_time_after_due [OF s2(2,5,3), of n] no_irq s2(6) True by simp
      then have "unat n - unat (sh4_event_pending s2) < unat n - unat (sh4_event_pending s)"
        using True by (simp add: word_less_nat_alt)
      from less.hyps [OF this s2(2,3,4)] step show ?thesis by simp
    qed
  qed
qed


section \<open>Breakpoints as a list\<close>

definition bp_list :: "('a) cpu_state_scheme \<Rightarrow> breakpoint_struct list" where
  "bp_list s = map (sh4_breakpoints s) [0..<sh4_breakpoint_count s]"

definition bp_frame :: "('a) cpu_state_scheme sh4_env \<Rightarrow> bool" where
  "bp_frame env \<longleftrightarrow> (\<forall>pc s. sh4_breakpoints (env_xlat_invalidate env pc s) = sh4_breakpoints s \<and>
     sh4_breakpoint_count (env_xlat_invalidate env pc s) = sh4_breakpoint_count s)"

lemma set_breakpoint_list:
  "bp_frame env \<Longrightarrow> bp_list (sh4_set_breakpoint env pc kind s) = bp_list s @ [\<lparr>bp_address = pc, bp_type = kind\<rparr>]"
  by (simp add: sh4_set_breakpoint_def Let_def bp_list_def bp_frame_def)

lemma clear_breakpoint_list:
  assumes "bp_frame env"
  shows "fst (sh4_clear_breakpoint env pc kind s) \<longleftrightarrow> \<lparr>bp_address = pc, bp_type = kind\<rparr> \<in> set (bp_list s)"
    "bp_list (snd (sh4_clear_breakpoint env pc kind s)) = remove1 \<lparr>bp_address = pc, bp_type = kind\<rparr> (bp_list s)"
  using assms table_clear [where bp = "sh4_breakpoints s" and n = "sh4_breakpoint_count s" and pc = pc and kind = kind]
  by (simp_all add: sh4_clear_breakpoint_def Let_def bp_list_def bp_frame_def remove1_idem split: option.split)


lemma sh4_table:
  assumes "bp_frame env"
  shows "breakpoint_table bp_list (sh4_set_breakpoint env) (sh4_clear_breakpoint env) sh4_get_breakpoint"
proof
  fix pc kind :: u32 and s
  show "bp_list (sh4_set_breakpoint env pc kind s) = bp_list s @ [\<lparr>bp_address = pc, bp_type = kind\<rparr>]"
    by (rule set_breakpoint_list [OF assms])
  show "fst (sh4_clear_breakpoint env pc kind s) \<longleftrightarrow> \<lparr>bp_address = pc, bp_type = kind\<rparr> \<in> set (bp_list s)"
    "bp_list (snd (sh4_clear_breakpoint env pc kind s)) = remove1 \<lparr>bp_address = pc, bp_type = kind\<rparr> (bp_list s)"
    by (rule clear_breakpoint_list [OF assms])+
  show "sh4_get_breakpoint pc s = (case find (\<lambda>b. bp_address b = pc) (bp_list s) of None \<Rightarrow> 0 | Some b \<Rightarrow> bp_type b)"
    by (simp add: sh4_get_breakpoint_def bp_list_def find_breakpoint_type)
qed

section \<open>Properties\<close>

text \<open>A machine on which the witnesses run: nothing queued, nothing pending, interrupts unmasked.\<close>

definition blank_cpu :: "unit cpu_state_scheme" where
  "blank_cpu = blank_intc (tmu_state_ext (\<lambda>_. 0) (\<lambda>_. 0) (\<lambda>_. 0)
     (\<lambda>_. \<lparr>timer_period = 80, timer_remainder = 0, timer_run = 0\<rparr>) 0 200 100 50 5 10 20
     (cpu_state_ext (\<lambda>_. 0) (\<lambda>_. \<lparr>bp_address = 0, bp_type = 0\<rparr>) 0 False False False 0 ()))"

definition blank_env :: "unit cpu_state_scheme sh4_env" where
  "blank_env = \<lparr>env_SCIF_reset = id, env_MMU_reset = id, env_CCN_reset = id, env_PMM_reset = id,
     env_SCIF_speed = id, env_SCIF_run_slice = (\<lambda>_. id), env_PMM_run_slice = (\<lambda>_. id), env_xlat_flush = id,
     env_xlat_invalidate = (\<lambda>_. id), env_dreamcast_stop = id,
     env_dreamcast_reset = (\<lambda>s. s\<lparr>sh4_state := SH4_STATE_RUNNING\<rparr>), env_event = (\<lambda>_ _ s. Some s)\<rparr>"

lemma blank_cpu_inv: "irq_inv blank_cpu" "eq_view blank_cpu [] []" "pending_ok blank_cpu" "intc_inv blank_cpu"
proof -
  show i: "intc_inv blank_cpu" and "eq_view blank_cpu [] []" unfolding blank_cpu_def by (rule blank_intc_inv)+
  then show "irq_inv blank_cpu" "pending_ok blank_cpu" by (simp_all add: intc_inv_def irq_inv_def)
qed

lemma blank_cpu_sel [simp]:
  "sh4_sr blank_cpu = 0x60000000" "sh4_pc blank_cpu = 0xA0000000" "sh4_vbr blank_cpu = 0" "sh4_r blank_cpu = (\<lambda>_. 0)"
  "sh4_breakpoint_count blank_cpu = 0" "sh4_event_types blank_cpu = 0" "sh4_event_pending blank_cpu = NOT_SCHEDULED"
  "sh4_use_translator blank_cpu = False"
  by (simp_all add: blank_cpu_def blank_intc_def INTC_reset_def Let_def sh4_set_event_pending_def blank_eventq_def
    event_init_def blank_sh4_def event_get_next_time_def)

lemma blank_env_ok: "events_ok blank_env" "bp_frame blank_env"
  by (auto simp: events_ok_def handler_ok_def blank_env_def bp_frame_def)

text \<open>
  C12: Writing SR never loses a register: whatever the old and the new mode and bank, both
  banks of R0 to R7 and R8 to R15 keep their contents, R0 to R7 afterwards show the bank that the
  new value selects, and reading SR gives back the written value less its reserved bits.
\<close>

theorem sh4_write_sr_banks:
  assumes "i < 8"
  shows "bank_reg (sh4_write_sr v s) b i = bank_reg s b i \<and>
    sh4_r (sh4_write_sr v s) i = bank_reg s (v AND SR_MDRB = SR_MDRB) i \<and>
    sh4_r (sh4_write_sr v s) (i + 8) = sh4_r s (i + 8) \<and>
    fst (sh4_read_sr (sh4_write_sr v s)) = v AND SR_MASK \<and> irq_ok (sh4_write_sr v s)"
proof -
  have "sh4_r (sh4_write_sr v s) i = bank_reg (sh4_write_sr v s) (v AND SR_MDRB = SR_MDRB) i"
    by (simp add: bank_reg_def mask_mdrb)
  moreover have "irq_ok (sh4_write_sr v s)" by (simp add: sh4_write_sr_def Let_def intc_mask_changed_ok)
  ultimately show ?thesis using assms by (simp add: bank_reg_write_sr read_write_sr)
qed

theorem sh4_write_sr_banks_witness:
  "bank_reg (sh4_write_sr 0x40000000 blank_cpu) True 3 = 0"
  using sh4_write_sr_banks [of 3 "0x40000000" blank_cpu True]
  by (simp add: bank_reg_def SR_MDRB_def)

text \<open>
  Writing FPSCR never loses a floating point register: both banks keep their contents
  and the FR bit of the new value selects the one that is in front.
\<close>

theorem sh4_write_fpscr_banks:
  assumes "i < 16"
  shows "fpu_reg (sh4_write_fpscr v s) b i = fpu_reg s b i \<and> sh4_fpscr (sh4_write_fpscr v s) = v AND FPSCR_MASK \<and>
    sh4_fr (sh4_write_fpscr v s) 0 i = fpu_reg s (v AND FPSCR_FR \<noteq> 0) i"
proof -
  have m: "(v AND FPSCR_MASK) AND FPSCR_FR = v AND FPSCR_FR" for v
    by (simp add: FPSCR_MASK_def FPSCR_FR_def and.assoc)
  have x: "(a XOR v) AND FPSCR_FR \<noteq> 0 \<longleftrightarrow> (a AND FPSCR_FR \<noteq> 0) \<noteq> (v AND FPSCR_FR \<noteq> 0)" for a v :: u32
  proof -
    have fr: "FPSCR_FR = 2 ^ 21" by (simp add: FPSCR_FR_def)
    have "w AND FPSCR_FR = 0 \<longleftrightarrow> \<not> bit w 21" for w :: u32
      unfolding fr by (rule and_exp_eq_0_iff_not_bit)
    then show ?thesis by (simp add: bit_simps)
  qed
  show ?thesis
    using assms by (auto simp: fpu_reg_def sh4_write_fpscr_def Let_def x m sh4_switch_fr_banks_def)
qed

theorem sh4_write_fpscr_banks_witness:
  "fpu_reg (sh4_write_fpscr 0x00200000 blank_cpu) False 3 = fpu_reg blank_cpu False 3"
  using sh4_write_fpscr_banks [of 3 "0x00200000" blank_cpu False] by simp

text \<open>
  C13: Raising an exception outside an exception saves the program counter, the status
  register with its current T, S, M and Q flags and R15, enters privileged mode with
  interrupts blocked at the exception vector, and loses no register; writing the saved
  status back restores the status register and all sixteen registers.
\<close>

theorem sh4_raise_exception_entry:
  fixes env :: "('a) cpu_state_scheme sh4_env" and code :: u32
  assumes "sh4_sr s AND SR_BL = 0" "sh4_sr s AND SR_MASK = sh4_sr s"
  defines "s' \<equiv> sh4_raise_exception env code s"
  shows "sh4_spc s' = sh4_pc s \<and> sh4_ssr s' = fst (sh4_read_sr s) \<and> sh4_sgr s' = sh4_r s 15 \<and>
    sh4_pc s' = sh4_vbr s + 0x100 \<and> sh4_sr s' AND SR_BL \<noteq> 0 \<and> sh4_sr s' AND SR_MDRB = SR_MDRB \<and>
    ld32 (mmio_MMU s') EXPEVT = code \<and> sh4_event_types s' AND PENDING_IRQ = 0 \<and>
    fst (sh4_read_sr (sh4_write_sr (sh4_ssr s') s')) = fst (sh4_read_sr s) \<and>
    (\<forall>i<16. sh4_r (sh4_write_sr (sh4_ssr s') s') i = sh4_r s i)"
proof -
  let ?m = "MMU_write EXPEVT code s"
  have s': "s' = enter_exception (sh4_vbr s + EXV_EXCEPTION) ?m"
    using assms(1) by (simp add: s'_def sh4_raise_exception_def)
  have m: "sh4_read_sr ?m = (fst (sh4_read_sr s), ?m\<lparr>sh4_sr := fst (sh4_read_sr s)\<rparr>)"
    "sh4_r ?m = sh4_r s" "sh4_pc ?m = sh4_pc s" "bank_reg ?m = bank_reg s"
    by (simp_all add: MMU_write_def sh4_read_sr_def Let_def bank_reg_def fun_eq_iff)
  have srm: "fst (sh4_read_sr s) AND SR_MASK = fst (sh4_read_sr s)"
  proof -
    have "fst (sh4_read_sr s) AND SR_MASK = fst (sh4_read_sr (s\<lparr>sh4_sr := sh4_sr s AND SR_MASK\<rparr>))"
      by (simp add: sh4_read_sr_def Let_def bit.conj_disj_distrib2 and.assoc)
        (simp add: sh4_bits and.commute and.left_commute)
    then show ?thesis using assms(2) by (simp add: sh4_read_sr_def)
  qed
  have mdrb: "(fst (sh4_read_sr s) AND SR_MDRB = SR_MDRB) = (sh4_sr s AND SR_MDRB = SR_MDRB)"
    by (simp add: read_sr_mdrb)
  have restored: "sh4_r (sh4_write_sr (sh4_ssr s') s') i = sh4_r s i" if "i < 16" for i
  proof (cases "i < 8")
    case True
    have "sh4_r (sh4_write_sr (sh4_ssr s') s') i =
      bank_reg (sh4_write_sr (sh4_ssr s') s') (sh4_ssr s' AND SR_MDRB = SR_MDRB) i"
      by (simp add: bank_reg_def mask_mdrb)
    also have "\<dots> = bank_reg s (sh4_sr s AND SR_MDRB = SR_MDRB) i"
      using True by (simp add: bank_reg_write_sr s' bank_reg_enter_exception m enter_exception_sel mdrb)
    also have "\<dots> = sh4_r s i" by (simp add: bank_reg_def)
    finally show ?thesis .
  next
    case False
    then show ?thesis by (simp add: s' enter_exception_sel m)
  qed
  have sr: "sh4_sr s' = fst (sh4_read_sr s) OR SR_MD OR SR_BL OR SR_RB"
    using sr_masks(1) [of "fst (sh4_read_sr s)"] srm by (simp add: s' enter_exception_sel m)
  have "sh4_event_types s' AND PENDING_IRQ = 0"
    using enter_exception_irq_ok sr_masks(2) by (intro no_irq_blocked) (simp_all add: s' sr [unfolded s'])
  moreover have "mmio_MMU s' = mmio_MMU ?m"
    unfolding s' by (rule mmio_MMU_kept(3))
  moreover have "ld32 (mmio_MMU ?m) EXPEVT = code" by (simp add: MMU_write_def)
  ultimately show ?thesis
    using restored sr_masks(2,3) by (simp add: sr read_write_sr)
      (simp add: s' enter_exception_sel m srm EXV_EXCEPTION_def)
qed

theorem sh4_raise_exception_entry_witness:
  "sh4_pc (sh4_raise_exception blank_env 0x180 blank_cpu) = 0x100 \<and>
   sh4_spc (sh4_raise_exception blank_env 0x180 blank_cpu) = 0xA0000000"
  using sh4_raise_exception_entry [of blank_cpu blank_env "0x180"] by (simp add: SR_BL_def SR_MASK_def)








text \<open>
  The debugger reads bank-0 registers correctly, but for the eight bank-1 registers
  (numbers 51 to 58) the index is not rebased: with bank 1 in front it names R8 to R15, and
  otherwise an element beyond the eight of the bank array.
\<close>

theorem sh4_get_register_banks:
  assumes "i < 8"
  shows "sh4_get_register (43 + int i) s =
      Some (if sh4_sr s AND SR_MDRB = SR_MDRB then Ref_bank i else Ref_r i) \<and>
    sh4_get_register (51 + int i) s =
      Some (if sh4_sr s AND SR_MDRB = SR_MDRB then Ref_r (i + 8) else Ref_bank (i + 8))"
  using assms by (auto simp: sh4_get_register_def nat_add_distrib)

theorem sh4_get_register_banks_witness:
  "sh4_get_register 51 blank_cpu = Some (Ref_r 8)"
  using sh4_get_register_banks [of 0 blank_cpu] by (simp add: SR_MDRB_def)

text \<open>
  \<open>signsat48\<close> clamps the accumulator to the range of a signed 48-bit number.
\<close>

theorem signsat48_clamps:
  "sint (sh4_mac (signsat48 s)) = max (- (2 ^ 47)) (min (2 ^ 47 - 1) (sint (sh4_mac s)))"
proof -
  have "sint (0xFFFF800000000000 :: u64) = - (2 ^ 47)" "sint (0x00007FFFFFFFFFFF :: u64) = 2 ^ 47 - 1"
    by simp_all
  then show ?thesis by (simp add: signsat48_def)
qed

text \<open>
  A halt request while the CPU is in standby does not stop the emulation: the case falls
  through to the system reset, and the slice goes on with the machine reset.
\<close>

theorem sh4_halt_in_standby_resets:
  assumes "sh4_state s = SH4_STATE_STANDBY" "sh4_state (env_dreamcast_reset env s) = SH4_STATE_RUNNING"
    and "core n ((env_dreamcast_reset env s)\<lparr>sh4_running := True\<rparr>) = Some (0, s')"
  shows "run_slice_from env core n CORE_EXIT_HALT s = map_option (Pair n) (finish_slice env n s')"
  using assms by (subst run_slice_from.simps)
    (simp add: slice_exit_def Let_def CORE_EXIT_HALT_def CORE_EXIT_BREAKPOINT_def)

theorem sh4_halt_in_standby_resets_witness:
  "run_slice_from blank_env (\<lambda>n s. Some (0, s)) 1000 CORE_EXIT_HALT (blank_cpu\<lparr>sh4_state := SH4_STATE_STANDBY\<rparr>) =
   map_option (Pair 1000) (finish_slice blank_env 1000 (blank_cpu\<lparr>sh4_state := SH4_STATE_RUNNING, sh4_running := True\<rparr>))"
  using sh4_halt_in_standby_resets [of "blank_cpu\<lparr>sh4_state := SH4_STATE_STANDBY\<rparr>" blank_env "\<lambda>n s. Some (0, s)" 1000]
  by (simp add: blank_env_def)

end
