(* ===== verification/Asic.thy ===== *)
theory Asic
  imports Sh4Cpu
begin

unbundle bit_operations_syntax

text \<open>
  The event multiplexer of the system chip, \<open>asic.c\<close>: the pending and mask registers of
  the events, the three interrupt lines that they drive, the status bits of the G2 bus, and
  the register page \<open>ASIC\<close> with the transfers it starts. The external DMA page is in
  \<open>ExtDma\<close>.
\<close>

section \<open>State\<close>

text \<open>The timers of \<open>struct asic_g2_state\<close> are C integers, read as signed where the code does.\<close>

record asic_state = cpu_state +
  mmio_ASIC :: mem
  mmio_EXTDMA :: mem
  bit5_off_timer :: u32
  bit4_on_timer :: u32
  bit4_off_timer :: u32
  bit0_on_timer :: u32
  bit0_off_timer :: u32

definition PVRDMADEST :: u32 where "PVRDMADEST = 0x800"
definition PVRDMACNT :: u32 where "PVRDMACNT = 0x804"
definition PVRDMACTL :: u32 where "PVRDMACTL = 0x808"
definition SORTDMATBL :: u32 where "SORTDMATBL = 0x810"
definition SORTDMADATA :: u32 where "SORTDMADATA = 0x814"
definition SORTDMATSIZ :: u32 where "SORTDMATSIZ = 0x818"
definition SORTDMAASIZ :: u32 where "SORTDMAASIZ = 0x81C"
definition SORTDMACTL :: u32 where "SORTDMACTL = 0x820"
definition SORTDMACNT :: u32 where "SORTDMACNT = 0x860"
definition G2STATUS :: u32 where "G2STATUS = 0x88C"
definition SYSRESET :: u32 where "SYSRESET = 0x890"
definition PIRQ0 :: u32 where "PIRQ0 = 0x900"
definition PIRQ1 :: u32 where "PIRQ1 = 0x904"
definition PIRQ2 :: u32 where "PIRQ2 = 0x908"
definition IRQA0 :: u32 where "IRQA0 = 0x910"
definition IRQA1 :: u32 where "IRQA1 = 0x914"
definition IRQA2 :: u32 where "IRQA2 = 0x918"
definition IRQB0 :: u32 where "IRQB0 = 0x920"
definition IRQB1 :: u32 where "IRQB1 = 0x924"
definition IRQB2 :: u32 where "IRQB2 = 0x928"
definition IRQC0 :: u32 where "IRQC0 = 0x930"
definition IRQC1 :: u32 where "IRQC1 = 0x934"
definition IRQC2 :: u32 where "IRQC2 = 0x938"
definition MAPLE_DMA :: u32 where "MAPLE_DMA = 0xC04"
definition MAPLE_STATE :: u32 where "MAPLE_STATE = 0xC18"

lemmas asic_reg_defs = PVRDMADEST_def PVRDMACNT_def PVRDMACTL_def SORTDMATBL_def SORTDMADATA_def SORTDMATSIZ_def
  SORTDMAASIZ_def SORTDMACTL_def SORTDMACNT_def G2STATUS_def SYSRESET_def PIRQ0_def PIRQ1_def PIRQ2_def
  IRQA0_def IRQA1_def IRQA2_def IRQB0_def IRQB1_def IRQB2_def IRQC0_def IRQC1_def IRQC2_def
  MAPLE_DMA_def MAPLE_STATE_def

definition EVENT_PVR_DMA :: nat where "EVENT_PVR_DMA = 19"
definition EVENT_SORT_DMA :: nat where "EVENT_SORT_DMA = 20"
definition EVENT_SORT_DMA_ERR :: nat where "EVENT_SORT_DMA_ERR = 92"
definition EVENT_CASCADE1 :: nat where "EVENT_CASCADE1 = 30"
definition EVENT_CASCADE2 :: nat where "EVENT_CASCADE2 = 31"
definition EVENT_MAPLE_DMA :: nat where "EVENT_MAPLE_DMA = 12"

definition ASIC_write :: "u32 \<Rightarrow> u32 \<Rightarrow> ('a) asic_state_scheme \<Rightarrow> ('a) asic_state_scheme" where
  "ASIC_write reg v s = s\<lparr>mmio_ASIC := st32 (mmio_ASIC s) reg v\<rparr>"

definition ASIC_read :: "u32 \<Rightarrow> ('a) asic_state_scheme \<Rightarrow> u32" where
  "ASIC_read reg s = ld32 (mmio_ASIC s) reg"

section \<open>Events\<close>

text \<open>The word of an event among the three pending registers, as a byte offset.\<close>

definition event_offset :: "nat \<Rightarrow> u32" where
  "event_offset event = of_nat (drop_bit 3 (event AND 0x60))"

definition event_bit :: "nat \<Rightarrow> u32" where
  "event_bit event = push_bit (event AND 0x1F) 1"

text \<open>The body of \<open>asic_event\<close> without the cascade.\<close>

definition asic_post :: "nat \<Rightarrow> ('a) asic_state_scheme \<Rightarrow> ('a) asic_state_scheme" where
  "asic_post event s =
    (let offset = event_offset event;
         result = ASIC_read (PIRQ0 + offset) s OR event_bit event;
         s1 = ASIC_write (PIRQ0 + offset) result s;
         s2 = (if result AND ASIC_read (IRQA0 + offset) s1 \<noteq> 0 then intc_raise_interrupt INT_IRQ13 s1 else s1);
         s3 = (if result AND ASIC_read (IRQB0 + offset) s2 \<noteq> 0 then intc_raise_interrupt INT_IRQ11 s2 else s2)
     in if result AND ASIC_read (IRQC0 + offset) s3 \<noteq> 0 then intc_raise_interrupt INT_IRQ9 s3 else s3)"

fun asic_event :: "nat \<Rightarrow> ('a) asic_state_scheme \<Rightarrow> ('a) asic_state_scheme" where
  "asic_event event s =
    (if 64 \<le> event then asic_event 31 (asic_post event s)
     else if 32 \<le> event then asic_event 30 (asic_post event s)
     else asic_post event s)"

declare asic_event.simps [simp del]

definition set_of :: "u32 \<Rightarrow> ('a) asic_state_scheme \<Rightarrow> u32" where
  "set_of irq s = fold (\<lambda>i acc. acc OR (ASIC_read (PIRQ0 + i) s AND ASIC_read (irq + i) s)) [0, 4, 8] 0"

definition asic_check_cleared_events :: "('a) asic_state_scheme \<Rightarrow> ('a) asic_state_scheme" where
  "asic_check_cleared_events s =
    (let setA = set_of IRQA0 s; setB = set_of IRQB0 s; setC = set_of IRQC0 s;
         s1 = (if setA = 0 then intc_clear_interrupt INT_IRQ13 s else s);
         s2 = (if setB = 0 then intc_clear_interrupt INT_IRQ11 s1 else s1)
     in if setC = 0 then intc_clear_interrupt INT_IRQ9 s2 else s2)"

definition asic_event_mask_changed :: "('a) asic_state_scheme \<Rightarrow> ('a) asic_state_scheme" where
  "asic_event_mask_changed s =
    (let setA = set_of IRQA0 s; setB = set_of IRQB0 s; setC = set_of IRQC0 s;
         s1 = (if setA = 0 then intc_clear_interrupt INT_IRQ13 s else intc_raise_interrupt INT_IRQ13 s);
         s2 = (if setB = 0 then intc_clear_interrupt INT_IRQ11 s1 else intc_raise_interrupt INT_IRQ11 s1)
     in if setC = 0 then intc_clear_interrupt INT_IRQ9 s2 else intc_raise_interrupt INT_IRQ9 s2)"

definition asic_clear_event :: "nat \<Rightarrow> ('a) asic_state_scheme \<Rightarrow> ('a) asic_state_scheme" where
  "asic_clear_event event s =
    (let offset = event_offset event;
         result = ASIC_read (PIRQ0 + offset) s AND NOT (event_bit event);
         s1 = ASIC_write (PIRQ0 + offset) result s;
         s2 = (if result = 0 then
                 (if 64 \<le> event then ASIC_write PIRQ0 (ASIC_read PIRQ0 s1 AND 0x7FFFFFFF) s1
                  else if 32 \<le> event then ASIC_write PIRQ0 (ASIC_read PIRQ0 s1 AND 0xBFFFFFFF) s1
                  else s1)
               else s1)
     in asic_check_cleared_events s2)"

section \<open>Status of the G2 bus\<close>

definition G2_BIT5_TICKS :: u32 where "G2_BIT5_TICKS = 60"
definition G2_BIT4_TICKS :: u32 where "G2_BIT4_TICKS = 160"
definition G2_BIT0_ON_TICKS :: u32 where "G2_BIT0_ON_TICKS = 120"
definition G2_BIT0_OFF_TICKS :: u32 where "G2_BIT0_OFF_TICKS = 420"

lemmas g2_ticks = G2_BIT5_TICKS_def G2_BIT4_TICKS_def G2_BIT0_ON_TICKS_def G2_BIT0_OFF_TICKS_def

definition asic_reset :: "('a) asic_state_scheme \<Rightarrow> ('a) asic_state_scheme" where
  "asic_reset s = s\<lparr>bit5_off_timer := - 1, bit4_on_timer := - 1, bit4_off_timer := - 1,
     bit0_on_timer := - 1, bit0_off_timer := - 1\<rparr>"

definition asic_g2_write_word :: "('a) asic_state_scheme \<Rightarrow> ('a) asic_state_scheme" where
  "asic_g2_write_word s =
    (let now = sh4_slice_cycle s; past = (\<lambda>t. sint t < sint now);
         off5 = (if past (bit5_off_timer s) then now + G2_BIT5_TICKS else bit5_off_timer s + G2_BIT5_TICKS);
         on4 = (if past (bit4_on_timer s) then now + G2_BIT5_TICKS else bit4_on_timer s);
         off4 = (if past (bit4_off_timer s) then on4 + G2_BIT4_TICKS else bit4_off_timer s + G2_BIT4_TICKS);
         on0 = (if past (bit0_on_timer s) then now + G2_BIT0_ON_TICKS else bit0_on_timer s);
         off0 = (if past (bit0_off_timer s) then on0 + G2_BIT0_OFF_TICKS else bit0_off_timer s + G2_BIT0_OFF_TICKS)
     in ASIC_write G2STATUS (ASIC_read G2STATUS s OR 0x20)
          (s\<lparr>bit5_off_timer := off5, bit4_on_timer := on4, bit4_off_timer := off4,
             bit0_on_timer := on0, bit0_off_timer := off0\<rparr>))"

definition g2_update_fifo_status :: "u32 \<Rightarrow> ('a) asic_state_scheme \<Rightarrow> u32 \<times> ('a) asic_state_scheme" where
  "g2_update_fifo_status nanos s0 =
    (let v0 = ASIC_read G2STATUS s0;
         (v1, s1) = (if bit5_off_timer s0 \<le> nanos then (v0 AND NOT 0x20, s0\<lparr>bit5_off_timer := - 1\<rparr>) else (v0, s0));
         (v2, s2) = (if bit4_on_timer s1 \<le> nanos then (v1 OR 0x10, s1\<lparr>bit4_on_timer := - 1\<rparr>) else (v1, s1));
         (v3, s3) = (if bit4_off_timer s2 \<le> nanos then (v2 AND NOT 0x10, s2\<lparr>bit4_off_timer := - 1\<rparr>) else (v2, s2));
         (v4, s4) = (if bit0_on_timer s3 \<le> nanos then (v3 OR 0x01, s3\<lparr>bit0_on_timer := - 1\<rparr>) else (v3, s3));
         (v5, s5) = (if bit0_off_timer s4 \<le> nanos then (v4 AND NOT 0x01, s4\<lparr>bit0_off_timer := - 1\<rparr>) else (v4, s4))
     in (v5, ASIC_write G2STATUS v5 s5))"

definition g2_read_status :: "('a) asic_state_scheme \<Rightarrow> u32 \<times> ('a) asic_state_scheme" where
  "g2_read_status s = g2_update_fifo_status (sh4_slice_cycle s) s"

definition g2_advance :: "u32 \<Rightarrow> u32 \<Rightarrow> u32" where
  "g2_advance nanosecs t = (if sint t \<le> sint nanosecs then - 1 else t - nanosecs)"

definition asic_run_slice :: "u32 \<Rightarrow> ('a) asic_state_scheme \<Rightarrow> u32 \<times> ('a) asic_state_scheme" where
  "asic_run_slice nanosecs s0 =
    (let s = snd (g2_update_fifo_status nanosecs s0)
     in (nanosecs, s\<lparr>bit5_off_timer := g2_advance nanosecs (bit5_off_timer s),
           bit4_off_timer := g2_advance nanosecs (bit4_off_timer s),
           bit4_on_timer := g2_advance nanosecs (bit4_on_timer s),
           bit0_off_timer := g2_advance nanosecs (bit0_off_timer s),
           bit0_on_timer := g2_advance nanosecs (bit0_on_timer s)\<rparr>))"

definition asic_save_state :: "('a) asic_state_scheme \<Rightarrow> u32 list" where
  "asic_save_state s = [bit5_off_timer s, bit4_on_timer s, bit4_off_timer s, bit0_on_timer s, bit0_off_timer s]"

definition asic_load_state :: "u32 list \<Rightarrow> ('a) asic_state_scheme \<Rightarrow> ('a) asic_state_scheme option" where
  "asic_load_state f s =
    (if length f < 5 then None
     else Some (s\<lparr>bit5_off_timer := f ! 0, bit4_on_timer := f ! 1, bit4_off_timer := f ! 2,
                  bit0_on_timer := f ! 3, bit0_off_timer := f ! 4\<rparr>))"

section \<open>Transfers started from the ASIC page\<close>

text \<open>
  The other parts of the machine that the transfers call. \<open>env_mem_get_region\<close> gives the bytes
  from an address on, if it is mapped; \<open>env_find_polygon\<close> gives the words 6 and 7 of the
  polygon context that \<open>pvr2_ta_find_polygon_context\<close> finds.
\<close>

record 's asic_env =
  env_reset :: "'s \<Rightarrow> 's"
  env_maple_handle_buffer :: "u32 \<Rightarrow> 's \<Rightarrow> 's"
  env_DMAC_get_buffer :: "nat \<Rightarrow> u32 \<Rightarrow> 's \<Rightarrow> u8 list \<times> 's"
  env_pvr2_dma_write :: "u32 \<Rightarrow> u8 list \<Rightarrow> 's \<Rightarrow> 's"
  env_pvr2_ta_write :: "u8 list \<Rightarrow> 's \<Rightarrow> 's"
  env_mem_get_region :: "u32 \<Rightarrow> 's \<Rightarrow> mem option"
  env_find_polygon :: "mem \<Rightarrow> (u32 \<times> u32) option"
  env_mem_copy_from_sh4 :: "u32 \<Rightarrow> u32 \<Rightarrow> 's \<Rightarrow> u8 list"
  env_mem_copy_to_sh4 :: "u32 \<Rightarrow> u8 list \<Rightarrow> 's \<Rightarrow> 's"

lemma chunk_decreases:
  assumes "count \<noteq> (0 :: u32)"
  shows "unat (count - (if count < 8192 then count else 8192)) < unat count"
proof (cases "count < 8192")
  case True
  then show ?thesis using assms by (simp add: unat_gt_0)
next
  case False
  then have "8192 \<le> count" by simp
  then show ?thesis by (simp add: unat_sub word_le_nat_alt)
qed

text \<open>The loop of \<open>pvr_dma_transfer\<close>: the destination address at its end and the new state.\<close>

function pvr_dma_loop :: "(('a) asic_state_scheme) asic_env \<Rightarrow> u32 \<Rightarrow> u32 \<Rightarrow> ('a) asic_state_scheme \<Rightarrow>
    u32 \<times> ('a) asic_state_scheme" where
  "pvr_dma_loop env count destaddr s =
    (if count = 0 then (destaddr, s)
     else let chunksize = (if count < 8192 then count else 8192);
              (data, s1) = env_DMAC_get_buffer env 2 chunksize s;
              rcount = of_nat (length data);
              s2 = env_pvr2_dma_write env destaddr data s1
          in if rcount \<noteq> chunksize then (destaddr + rcount, s2)
             else pvr_dma_loop env (count - rcount) (destaddr + rcount) s2)"
  by pat_completeness auto

termination
  by (relation "measure (\<lambda>(env, count, destaddr, s). unat count)") (auto dest: chunk_decreases split: if_splits)

declare pvr_dma_loop.simps [simp del]

definition pvr_dma_transfer :: "(('a) asic_state_scheme) asic_env \<Rightarrow> ('a) asic_state_scheme \<Rightarrow> ('a) asic_state_scheme" where
  "pvr_dma_transfer env s =
    (let (destaddr, s1) = pvr_dma_loop env (ASIC_read PVRDMACNT s) (ASIC_read PVRDMADEST s AND 0x1FFFFFE0) s;
         s2 = ASIC_write PVRDMACNT 0 (ASIC_write PVRDMACTL 0 s1);
         s3 = (if destaddr AND 0x01000000 \<noteq> 0 then ASIC_write PVRDMADEST destaddr s2 else s2)
     in asic_event EVENT_PVR_DMA s3)"

text \<open>
  \<open>table\<close> reads the next entry of the sort table at offset \<open>t\<close>; \<open>None\<close> is the access through the
  null pointer of a table that is not mapped. The loop follows links in memory, so it may
  run for ever.
\<close>

definition sort_fetch :: "bool \<Rightarrow> mem option \<Rightarrow> u32 \<Rightarrow> (u32 \<times> u32) option" where
  "sort_fetch table_size table t =
    map_option (\<lambda>m. if table_size then (ld32 m t, t + 4) else (ld16 m t, t + 2)) table"

partial_function (option) sort_dma_loop ::
  "(('a) asic_state_scheme) asic_env \<Rightarrow> bool \<Rightarrow> nat \<Rightarrow> u32 \<Rightarrow> u32 \<Rightarrow> u32 \<Rightarrow> u32 \<Rightarrow> u32 \<Rightarrow> ('a) asic_state_scheme \<Rightarrow>
   (u32 \<times> ('a) asic_state_scheme) option" where
  "sort_dma_loop env table_size addr_shift table_addr data_addr t next0 count s =
    (let next = next0 AND 0x07FFFFFF
     in if next = 1 then
          Option.bind (sort_fetch table_size (env_mem_get_region env table_addr s) t)
            (\<lambda>(next', t'). sort_dma_loop env table_size addr_shift table_addr data_addr t' next' (count + 1) s)
        else if next = 2 then Some (count, asic_event EVENT_SORT_DMA s)
        else case env_mem_get_region env (data_addr + push_bit addr_shift next) s of
          None \<Rightarrow> Some (count, s)
        | Some data \<Rightarrow>
            (case env_find_polygon env data of
              None \<Rightarrow> Some (count, asic_event EVENT_SORT_DMA_ERR s)
            | Some (poly6, poly7) \<Rightarrow>
                let size = (if poly6 AND 0xFF = 0 then 0x100 else poly6 AND 0xFF)
                in sort_dma_loop env table_size addr_shift table_addr data_addr t poly7 count
                     (env_pvr2_ta_write env (map (\<lambda>i. data (of_nat i)) [0..<32 * unat size]) s)))"

definition sort_dma_transfer ::
  "(('a) asic_state_scheme) asic_env \<Rightarrow> ('a) asic_state_scheme \<Rightarrow> ('a) asic_state_scheme option" where
  "sort_dma_transfer env s =
    (let table_addr = ASIC_read SORTDMATBL s; data_addr = ASIC_read SORTDMADATA s;
         table_size = (ASIC_read SORTDMATSIZ s \<noteq> 0);
         addr_shift = (if ASIC_read SORTDMAASIZ s \<noteq> 0 then 5 else 0)
     in do {
       (next, t) \<leftarrow> sort_fetch table_size (env_mem_get_region env table_addr s) 0;
       (count, s1) \<leftarrow> sort_dma_loop env table_size addr_shift table_addr data_addr t next 1 s;
       Some (ASIC_write SORTDMACTL 0 (ASIC_write SORTDMACNT count s1)) })"

definition maple_set_dma_state ::
  "(('a) asic_state_scheme) asic_env \<Rightarrow> u32 \<Rightarrow> ('a) asic_state_scheme \<Rightarrow> ('a) asic_state_scheme option" where
  "maple_set_dma_state env v s =
    (let in_transfer = (ASIC_read MAPLE_STATE s AND 1 \<noteq> 0); transfer_requested = (v AND 1 \<noteq> 0)
     in do {
       s1 \<leftarrow> (if \<not> in_transfer \<and> transfer_requested
              then Some (env_maple_handle_buffer env (ASIC_read MAPLE_DMA s AND 0x1FFFFFE0) s)
              else if in_transfer \<and> \<not> transfer_requested then event_cancel EVENT_MAPLE_DMA s
              else Some s);
       Some (ASIC_write MAPLE_STATE v s1) })"

section \<open>The ASIC page\<close>

definition mmio_region_ASIC_read :: "u32 \<Rightarrow> ('a) asic_state_scheme \<Rightarrow> u32 \<times> ('a) asic_state_scheme" where
  "mmio_region_ASIC_read reg0 s =
    (let reg = reg0 AND 0xFFF
     in if reg = G2STATUS then g2_read_status s else (ASIC_read reg s, s))"

definition mmio_region_ASIC_write ::
  "(('a) asic_state_scheme) asic_env \<Rightarrow> u32 \<Rightarrow> u32 \<Rightarrow> ('a) asic_state_scheme \<Rightarrow> ('a) asic_state_scheme option" where
  "mmio_region_ASIC_write env reg0 v s =
    (let reg = reg0 AND 0xFFF
     in if reg = PIRQ1 then Some s
        else if reg = PIRQ0 then
          Some (asic_check_cleared_events (ASIC_write reg (ASIC_read reg s AND NOT (v AND 0x3FFFFFFF)) s))
        else if reg = PIRQ2 then
          (let v' = ASIC_read reg s AND NOT v;
               s1 = ASIC_write reg v' s;
               s2 = (if v' = 0 then ASIC_write PIRQ0 (ASIC_read PIRQ0 s1 AND 0x7FFFFFFF) s1 else s1)
           in Some (asic_check_cleared_events s2))
        else if reg \<in> {IRQA0, IRQA1, IRQA2, IRQB0, IRQB1, IRQB2, IRQC0, IRQC1, IRQC2} then
          Some (asic_event_mask_changed (ASIC_write reg v s))
        else if reg = SYSRESET then Some (if v = 0x7611 then env_reset env s else s)
        else if reg = MAPLE_STATE then maple_set_dma_state env v s
        else if reg = PVRDMADEST then Some (ASIC_write reg ((v AND 0x03FFFFE0) OR 0x10000000) s)
        else if reg = PVRDMACNT then Some (ASIC_write reg (v AND 0x00FFFFE0) s)
        else if reg = PVRDMACTL then
          (let s1 = ASIC_write reg (v AND 1) s
           in Some (if v AND 1 = 1 then pvr_dma_transfer env s1 else s1))
        else if reg = SORTDMATBL \<or> reg = SORTDMADATA then
          Some (ASIC_write reg ((v AND 0x0FFFFFE0) OR 0x08000000) s)
        else if reg = SORTDMATSIZ \<or> reg = SORTDMAASIZ then Some (ASIC_write reg (v AND 1) s)
        else if reg = SORTDMACTL then
          (let s1 = ASIC_write reg (v AND 1) s
           in if v AND 1 = 1 then sort_dma_transfer env s1 else Some s1)
        else Some (ASIC_write reg v s))"

end
