(* ===== verification/AsicIrq.thy ===== *)
theory AsicIrq
  imports Asic
begin

unbundle bit_operations_syntax

text \<open>
  What the event multiplexer of the system chip guarantees: its three interrupt lines show
  at every moment whether an unmasked event is pending, and the two cascade bits of the
  first pending register whether the other two registers are empty. Both are consequences of
  the contract \<open>interrupt_controller\<close> of the interrupt controller.
\<close>

section \<open>Reading and writing registers\<close>

lemma ASIC_frame [simp, frame]:
  "ASIC_read r (intc_raise_interrupt w s) = ASIC_read r s" "ASIC_read r (intc_clear_interrupt w s) = ASIC_read r s"
  by (simp_all add: ASIC_read_def intc_raise_interrupt_def intc_clear_interrupt_def intc_mask_changed_def Let_def
      sh4_set_event_pending_def split: option.split)

lemma ASIC_read_same [simp]: "ASIC_read r (ASIC_write r v s) = v"
  by (simp add: ASIC_read_def ASIC_write_def)

lemma ASIC_read_apart: "apart a b \<Longrightarrow> ASIC_read b (ASIC_write a v s) = ASIC_read b s"
  by (simp add: ASIC_read_def ASIC_write_def)

lemma intc_ASIC_write [simp]:
  "pend_set (ASIC_write r v s) = pend_set s" "priority (ASIC_write r v s) = priority s"
  "intc_inv (ASIC_write r v s) = intc_inv s"
  by (simp_all add: ASIC_write_def pend_set_def intc_inv_def intc_ordered_def beats_def irq_ok_def irq_wanted_def
      pending_ok_def event_get_next_time_def SH4_INTMASK_def split: option.split)

section \<open>The invariants\<close>

definition irq_lines :: "(nat \<times> u32) list" where
  "irq_lines = [(INT_IRQ13, IRQA0), (INT_IRQ11, IRQB0), (INT_IRQ9, IRQC0)]"

text \<open>An interrupt line is up exactly if an event is pending that its mask lets through.\<close>

definition asic_lines_ok :: "('a) asic_state_scheme \<Rightarrow> bool" where
  "asic_lines_ok s \<longleftrightarrow> intc_inv s \<and> (\<forall>(w, m) \<in> set irq_lines. priority s w \<noteq> 0 \<and> (w \<in> pend_set s \<longleftrightarrow> set_of m s \<noteq> 0))"

definition asic_cascade_ok :: "('a) asic_state_scheme \<Rightarrow> bool" where
  "asic_cascade_ok s \<longleftrightarrow> (bit (ASIC_read PIRQ0 s) 30 \<longleftrightarrow> ASIC_read PIRQ1 s \<noteq> 0) \<and>
     (bit (ASIC_read PIRQ0 s) 31 \<longleftrightarrow> ASIC_read PIRQ2 s \<noteq> 0)"

lemma lines_okD:
  "asic_lines_ok s \<Longrightarrow> intc_inv s" "asic_lines_ok s \<Longrightarrow> priority s 13 \<noteq> 0 \<and> priority s 11 \<noteq> 0 \<and> priority s 9 \<noteq> 0"
  "asic_lines_ok s \<Longrightarrow> (13 \<in> pend_set s \<longleftrightarrow> set_of IRQA0 s \<noteq> 0) \<and> (11 \<in> pend_set s \<longleftrightarrow> set_of IRQB0 s \<noteq> 0) \<and>
     (9 \<in> pend_set s \<longleftrightarrow> set_of IRQC0 s \<noteq> 0)"
  by (simp_all add: asic_lines_ok_def irq_lines_def INT_IRQ9_def INT_IRQ11_def INT_IRQ13_def)

lemma set_of_frame [simp]:
  "set_of m (intc_raise_interrupt w s) = set_of m s" "set_of m (intc_clear_interrupt w s) = set_of m s"
  by (simp_all add: set_of_def)

lemma irq_valid: "INT_IRQ13 < INT_NUM_SOURCES" "INT_IRQ11 < INT_NUM_SOURCES" "INT_IRQ9 < INT_NUM_SOURCES"
  "INT_IRQ13 \<noteq> INT_IRQ11" "INT_IRQ13 \<noteq> INT_IRQ9" "INT_IRQ11 \<noteq> INT_IRQ9"
  by (simp_all add: int_nums)

lemma set_of_alt: "set_of m s \<noteq> 0 \<longleftrightarrow> (\<exists>i \<in> {0, 4, 8}. ASIC_read (PIRQ0 + i) s AND ASIC_read (m + i) s \<noteq> 0)"
  by (auto simp: set_of_def or_eq_0_iff)

section \<open>Driving the lines\<close>

definition three :: "(nat \<Rightarrow> ('a) asic_state_scheme \<Rightarrow> ('a) asic_state_scheme) \<Rightarrow> bool \<Rightarrow> bool \<Rightarrow> bool \<Rightarrow>
    ('a) asic_state_scheme \<Rightarrow> ('a) asic_state_scheme" where
  "three f a b c s =
    (let s1 = (if a then f INT_IRQ13 s else s); s2 = (if b then f INT_IRQ11 s1 else s1)
     in if c then f INT_IRQ9 s2 else s2)"

definition enabled3 :: "('a) intc_state_scheme \<Rightarrow> bool" where
  "enabled3 s \<longleftrightarrow> priority s INT_IRQ13 \<noteq> 0 \<and> priority s INT_IRQ11 \<noteq> 0 \<and> priority s INT_IRQ9 \<noteq> 0"

lemma raise_three:
  assumes "intc_inv s" "enabled3 s"
  shows "intc_inv (three intc_raise_interrupt a b c s)" "enabled3 (three intc_raise_interrupt a b c s)"
    "v \<in> pend_set (three intc_raise_interrupt a b c s) \<longleftrightarrow>
       (v = INT_IRQ13 \<and> a) \<or> (v = INT_IRQ11 \<and> b) \<or> (v = INT_IRQ9 \<and> c) \<or> v \<in> pend_set s"
proof -
  define s1 where "s1 = (if a then intc_raise_interrupt INT_IRQ13 s else s)"
  define s2 where "s2 = (if b then intc_raise_interrupt INT_IRQ11 s1 else s1)"
  define s3 where "s3 = (if c then intc_raise_interrupt INT_IRQ9 s2 else s2)"
  have t: "three intc_raise_interrupt a b c s = s3" by (simp add: three_def s1_def s2_def s3_def Let_def)
  have p: "priority s INT_IRQ13 \<noteq> 0" "priority s INT_IRQ11 \<noteq> 0" "priority s INT_IRQ9 \<noteq> 0" using assms(2) by (simp_all add: enabled3_def)
  note r1 = intc.raise_if [OF assms(1) irq_valid(1) p(1), where b = a, folded s1_def]
  have p1: "priority s1 INT_IRQ13 \<noteq> 0" "priority s1 INT_IRQ11 \<noteq> 0" "priority s1 INT_IRQ9 \<noteq> 0"
    using p r1(2) by (metis (no_types))+
  note r2 = intc.raise_if [OF r1(1) irq_valid(2) p1(2), where b = b, folded s2_def]
  have p2: "priority s2 INT_IRQ13 \<noteq> 0" "priority s2 INT_IRQ11 \<noteq> 0" "priority s2 INT_IRQ9 \<noteq> 0"
    using p1 r2(2) by (metis (no_types))+
  note r3 = intc.raise_if [OF r2(1) irq_valid(3) p2(3), where b = c, folded s3_def]
  have p3: "enabled3 s3" unfolding enabled3_def using p2 r3(2) by (metis (no_types))
  show "intc_inv (three intc_raise_interrupt a b c s)" "enabled3 (three intc_raise_interrupt a b c s)"
    unfolding t by (rule r3(1), rule p3)
  show "v \<in> pend_set (three intc_raise_interrupt a b c s) \<longleftrightarrow>
       (v = INT_IRQ13 \<and> a) \<or> (v = INT_IRQ11 \<and> b) \<or> (v = INT_IRQ9 \<and> c) \<or> v \<in> pend_set s"
    unfolding t r3(3) r2(3) r1(3) by blast
qed

lemma clear_three:
  assumes "intc_inv s" "enabled3 s"
  shows "intc_inv (three intc_clear_interrupt a b c s)" "enabled3 (three intc_clear_interrupt a b c s)"
    "v \<in> pend_set (three intc_clear_interrupt a b c s) \<longleftrightarrow>
       v \<in> pend_set s \<and> \<not> (v = INT_IRQ13 \<and> a) \<and> \<not> (v = INT_IRQ11 \<and> b) \<and> \<not> (v = INT_IRQ9 \<and> c)"
proof -
  define s1 where "s1 = (if a then intc_clear_interrupt INT_IRQ13 s else s)"
  define s2 where "s2 = (if b then intc_clear_interrupt INT_IRQ11 s1 else s1)"
  define s3 where "s3 = (if c then intc_clear_interrupt INT_IRQ9 s2 else s2)"
  have t: "three intc_clear_interrupt a b c s = s3" by (simp add: three_def s1_def s2_def s3_def Let_def)
  note r1 = intc.clear_if [OF assms(1) irq_valid(1), where b = a, folded s1_def]
  note r2 = intc.clear_if [OF r1(1) irq_valid(2), where b = b, folded s2_def]
  note r3 = intc.clear_if [OF r2(1) irq_valid(3), where b = c, folded s3_def]
  have "enabled3 s1" unfolding enabled3_def using assms(2) r1(2) unfolding enabled3_def by (metis (no_types))
  then have "enabled3 s2" unfolding enabled3_def using r2(2) by (metis (no_types))
  then have "enabled3 s3" unfolding enabled3_def using r3(2) by (metis (no_types))
  then show "intc_inv (three intc_clear_interrupt a b c s)" "enabled3 (three intc_clear_interrupt a b c s)"
    unfolding t using r3(1) by blast+
  show "v \<in> pend_set (three intc_clear_interrupt a b c s) \<longleftrightarrow>
       v \<in> pend_set s \<and> \<not> (v = INT_IRQ13 \<and> a) \<and> \<not> (v = INT_IRQ11 \<and> b) \<and> \<not> (v = INT_IRQ9 \<and> c)"
    unfolding t r3(3) r2(3) r1(3) by blast
qed

lemma three_frame [simp]:
  "ASIC_read r (three intc_raise_interrupt a b c s) = ASIC_read r s"
  "ASIC_read r (three intc_clear_interrupt a b c s) = ASIC_read r s"
  "set_of m (three intc_raise_interrupt a b c s) = set_of m s"
  "set_of m (three intc_clear_interrupt a b c s) = set_of m s"
  by (simp_all add: three_def Let_def)

lemma lines_ok_alt:
  "asic_lines_ok s \<longleftrightarrow> intc_inv s \<and> enabled3 s \<and>
     (INT_IRQ13 \<in> pend_set s \<longleftrightarrow> set_of IRQA0 s \<noteq> 0) \<and> (INT_IRQ11 \<in> pend_set s \<longleftrightarrow> set_of IRQB0 s \<noteq> 0) \<and>
     (INT_IRQ9 \<in> pend_set s \<longleftrightarrow> set_of IRQC0 s \<noteq> 0)"
  by (auto simp: asic_lines_ok_def irq_lines_def enabled3_def)

text \<open>The three ways in which the code brings the lines up to date.\<close>

lemma check_cleared_lines:
  assumes "intc_inv s" "enabled3 s" "set_of IRQA0 s \<noteq> 0 \<longrightarrow> INT_IRQ13 \<in> pend_set s"
    "set_of IRQB0 s \<noteq> 0 \<longrightarrow> INT_IRQ11 \<in> pend_set s" "set_of IRQC0 s \<noteq> 0 \<longrightarrow> INT_IRQ9 \<in> pend_set s"
  shows "asic_lines_ok (asic_check_cleared_events s)"
proof -
  have "asic_check_cleared_events s = three intc_clear_interrupt (set_of IRQA0 s = 0) (set_of IRQB0 s = 0) (set_of IRQC0 s = 0) s"
    by (simp add: asic_check_cleared_events_def three_def Let_def)
  then show ?thesis
    using clear_three [OF assms(1,2)] assms(3-5) irq_valid(4-6) by (auto simp: lines_ok_alt)
qed

lemma drive_priority: "priority (intc.drive w l s) v \<noteq> 0 \<longleftrightarrow> priority s v \<noteq> 0"
  using fun_cong [OF intc.drive_enabled [of w l s], of v] by simp

lemma mask_changed_lines:
  assumes "intc_inv s" "enabled3 s"
  shows "asic_lines_ok (asic_event_mask_changed s)"
proof -
  have "intc_inv (asic_event_mask_changed s) \<and> enabled3 (asic_event_mask_changed s) \<and>
      (INT_IRQ13 \<in> pend_set (asic_event_mask_changed s) \<longleftrightarrow> set_of IRQA0 s \<noteq> 0) \<and>
      (INT_IRQ11 \<in> pend_set (asic_event_mask_changed s) \<longleftrightarrow> set_of IRQB0 s \<noteq> 0) \<and>
      (INT_IRQ9 \<in> pend_set (asic_event_mask_changed s) \<longleftrightarrow> set_of IRQC0 s \<noteq> 0)"
  proof -
    define ls where "ls = [(INT_IRQ13, set_of IRQA0 s \<noteq> 0), (INT_IRQ11, set_of IRQB0 s \<noteq> 0), (INT_IRQ9, set_of IRQC0 s \<noteq> 0)]"
    have f: "asic_event_mask_changed s = fold (\<lambda>(w, l). intc.drive w l) ls s"
      by (simp add: asic_event_mask_changed_def ls_def Let_def intc.drive_def)
    have v: "\<forall>(w, l) \<in> set ls. w < INT_NUM_SOURCES" "\<forall>(w, l) \<in> set ls. w < INT_NUM_SOURCES \<and> priority s w \<noteq> 0"
      "distinct (map fst ls)" using irq_valid assms(2) by (auto simp: ls_def enabled3_def)
    have "enabled3 (fold (\<lambda>(w, l). intc.drive w l) ls s)"
      using assms(2) unfolding enabled3_def ls_def
      by (simp only: fold_simps comp_apply id_apply prod.case drive_priority list.simps simp_thms)
    then show ?thesis
      unfolding f using intc.drive_fold_inv [OF assms(1) v(1)] intc.drive_fold_mem [OF assms(1) v(2,3)] irq_valid(4-6)
      by (simp add: ls_def)
  qed
  then show ?thesis
    by (simp add: lines_ok_alt) (simp add: asic_event_mask_changed_def Let_def)
qed

section \<open>Each operation keeps the invariants\<close>

lemma event_offset_cases:
  assumes "e < 96"
  shows "event_offset e = (if e < 32 then 0 else if e < 64 then 4 else 8)"
proof -
  have "\<forall>e<96. drop_bit 3 ((e :: nat) AND 0x60) = (if e < 32 then 0 else if e < 64 then 4 else 8)"
    by code_simp
  then show ?thesis using assms by (simp add: event_offset_def)
qed

lemma event_bit_bit: "bit (event_bit e) k \<longleftrightarrow> k = e mod 32"
proof -
  have "e AND 31 = e mod 32" using take_bit_eq_mask [of 5 e] by (simp add: take_bit_eq_mod mask_eq_exp_minus_1)
  then show ?thesis by (auto simp: event_bit_def bit_simps)
qed

definition pirq_offsets :: "u32 set" where "pirq_offsets = {0, 4, 8}"

lemma read_mask_write_pirq:
  assumes "o' \<in> pirq_offsets" "i \<in> pirq_offsets" "m \<in> {IRQA0, IRQB0, IRQC0}"
  shows "ASIC_read (m + i) (ASIC_write (PIRQ0 + o') v s) = ASIC_read (m + i) s"
    "ASIC_read (PIRQ0 + i) (ASIC_write (PIRQ0 + o') v s) = (if i = o' then v else ASIC_read (PIRQ0 + i) s)"
  using assms by (auto simp: pirq_offsets_def asic_reg_defs ASIC_read_apart apart_def)

lemma set_of_write_pirq:
  assumes "o' \<in> pirq_offsets" "m \<in> {IRQA0, IRQB0, IRQC0}"
  shows "set_of m (ASIC_write (PIRQ0 + o') v s) \<noteq> 0 \<longleftrightarrow>
    (\<exists>i \<in> pirq_offsets. (if i = o' then v else ASIC_read (PIRQ0 + i) s) AND ASIC_read (m + i) s \<noteq> 0)"
  unfolding set_of_alt pirq_offsets_def [symmetric]
  by (intro bex_cong refl) (simp only: read_mask_write_pirq [OF assms(1) _ assms(2)])

lemma asic_post_lines:
  assumes "asic_lines_ok s" "e < 96"
  shows "asic_lines_ok (asic_post e s)"
proof -
  define k where "k = event_offset e"
  have k: "k \<in> pirq_offsets" using assms(2) by (auto simp: k_def event_offset_cases pirq_offsets_def)
  define r where "r = ASIC_read (PIRQ0 + k) s OR event_bit e"
  define t where "t = ASIC_write (PIRQ0 + k) r s"
  have t: "intc_inv t" "enabled3 t" "pend_set t = pend_set s"
    using assms(1) by (simp_all add: t_def lines_ok_alt enabled3_def)
  have p: "asic_post e s = three intc_raise_interrupt (r AND ASIC_read (IRQA0 + k) t \<noteq> 0)
      (r AND ASIC_read (IRQB0 + k) t \<noteq> 0) (r AND ASIC_read (IRQC0 + k) t \<noteq> 0) t"
    by (simp add: asic_post_def three_def Let_def k_def [symmetric] r_def [symmetric] t_def [symmetric])
  have "set_of m t \<noteq> 0 \<longleftrightarrow> (r AND ASIC_read (m + k) t \<noteq> 0 \<or> set_of m s \<noteq> 0)" if m: "m \<in> {IRQA0, IRQB0, IRQC0}" for m
  proof -
    have grow: "r AND x \<noteq> 0" if "ASIC_read (PIRQ0 + k) s AND x \<noteq> 0" for x
    proof
      assume "r AND x = 0"
      then have "ASIC_read (PIRQ0 + k) s AND x OR event_bit e AND x = 0" by (simp add: r_def bit.conj_disj_distrib2)
      with that show False by (simp add: or_eq_0_iff)
    qed
    have "ASIC_read (m + k) t = ASIC_read (m + k) s" unfolding t_def by (rule read_mask_write_pirq(1) [OF k k m])
    then show ?thesis
      unfolding t_def set_of_write_pirq [OF k m] unfolding set_of_alt pirq_offsets_def [symmetric]
      unfolding t_def [symmetric] using grow k by (auto, rule_tac x = i in bexI, auto)
  qed
  then show ?thesis
    using raise_three [OF t(1,2)] assms(1) irq_valid(4-6) unfolding p lines_ok_alt t(3) by simp
qed

lemma asic_event_unfold:
  "asic_event e s = (if 64 \<le> e then asic_post 31 (asic_post e s) else if 32 \<le> e then asic_post 30 (asic_post e s) else asic_post e s)"
  by (subst asic_event.simps) (simp add: asic_event.simps [of 31] asic_event.simps [of 30])

lemma asic_event_lines: "asic_lines_ok s \<Longrightarrow> e < 96 \<Longrightarrow> asic_lines_ok (asic_event e s)"
  by (simp add: asic_event_unfold asic_post_lines)

text \<open>Clearing events can only let lines drop, and then they are brought up to date.\<close>

definition pirq :: "u32 \<Rightarrow> ('a) asic_state_scheme \<Rightarrow> u32" where
  "pirq i s = ASIC_read (PIRQ0 + i) s"

lemma pirq_regs: "ASIC_read PIRQ0 s = pirq 0 s" "ASIC_read PIRQ1 s = pirq 4 s" "ASIC_read PIRQ2 s = pirq 8 s"
  by (simp_all add: pirq_def PIRQ0_def PIRQ1_def PIRQ2_def)

lemma check_cleared_pirq [simp]: "pirq i (asic_check_cleared_events s) = pirq i s"
  by (simp add: pirq_def asic_check_cleared_events_def Let_def)

lemma pirq_write:
  "k \<in> pirq_offsets \<Longrightarrow> i \<in> pirq_offsets \<Longrightarrow> pirq i (ASIC_write (PIRQ0 + k) v s) = (if i = k then v else pirq i s)"
  unfolding pirq_def by (rule read_mask_write_pirq(2) [where m = IRQA0]) simp_all

lemma cascade_ok_alt: "asic_cascade_ok s \<longleftrightarrow> (bit (pirq 0 s) 30 \<longleftrightarrow> pirq 4 s \<noteq> 0) \<and> (bit (pirq 0 s) 31 \<longleftrightarrow> pirq 8 s \<noteq> 0)"
  by (simp add: asic_cascade_ok_def pirq_regs)

lemma shrink_lines:
  assumes "asic_lines_ok s" "intc_inv t" "enabled3 t" "pend_set t = pend_set s"
    and bits: "\<And>i k. i \<in> pirq_offsets \<Longrightarrow> bit (pirq i t) k \<Longrightarrow> bit (pirq i s) k"
    and masks: "\<And>i m. i \<in> pirq_offsets \<Longrightarrow> m \<in> {IRQA0, IRQB0, IRQC0} \<Longrightarrow> ASIC_read (m + i) t = ASIC_read (m + i) s"
  shows "asic_lines_ok (asic_check_cleared_events t)"
proof -
  have s: "set_of m s \<noteq> 0" if m: "m \<in> {IRQA0, IRQB0, IRQC0}" and t: "set_of m t \<noteq> 0" for m
  proof -
    obtain i where i: "i \<in> pirq_offsets" "pirq i t AND ASIC_read (m + i) t \<noteq> 0"
      using t unfolding set_of_alt pirq_offsets_def [symmetric] pirq_def by blast
    then obtain k where "bit (pirq i t AND ASIC_read (m + i) t) k" by (metis bit.compl_zero bit_0_eq bit_eqI bot_apply bot_bool_def)
    then have "bit (pirq i s AND ASIC_read (m + i) s) k" using bits [OF i(1)] masks [OF i(1) m] by (simp add: bit_and_iff)
    then have "pirq i s AND ASIC_read (m + i) s \<noteq> 0" by auto
    then show ?thesis using i(1) unfolding set_of_alt pirq_offsets_def [symmetric] pirq_def by blast
  qed
  show ?thesis
    using check_cleared_lines [OF assms(2,3)] assms(1,4) s unfolding lines_ok_alt by blast
qed

lemma write_pirq_lines:
  assumes "asic_lines_ok s" "k \<in> pirq_offsets" "\<And>j. bit v j \<Longrightarrow> bit (pirq k s) j"
  shows "asic_lines_ok (asic_check_cleared_events (ASIC_write (PIRQ0 + k) v s))"
proof (rule shrink_lines [OF assms(1)])
  show "intc_inv (ASIC_write (PIRQ0 + k) v s)" "enabled3 (ASIC_write (PIRQ0 + k) v s)"
    "pend_set (ASIC_write (PIRQ0 + k) v s) = pend_set s"
    using assms(1) by (simp_all add: lines_ok_alt enabled3_def)
  show "bit (pirq i s) j" if "i \<in> pirq_offsets" "bit (pirq i (ASIC_write (PIRQ0 + k) v s)) j" for i j
    using that assms(2,3) by (auto simp: pirq_write split: if_splits)
  show "ASIC_read (m + i) (ASIC_write (PIRQ0 + k) v s) = ASIC_read (m + i) s"
    if "i \<in> pirq_offsets" "m \<in> {IRQA0, IRQB0, IRQC0}" for i m
    by (rule read_mask_write_pirq(1) [OF assms(2) that])
qed

text \<open>Clearing a whole register may clear a cascade bit too.\<close>

lemma write_two_lines:
  assumes "asic_lines_ok s" "k \<in> pirq_offsets" "\<And>j. bit v j \<Longrightarrow> bit (pirq k s) j"
    "\<And>j. bit w j \<Longrightarrow> bit (pirq 0 (ASIC_write (PIRQ0 + k) v s)) j"
  shows "asic_lines_ok (asic_check_cleared_events (ASIC_write PIRQ0 w (ASIC_write (PIRQ0 + k) v s)))"
proof -
  let ?t = "ASIC_write (PIRQ0 + k) v s" and ?u = "ASIC_write (PIRQ0 + 0) w (ASIC_write (PIRQ0 + k) v s)"
  have z: "0 \<in> pirq_offsets" by (simp add: pirq_offsets_def)
  have "asic_lines_ok (asic_check_cleared_events ?u)"
  proof (rule shrink_lines [OF assms(1)])
    show "intc_inv ?u" "enabled3 ?u" "pend_set ?u = pend_set s"
      using assms(1) by (simp_all add: lines_ok_alt enabled3_def)
    show "bit (pirq i s) j" if "i \<in> pirq_offsets" "bit (pirq i ?u) j" for i j
      using that(2) assms(3) assms(4) [of j] unfolding pirq_write [OF z that(1)] pirq_write [OF assms(2) that(1)] pirq_write [OF assms(2) z]
      by (cases "k = 0"; cases "i = 0"; cases "i = k") auto
    show "ASIC_read (m + i) ?u = ASIC_read (m + i) s" if "i \<in> pirq_offsets" "m \<in> {IRQA0, IRQB0, IRQC0}" for i m
      unfolding read_mask_write_pirq(1) [OF z that] by (rule read_mask_write_pirq(1) [OF assms(2) that])
  qed
  then show ?thesis by simp
qed

lemma cascade_masks:
  "bit ((w :: u32) AND 0x7FFFFFFF) j \<longleftrightarrow> bit w j \<and> j \<noteq> 31" "bit (w AND 0xBFFFFFFF) j \<longleftrightarrow> bit w j \<and> j \<noteq> 30"
proof -
  have "(0x7FFFFFFF :: u32) = NOT (2 ^ 31)" "(0xBFFFFFFF :: u32) = NOT (2 ^ 30)" by simp_all
  then show "bit (w AND 0x7FFFFFFF) j \<longleftrightarrow> bit w j \<and> j \<noteq> 31" "bit (w AND 0xBFFFFFFF) j \<longleftrightarrow> bit w j \<and> j \<noteq> 30"
    by (auto simp only: bit_and_iff bit_not_iff bit_exp_iff dest: bit_imp_possible_bit)
qed

lemma asic_clear_event_parts:
  fixes e :: nat and s :: "('a) asic_state_scheme"
  assumes "e < 96"
  defines "k \<equiv> event_offset e"
  defines "r \<equiv> pirq k s AND NOT (event_bit e)"
  shows "asic_clear_event e s = asic_check_cleared_events
    (if r = 0 \<and> 64 \<le> e then ASIC_write PIRQ0 (pirq 0 s AND 0x7FFFFFFF) (ASIC_write (PIRQ0 + k) r s)
     else if r = 0 \<and> 32 \<le> e then ASIC_write PIRQ0 (pirq 0 s AND 0xBFFFFFFF) (ASIC_write (PIRQ0 + k) r s)
     else ASIC_write (PIRQ0 + k) r s)" and "k \<in> pirq_offsets" "32 \<le> e \<Longrightarrow> k \<noteq> 0"
proof -
  show k: "k \<in> pirq_offsets" "32 \<le> e \<Longrightarrow> k \<noteq> 0" using assms(1) by (auto simp: k_def event_offset_cases pirq_offsets_def)
  have z: "0 \<in> pirq_offsets" by (simp add: pirq_offsets_def)
  have "32 \<le> e \<Longrightarrow> ASIC_read PIRQ0 (ASIC_write (PIRQ0 + k) r s) = pirq 0 s"
    unfolding pirq_regs(1) pirq_write [OF k(1) z] using k(2) by simp
  then show "asic_clear_event e s = asic_check_cleared_events
    (if r = 0 \<and> 64 \<le> e then ASIC_write PIRQ0 (pirq 0 s AND 0x7FFFFFFF) (ASIC_write (PIRQ0 + k) r s)
     else if r = 0 \<and> 32 \<le> e then ASIC_write PIRQ0 (pirq 0 s AND 0xBFFFFFFF) (ASIC_write (PIRQ0 + k) r s)
     else ASIC_write (PIRQ0 + k) r s)"
    by (auto simp: asic_clear_event_def Let_def k_def r_def pirq_def)
qed

lemma asic_clear_event_lines:
  assumes "asic_lines_ok s" "e < 96"
  shows "asic_lines_ok (asic_clear_event e s)"
proof -
  define k where "k = event_offset e"
  define r where "r = pirq k s AND NOT (event_bit e)"
  note c1 = asic_clear_event_parts(1) [OF assms(2), of s, folded k_def, folded r_def]
  note c2 = asic_clear_event_parts(2,3) [OF assms(2), folded k_def]
  have z: "0 \<in> pirq_offsets" by (simp add: pirq_offsets_def)
  have r: "bit r j \<Longrightarrow> bit (pirq k s) j" for j by (simp add: r_def bit_and_iff)
  have zero: "pirq 0 (ASIC_write (PIRQ0 + k) r s) = pirq 0 s" if "32 \<le> e"
    unfolding pirq_write [OF c2(1) z] using c2(2) [OF that] by simp
  have one: "asic_lines_ok (asic_check_cleared_events (ASIC_write (PIRQ0 + k) r s))"
    by (rule write_pirq_lines [OF assms(1) c2(1) r])
  have two: "asic_lines_ok (asic_check_cleared_events (ASIC_write PIRQ0 (pirq 0 s AND m) (ASIC_write (PIRQ0 + k) r s)))"
    if "32 \<le> e" for m
    by (rule write_two_lines [OF assms(1) c2(1) r]) (simp_all add: zero [OF that] bit_and_iff)
  show ?thesis unfolding c1 using one two by auto
qed

lemma asic_clear_event_cascade:
  assumes "asic_cascade_ok s" "e < 30 \<or> 32 \<le> e" "e < 96"
  shows "asic_cascade_ok (asic_clear_event e s)"
proof -
  define k where "k = event_offset e"
  define r where "r = pirq k s AND NOT (event_bit e)"
  note c1 = asic_clear_event_parts(1) [OF assms(3), of s, folded k_def, folded r_def]
  note c2 = asic_clear_event_parts(2,3) [OF assms(3), folded k_def]
  have k: "k = (if e < 32 then 0 else if e < 64 then 4 else 8)" using assms(3) by (simp add: k_def event_offset_cases)
  have in3: "0 \<in> pirq_offsets" "4 \<in> pirq_offsets" "8 \<in> pirq_offsets" by (simp_all add: pirq_offsets_def)
  have w0: "pirq i (ASIC_write PIRQ0 v t) = (if i = 0 then v else pirq i t)" if "i \<in> pirq_offsets" for i v and t :: "'a asic_state_scheme"
    using pirq_write [OF in3(1) that, of v t] by simp
  have rb: "bit r j \<longleftrightarrow> bit (pirq k s) j \<and> j \<noteq> e mod 32" for j
    by (auto simp: r_def bit_and_iff bit_not_iff event_bit_bit dest: bit_imp_possible_bit)
  consider "e < 30" "k = 0" | "32 \<le> e" "e < 64" "k = 4" | "64 \<le> e" "k = 8" using assms(2,3) k
    by (cases "e < 32"; cases "e < 64") auto
  then show ?thesis
  proof cases
    case 1
    then have "bit r 30 = bit (pirq 0 s) 30" "bit r 31 = bit (pirq 0 s) 31" by (auto simp: rb)
    then show ?thesis using assms(1) 1 unfolding c1 cascade_ok_alt by (simp add: pirq_write w0 in3)
  next
    case 2
    then have "r \<noteq> 0 \<longrightarrow> pirq 4 s \<noteq> 0" by (auto simp: r_def)
    then show ?thesis
      using assms(1) 2 unfolding c1 cascade_ok_alt by (cases "r = 0") (simp_all add: pirq_write w0 in3 cascade_masks)
  next
    case 3
    then have "r \<noteq> 0 \<longrightarrow> pirq 8 s \<noteq> 0" by (auto simp: r_def)
    then show ?thesis
      using assms(1) 3 unfolding c1 cascade_ok_alt by (cases "r = 0") (simp_all add: pirq_write w0 in3 cascade_masks)
  qed
qed

lemma asic_post_pirq:
  assumes "e < 96" "i \<in> pirq_offsets"
  shows "pirq i (asic_post e s) = (if i = event_offset e then pirq i s OR event_bit e else pirq i s)"
proof -
  let ?k = "event_offset e"
  let ?t = "ASIC_write (PIRQ0 + ?k) (pirq ?k s OR event_bit e) s"
  have "?k \<in> pirq_offsets" using assms(1) by (auto simp: event_offset_cases pirq_offsets_def)
  from pirq_write [OF this assms(2)] have t: "pirq i ?t = (if i = ?k then pirq ?k s OR event_bit e else pirq i s)" .
  obtain a b c where "asic_post e s = three intc_raise_interrupt a b c ?t"
    unfolding asic_post_def three_def Let_def pirq_def by fast
  then have "pirq i (asic_post e s) = pirq i ?t" by (simp add: pirq_def)
  with t show ?thesis by simp
qed

lemma asic_event_cascade:
  assumes "asic_cascade_ok s" "e < 30 \<or> 32 \<le> e" "e < 96"
  shows "asic_cascade_ok (asic_event e s)"
proof -
  have in3: "0 \<in> pirq_offsets" "4 \<in> pirq_offsets" "8 \<in> pirq_offsets" by (simp_all add: pirq_offsets_def)
  have nz: "x OR event_bit e \<noteq> 0" for x
  proof -
    have "bit (x OR event_bit e) (e mod 32)" by (simp add: bit_or_iff event_bit_bit)
    then show ?thesis by auto
  qed
  consider "e < 30" | "32 \<le> e" "e < 64" | "64 \<le> e" using assms(2,3) by fastforce
  then show ?thesis
    using assms(1,3) nz
    by cases (auto simp: asic_event_unfold cascade_ok_alt asic_post_pirq in3 event_offset_cases bit_or_iff event_bit_bit)
qed

section \<open>The register page\<close>

lemma three_regs:
  "PIRQ1 = 0x904" "ASIC_write PIRQ2 v s = ASIC_write (PIRQ0 + 8) v s" "ASIC_read PIRQ2 s = pirq 8 s"
  by (simp_all add: PIRQ0_def PIRQ1_def PIRQ2_def pirq_def)

lemma ASIC_page_lines:
  assumes "asic_lines_ok s" "asic_cascade_ok s" "reg \<in> {PIRQ0, PIRQ1, PIRQ2, IRQA0, IRQA1, IRQA2, IRQB0, IRQB1, IRQB2, IRQC0, IRQC1, IRQC2}"
  shows "\<exists>t. mmio_region_ASIC_write env reg v s = Some t \<and> asic_lines_ok t \<and> asic_cascade_ok t"
proof -
  have in3: "0 \<in> pirq_offsets" "4 \<in> pirq_offsets" "8 \<in> pirq_offsets" by (simp_all add: pirq_offsets_def)
  have w0: "pirq i (ASIC_write PIRQ0 v t) = (if i = 0 then v else pirq i t)" if "i \<in> pirq_offsets" for i v and t :: "'a asic_state_scheme"
    using pirq_write [OF in3(1) that, of v t] by simp
  have reg: "reg AND 0xFFF = reg" using assms(3) by (auto simp: asic_reg_defs)
  consider "reg = PIRQ1" | "reg = PIRQ0" | "reg = PIRQ2"
    | "reg \<in> {IRQA0, IRQA1, IRQA2, IRQB0, IRQB1, IRQB2, IRQC0, IRQC1, IRQC2}" using assms(3) by blast
  then show ?thesis
  proof cases
    case 1
    then have "mmio_region_ASIC_write env reg v s = Some s" by (simp add: mmio_region_ASIC_write_def Let_def reg [unfolded 1])
    with assms(1,2) show ?thesis by blast
  next
    case 2
    let ?v = "pirq 0 s AND NOT (v AND 0x3FFFFFFF)"
    have m: "\<not> bit (0x3FFFFFFF :: u32) 30" "\<not> bit (0x3FFFFFFF :: u32) 31" by (simp_all add: bit_iff_odd_drop_bit)
    have top: "bit ?v 30 = bit (pirq 0 s) 30" "bit ?v 31 = bit (pirq 0 s) 31"
      using m by (simp_all only: bit_and_iff bit_not_iff_eq) simp_all
    have "bit ?v j \<Longrightarrow> bit (pirq 0 s) j" for j by (simp add: bit_and_iff)
    then have "asic_lines_ok (asic_check_cleared_events (ASIC_write (PIRQ0 + 0) ?v s))"
      by (rule write_pirq_lines [OF assms(1) in3(1)])
    moreover have "asic_cascade_ok (asic_check_cleared_events (ASIC_write PIRQ0 ?v s))"
      using assms(2) top unfolding cascade_ok_alt by (simp add: w0 in3)
    moreover have "PIRQ0 \<noteq> PIRQ1" by (simp add: asic_reg_defs)
    ultimately show ?thesis unfolding 2 by (simp add: mmio_region_ASIC_write_def Let_def reg [unfolded 2] pirq_regs)
  next
    case 3
    let ?v = "pirq 8 s AND NOT v"
    have b: "bit ?v j \<Longrightarrow> bit (pirq 8 s) j" for j by (simp add: bit_and_iff)
    have zero: "ASIC_read PIRQ0 (ASIC_write (PIRQ0 + 8) ?v s) = pirq 0 s"
      unfolding pirq_regs(1) pirq_write [OF in3(3,1)] by simp
    have one: "asic_lines_ok (asic_check_cleared_events (ASIC_write (PIRQ0 + 8) ?v s))"
      by (rule write_pirq_lines [OF assms(1) in3(3) b])
    have two: "asic_lines_ok (asic_check_cleared_events (ASIC_write PIRQ0 (pirq 0 s AND 0x7FFFFFFF) (ASIC_write (PIRQ0 + 8) ?v s)))"
      by (rule write_two_lines [OF assms(1) in3(3) b]) (simp_all add: pirq_write in3 bit_and_iff)
    define t where "t = (if ?v = 0 then ASIC_write PIRQ0 (pirq 0 s AND 0x7FFFFFFF) (ASIC_write (PIRQ0 + 8) ?v s)
      else ASIC_write (PIRQ0 + 8) ?v s)"
    have "asic_cascade_ok t"
      using assms(2) unfolding cascade_ok_alt t_def
      by (cases "?v = 0") (auto simp: pirq_write w0 in3 cascade_masks)
    then have "asic_cascade_ok (asic_check_cleared_events t)" by (simp add: cascade_ok_alt)
    moreover have "asic_lines_ok (asic_check_cleared_events t)" unfolding t_def by (split if_split) (intro conjI impI one two)
    moreover have "mmio_region_ASIC_write env reg v s = Some (asic_check_cleared_events t)"
    proof -
      have "PIRQ2 \<noteq> PIRQ1" "PIRQ2 \<noteq> PIRQ0" by (simp_all add: asic_reg_defs)
      then show ?thesis
        unfolding 3 mmio_region_ASIC_write_def Let_def reg [unfolded 3] three_regs(2,3)
        by (simp only: zero t_def simp_thms if_True if_False option.inject)
    qed
    ultimately show ?thesis by blast
  next
    case 4
    let ?t = "ASIC_write reg v s"
    have "intc_inv ?t" "enabled3 ?t" using assms(1) by (simp_all add: lines_ok_alt enabled3_def)
    then have "asic_lines_ok (asic_event_mask_changed ?t)" by (rule mask_changed_lines)
    moreover have "pirq i (asic_event_mask_changed ?t) = pirq i s" if "i \<in> pirq_offsets" for i
      using 4 that by (auto simp: pirq_def asic_event_mask_changed_def Let_def pirq_offsets_def asic_reg_defs ASIC_read_apart apart_def)
    then have "asic_cascade_ok (asic_event_mask_changed ?t)" using assms(2) by (simp add: cascade_ok_alt in3)
    moreover have "reg \<notin> {PIRQ0, PIRQ1, PIRQ2}" using 4 by (auto simp: asic_reg_defs)
    ultimately show ?thesis using 4 by (simp add: mmio_region_ASIC_write_def Let_def reg)
  qed
qed

section \<open>Properties\<close>


text \<open>A machine on which the witnesses run: no event is pending, all are masked.\<close>

definition blank_asic_with :: "'b \<Rightarrow> ('b) asic_state_scheme" where
  "blank_asic_with x = blank_intc (tmu_state_ext (\<lambda>_. 0) (\<lambda>_. 0) (\<lambda>_. 0)
     (\<lambda>_. \<lparr>timer_period = 80, timer_remainder = 0, timer_run = 0\<rparr>) 0 200 100 50 5 10 20
     (cpu_state_ext (\<lambda>_. 0) (\<lambda>_. \<lparr>bp_address = 0, bp_type = 0\<rparr>) 0 False False False 0
       (asic_state_ext (\<lambda>_. 0) (\<lambda>_. 0) (- 1) (- 1) (- 1) (- 1) (- 1) x)))"

lemma blank_asic_regs [simp]:
  "mmio_ASIC (blank_asic_with x) = (\<lambda>_. 0)" "bit5_off_timer (blank_asic_with x) = - 1" "bit4_on_timer (blank_asic_with x) = - 1"
  "bit4_off_timer (blank_asic_with x) = - 1" "bit0_on_timer (blank_asic_with x) = - 1" "bit0_off_timer (blank_asic_with x) = - 1"
  "sh4_slice_cycle (blank_asic_with x) = 0"
  by (simp_all add: blank_asic_with_def blank_intc_def INTC_reset_def Let_def sh4_set_event_pending_def blank_eventq_def
    event_init_def blank_sh4_def)

lemma blank_asic_read [simp]: "ASIC_read r (blank_asic_with x) = 0"
  by (simp add: ASIC_read_def ld32_def)

lemma blank_asic_ok: "asic_lines_ok (blank_asic_with x)" "asic_cascade_ok (blank_asic_with x)"
proof -
  have "intc_inv (blank_asic_with x)" unfolding blank_asic_with_def by (rule blank_intc_inv(1))
  moreover have "enabled3 (blank_asic_with x)" "pend_set (blank_asic_with x) = {}"
    by (simp_all add: blank_asic_with_def enabled3_def intc_default_priority_def int_nums)
  ultimately show "asic_lines_ok (blank_asic_with x)" by (simp add: lines_ok_alt set_of_def)
  show "asic_cascade_ok (blank_asic_with x)" by (simp add: asic_cascade_ok_def)
qed


lemma g2_update_value:
  "fst (g2_update_fifo_status n s) =
    (let v1 = (if bit5_off_timer s \<le> n then ASIC_read G2STATUS s AND NOT 0x20 else ASIC_read G2STATUS s);
         v2 = (if bit4_on_timer s \<le> n then v1 OR 0x10 else v1);
         v3 = (if bit4_off_timer s \<le> n then v2 AND NOT 0x10 else v2);
         v4 = (if bit0_on_timer s \<le> n then v3 OR 0x01 else v3)
     in if bit0_off_timer s \<le> n then v4 AND NOT 0x01 else v4)"
  by (cases "bit5_off_timer s \<le> n"; cases "bit4_on_timer s \<le> n"; cases "bit4_off_timer s \<le> n";
      cases "bit0_on_timer s \<le> n"; cases "bit0_off_timer s \<le> n") (simp_all add: g2_update_fifo_status_def Let_def)

lemma unat_add_small: "unat (x :: u32) + unat y < 2 ^ 32 \<Longrightarrow> unat (x + y) = unat x + unat y"
  by (simp add: unat_word_ariths)

text \<open>
  C34: A write through the G2 bus at a time when its FIFO is idle, seen from the status register:
  bit 5 is up for 60 nanoseconds from the write on, bit 4 for the 160 after those, and bit 0
  from 120 on for 420. The comment in the code gives 40, 120 and 240 as the end of the three.
\<close>

theorem asic_g2_fifo_timing:
  fixes s :: "('a) asic_state_scheme" and t :: u32
  assumes idle: "bit5_off_timer s = - 1" "bit4_on_timer s = - 1" "bit4_off_timer s = - 1" "bit0_on_timer s = - 1"
    "bit0_off_timer s = - 1" "ASIC_read G2STATUS s AND 0x31 = 0"
    and time: "unat (sh4_slice_cycle s) + 540 < 2 ^ 31" "unat (sh4_slice_cycle s) \<le> unat t" "t \<noteq> - 1"
  defines "v \<equiv> fst (g2_read_status ((asic_g2_write_word s)\<lparr>sh4_slice_cycle := t\<rparr>))" and "d \<equiv> unat t - unat (sh4_slice_cycle s)"
  shows "(bit v 5 \<longleftrightarrow> d < 60) \<and> (bit v 4 \<longleftrightarrow> 60 \<le> d \<and> d < 220) \<and> (bit v 0 \<longleftrightarrow> 120 \<le> d \<and> d < 540)"
proof -
  let ?n = "sh4_slice_cycle s"
  have "uint ?n = int (unat ?n)" by simp
  moreover have "unat ?n < 2147483648" using time(1) by simp
  ultimately have "uint ?n < 2147483648" by linarith
  then have "uint ?n < 2 ^ 31" by simp
  then have "sint ?n = uint ?n" unfolding sint_uint by (intro signed_take_bit_int_eq_self) (rule order_trans [of _ 0], simp_all)
  then have past: "- 1 < sint ?n" using uint_ge_0 [of ?n] by linarith
  have u: "unat (?n + 60) = unat ?n + 60" "unat (?n + 220) = unat ?n + 220" "unat (?n + 120) = unat ?n + 120"
    "unat (?n + 540) = unat ?n + 540"
    using time(1) by (simp_all add: unat_add_small)
  define s1 where "s1 = (asic_g2_write_word s)\<lparr>sh4_slice_cycle := t\<rparr>"
  have s1: "bit5_off_timer s1 = ?n + 60" "bit4_on_timer s1 = ?n + 60" "bit4_off_timer s1 = ?n + 220"
    "bit0_on_timer s1 = ?n + 120" "bit0_off_timer s1 = ?n + 540" "ASIC_read G2STATUS s1 = ASIC_read G2STATUS s OR 0x20"
    unfolding s1_def asic_g2_write_word_def g2_ticks
    using past by (simp_all add: Let_def idle ASIC_write_def ASIC_read_def)
  have clear: "\<not> bit (ASIC_read G2STATUS s) 5" "\<not> bit (ASIC_read G2STATUS s) 4" "\<not> bit (ASIC_read G2STATUS s) 0"
  proof -
    have m: "bit (0x31 :: u32) 5" "bit (0x31 :: u32) 4" "bit (0x31 :: u32) 0" by (simp_all add: bit_iff_odd_drop_bit)
    have "\<not> (bit (ASIC_read G2STATUS s) k \<and> bit (0x31 :: u32) k)" for k unfolding bit_and_iff [symmetric] idle(6) by simp
    then show "\<not> bit (ASIC_read G2STATUS s) 5" "\<not> bit (ASIC_read G2STATUS s) 4" "\<not> bit (ASIC_read G2STATUS s) 0"
      using m by blast+
  qed
  have le: "?n + k \<le> t \<longleftrightarrow> unat (?n + k) \<le> unat t" for k by (simp add: word_le_nat_alt)
  define A where "A = (?n + 60 \<le> t)" define B where "B = (?n + 220 \<le> t)"
  define C where "C = (?n + 120 \<le> t)" define D where "D = (?n + 540 \<le> t)"
  have abcd: "A = (60 \<le> d)" "B = (220 \<le> d)" "C = (120 \<le> d)" "D = (540 \<le> d)"
    using time(2) by (auto simp: A_def B_def C_def D_def le u d_def)
  have v: "v = (let v0 = ASIC_read G2STATUS s OR 0x20; v1 = (if A then v0 AND NOT 0x20 else v0); v2 = (if A then v1 OR 0x10 else v1);
      v3 = (if B then v2 AND NOT 0x10 else v2); v4 = (if C then v3 OR 0x01 else v3)
     in if D then v4 AND NOT 0x01 else v4)"
  proof -
    have "sh4_slice_cycle s1 = t" by (simp add: s1_def)
    then show ?thesis
      unfolding v_def s1_def [symmetric] g2_read_status_def g2_update_value A_def B_def C_def D_def s1 by simp
  qed
  have k: "bit (0x20 :: u32) 5" "\<not> bit (0x20 :: u32) 4" "\<not> bit (0x20 :: u32) 0" "bit (0x10 :: u32) 4" "\<not> bit (0x10 :: u32) 5"
    "\<not> bit (0x10 :: u32) 0" "bit (0x01 :: u32) 0" "\<not> bit (0x01 :: u32) 4" "\<not> bit (0x01 :: u32) 5"
    by (simp_all add: bit_iff_odd_drop_bit)
  have "bit v 5 = (\<not> A)" "bit v 4 = (A \<and> \<not> B)" "bit v 0 = (C \<and> \<not> D)"
    unfolding v Let_def
    by (cases A; cases B; cases C; cases D; simp only: if_True if_False bit_and_iff bit_or_iff bit_not_iff_eq k clear simp_thms; simp)+
  then show ?thesis unfolding abcd by auto
qed

theorem asic_g2_fifo_timing_witness:
  "bit (fst (g2_read_status ((asic_g2_write_word (blank_asic_with ()))\<lparr>sh4_slice_cycle := 100\<rparr>))) 4"
  using asic_g2_fifo_timing [of "blank_asic_with ()" 100] by simp

end
