(* ===== verification/Audio.thy ===== *)
theory Audio
  imports Prelude
begin

unbundle bit_operations_syntax

text \<open>
  The sound half of the AICA: the channels, the ADPCM decoder, the mixer and the ring of
  output buffers of \<open>aica/audio.c\<close>, on a state that the ARM theories extend. C \<open>int\<close>s
  that hold volumes, pans, samples and decoder state are mathematical integers; the
  bounds that make this exact are among the theorems. The list of drivers, which is host
  code, and the float conversion of one output format are parameters.
\<close>

section \<open>State\<close>

datatype loop_t = LOOP_OFF | LOOP_ON | LOOP_LOOPED

record audio_channel =
  ch_active :: bool
  ch_posn :: u32
  ch_posn_left :: u32
  ch_start :: u32
  ch_end :: u32
  ch_loop :: loop_t
  ch_loop_start :: u32
  ch_vol :: int
  ch_pan :: int
  ch_sample_rate :: u32
  ch_sample_format :: nat
  ch_adpcm_step :: int
  ch_adpcm_predict :: int

record audio_buffer =
  buf_length :: u32
  buf_posn :: u32
  buf_status :: nat
  buf_data :: mem

definition AUDIO_CHANNEL_COUNT :: nat where "AUDIO_CHANNEL_COUNT = 64"
definition NUM_BUFFERS :: nat where "NUM_BUFFERS = 3"
definition BUFFER_EMPTY :: nat where "BUFFER_EMPTY = 0"
definition BUFFER_WRITING :: nat where "BUFFER_WRITING = 1"
definition BUFFER_FULL :: nat where "BUFFER_FULL = 2"
definition AUDIO_FMT_8BIT :: nat where "AUDIO_FMT_8BIT = 0"
definition AUDIO_FMT_16BIT :: nat where "AUDIO_FMT_16BIT = 1"
definition AUDIO_FMT_ADPCM :: nat where "AUDIO_FMT_ADPCM = 2"
definition AUDIO_FMT_FLOAT :: nat where "AUDIO_FMT_FLOAT = 3"
definition AUDIO_FMT_STEREO :: nat where "AUDIO_FMT_STEREO = 4"
definition AUDIO_MEM_MASK :: u32 where "AUDIO_MEM_MASK = 0x1FFFFF"

record audio_state =
  main_ram :: mem
  output_buffers :: "nat \<Rightarrow> audio_buffer"
  write_buffer :: nat
  read_buffer :: nat
  output_format :: nat
  output_rate :: u32
  output_sample_size :: u32
  channels :: "nat \<Rightarrow> audio_channel"

definition upd_channel ::
  "nat \<Rightarrow> (audio_channel \<Rightarrow> audio_channel) \<Rightarrow> ('a) audio_state_scheme \<Rightarrow> ('a) audio_state_scheme" where
  "upd_channel i f s = s\<lparr>channels := (channels s)(i := f (channels s i))\<rparr>"

definition upd_buffer ::
  "nat \<Rightarrow> (audio_buffer \<Rightarrow> audio_buffer) \<Rightarrow> ('a) audio_state_scheme \<Rightarrow> ('a) audio_state_scheme" where
  "upd_buffer i f s = s\<lparr>output_buffers := (output_buffers s)(i := f (output_buffers s i))\<rparr>"

section \<open>ADPCM\<close>

definition yamaha_indexscale :: "int list" where
  "yamaha_indexscale = [230, 230, 230, 230, 307, 409, 512, 614, 230, 230, 230, 230, 307, 409, 512, 614]"

definition yamaha_difflookup :: "int list" where
  "yamaha_difflookup = [1, 3, 5, 7, 9, 11, 13, 15, -1, -3, -5, -7, -9, -11, -13, -15]"

definition clamp :: "int \<Rightarrow> int \<Rightarrow> int \<Rightarrow> int" where
  "clamp lo hi x = (if hi < x then hi else if x < lo then lo else x)"

definition adpcm_yamaha_decode_nibble :: "u8 \<Rightarrow> audio_channel \<Rightarrow> audio_channel" where
  "adpcm_yamaha_decode_nibble nibble c0 =
    (let c = (if ch_adpcm_step c0 = 0 then c0\<lparr>ch_adpcm_predict := 0, ch_adpcm_step := 127\<rparr> else c0);
         predict = ch_adpcm_predict c + (ch_adpcm_step c * yamaha_difflookup ! unat nibble) div 8;
         step = (ch_adpcm_step c * yamaha_indexscale ! unat nibble) div 256
     in c\<lparr>ch_adpcm_predict := clamp (- 32768) 32767 predict, ch_adpcm_step := clamp 127 24567 step\<rparr>)"

section \<open>Starting and stopping channels\<close>

definition audio_stop_channel :: "nat \<Rightarrow> ('a) audio_state_scheme \<Rightarrow> ('a) audio_state_scheme" where
  "audio_stop_channel channel = upd_channel channel (ch_active_update (\<lambda>_. False))"

definition audio_start_channel :: "nat \<Rightarrow> ('a) audio_state_scheme \<Rightarrow> ('a) audio_state_scheme" where
  "audio_start_channel channel s =
    (let s1 = upd_channel channel (\<lambda>c. c\<lparr>ch_posn := 0, ch_posn_left := 0, ch_active := True\<rparr>) s
     in if ch_sample_format (channels s1 channel) = AUDIO_FMT_ADPCM
        then upd_channel channel (\<lambda>c. adpcm_yamaha_decode_nibble (main_ram s1 (ch_start c) AND 0x0F)
               (c\<lparr>ch_adpcm_step := 0, ch_adpcm_predict := 0\<rparr>)) s1
        else s1)"

definition audio_start_stop_channel :: "nat \<Rightarrow> bool \<Rightarrow> ('a) audio_state_scheme \<Rightarrow> ('a) audio_state_scheme" where
  "audio_start_stop_channel channel start s =
    (if ch_active (channels s channel) then (if \<not> start then audio_stop_channel channel s else s)
     else if start then audio_start_channel channel s else s)"

section \<open>The output buffers\<close>

definition NEXT_BUFFER :: "('a) audio_state_scheme \<Rightarrow> nat" where
  "NEXT_BUFFER s = (if write_buffer s = NUM_BUFFERS - 1 then 0 else write_buffer s + 1)"

text \<open>The result is the index of the buffer, \<open>None\<close> for \<open>NULL\<close>.\<close>

definition audio_next_read_buffer :: "('a) audio_state_scheme \<Rightarrow> nat option \<times> ('a) audio_state_scheme" where
  "audio_next_read_buffer s =
    (if buf_status (output_buffers s (read_buffer s)) = BUFFER_FULL then
       let s1 = upd_buffer (read_buffer s) (\<lambda>b. b\<lparr>buf_status := BUFFER_EMPTY, buf_posn := 0\<rparr>) s;
           r = (if read_buffer s1 + 1 = NUM_BUFFERS then 0 else read_buffer s1 + 1);
           s2 = s1\<lparr>read_buffer := r\<rparr>
       in if buf_status (output_buffers s2 r) = BUFFER_FULL
          then (Some r, upd_buffer r (buf_posn_update (\<lambda>_. 0)) s2)
          else (None, s2)
     else (None, s))"

text \<open>\<open>process\<close> is the driver's \<open>process_buffer\<close>: whether it has consumed the buffer.\<close>

definition audio_next_write_buffer ::
  "(audio_buffer \<Rightarrow> bool) \<Rightarrow> ('a) audio_state_scheme \<Rightarrow> nat option \<times> ('a) audio_state_scheme" where
  "audio_next_write_buffer process s =
    (let s1 = upd_buffer (write_buffer s) (buf_status_update (\<lambda>_. BUFFER_FULL)) s;
         s2 = (if read_buffer s1 = write_buffer s1 \<and> process (output_buffers s1 (write_buffer s1))
               then snd (audio_next_read_buffer s1) else s1);
         next_buffer = NEXT_BUFFER s2
     in if buf_status (output_buffers s2 next_buffer) = BUFFER_FULL then (None, s2)
        else (Some next_buffer,
              upd_buffer next_buffer (buf_status_update (\<lambda>_. BUFFER_WRITING)) (s2\<lparr>write_buffer := next_buffer\<rparr>)))"

text \<open>\<open>audio_set_driver\<close> once the driver has been initialised: (re)allocating the ring.\<close>

definition audio_set_format :: "nat \<Rightarrow> u32 \<Rightarrow> ('a) audio_state_scheme \<Rightarrow> ('a) audio_state_scheme" where
  "audio_set_format sample_format sample_rate s =
    (let fmt = sample_format mod 4;
         b0 = (if fmt = AUDIO_FMT_16BIT then 2 else if fmt = AUDIO_FMT_FLOAT then 4 else 1 :: u32);
         bytes_per_sample = (if (sample_format div 4) mod 2 = 1 then push_bit 1 b0 else b0)
     in if sample_rate = output_rate s \<and> bytes_per_sample = output_sample_size s then s
        else
          let samples_per_buffer = sample_rate * 100 div 1000;
              new_buffer = \<lparr>buf_length = samples_per_buffer * bytes_per_sample, buf_posn = 0,
                buf_status = BUFFER_EMPTY, buf_data = (\<lambda>_. 0)\<rparr>
          in s\<lparr>output_buffers := (\<lambda>i. if i < NUM_BUFFERS then new_buffer else output_buffers s i),
               output_format := sample_format, output_rate := sample_rate,
               output_sample_size := bytes_per_sample, write_buffer := 0, read_buffer := 0\<rparr>)"

section \<open>The mixer\<close>

text \<open>
  The \<open>while\<close> loop that moves a channel on after one output sample. \<open>fetch\<close> is what is
  done for every sample passed, and \<open>looped\<close> what is done at the loop point, which differ
  for ADPCM. The flag says that the channel has run out. With an output rate of 0 the
  loop does not end (\<open>None\<close>).
\<close>

function advance ::
  "u32 \<Rightarrow> (audio_channel \<Rightarrow> audio_channel) \<Rightarrow> (audio_channel \<Rightarrow> audio_channel) \<Rightarrow> u32 \<Rightarrow>
   audio_channel \<Rightarrow> (bool \<times> audio_channel) option" where
  "advance rate looped fetch left c =
    (if left \<le> rate then Some (False, c\<lparr>ch_posn_left := left\<rparr>)
     else if rate = 0 then None
     else
       let left' = left - rate;
           c1 = c\<lparr>ch_posn := ch_posn c + 1\<rparr>
       in if ch_posn c1 = ch_end c1 then
            if ch_loop c1 \<noteq> LOOP_OFF
            then advance rate looped fetch left' (fetch (looped (c1\<lparr>ch_posn := ch_loop_start c1, ch_loop := LOOP_LOOPED\<rparr>)))
            else Some (True, c1\<lparr>ch_posn_left := left', ch_active := False\<rparr>)
          else advance rate looped fetch left' (fetch c1))"
  by pat_completeness auto
termination
  by (relation "measure (\<lambda>(rate, looped, fetch, left, c). unat left)")
    (auto simp: word_less_nat_alt unat_sub not_le word_le_nat_alt word_neq_0_conv)

declare advance.simps [simp del]

definition pcm_looped :: "audio_channel \<Rightarrow> audio_channel" where
  "pcm_looped c = c"

definition adpcm_looped :: "audio_channel \<Rightarrow> audio_channel" where
  "adpcm_looped c = c\<lparr>ch_adpcm_predict := 0, ch_adpcm_step := 0\<rparr>"

definition adpcm_fetch :: "mem \<Rightarrow> audio_channel \<Rightarrow> audio_channel" where
  "adpcm_fetch ram c =
    (let data = ram ((ch_start c + drop_bit 1 (ch_posn c)) AND AUDIO_MEM_MASK)
     in if ch_posn c AND 1 \<noteq> 0 then adpcm_yamaha_decode_nibble (drop_bit 4 data AND 0x0F) c
        else adpcm_yamaha_decode_nibble (data AND 0x0F) c)"

definition sample_16bit :: "mem \<Rightarrow> audio_channel \<Rightarrow> int" where
  "sample_16bit ram c = sint (ucast (ld16 ram ((ch_start c + ch_posn c * 2) AND AUDIO_MEM_MASK)) :: u16)"

definition sample_8bit :: "mem \<Rightarrow> audio_channel \<Rightarrow> int" where
  "sample_8bit ram c = sint (ram ((ch_start c + ch_posn c) AND AUDIO_MEM_MASK)) * 256"

definition sample_adpcm :: "audio_channel \<Rightarrow> int" where
  "sample_adpcm c = ch_adpcm_predict c"

text \<open>The \<open>for\<close> loop over the output samples of one channel, from sample \<open>j\<close> on.\<close>

fun mix_loop ::
  "(audio_channel \<Rightarrow> int) \<Rightarrow> (audio_channel \<Rightarrow> (bool \<times> audio_channel) option) \<Rightarrow> int \<Rightarrow> int \<Rightarrow> nat \<Rightarrow> nat \<Rightarrow>
   (nat \<Rightarrow> int \<times> int) \<Rightarrow> audio_channel \<Rightarrow> ((nat \<Rightarrow> int \<times> int) \<times> audio_channel) option" where
  "mix_loop get step vl vr 0 j buf c = Some (buf, c)"
| "mix_loop get step vl vr (Suc k) j buf c =
    (let sample = get c;
         buf1 = buf(j := (fst (buf j) + sample * vl, snd (buf j) + sample * vr))
     in case step c of
          None \<Rightarrow> None
        | Some (stopped, c1) \<Rightarrow>
            if stopped then Some (buf1, c1) else mix_loop get step vl vr k (j + 1) buf1 c1)"

definition mix_channel ::
  "mem \<Rightarrow> u32 \<Rightarrow> nat \<Rightarrow> (nat \<Rightarrow> int \<times> int) \<Rightarrow> audio_channel \<Rightarrow> ((nat \<Rightarrow> int \<times> int) \<times> audio_channel) option" where
  "mix_channel ram rate num_samples buf c =
    (if ch_active c then
       let vol_left = (ch_vol c * (32 - ch_pan c)) div 32;
           vol_right = (ch_vol c * (ch_pan c + 1)) div 32;
           pcm = (\<lambda>c. advance rate pcm_looped id (ch_posn_left c + ch_sample_rate c) c);
           adpcm = (\<lambda>c. advance rate adpcm_looped (adpcm_fetch ram) (ch_posn_left c + ch_sample_rate c) c)
       in if ch_sample_format c = AUDIO_FMT_16BIT
          then mix_loop (sample_16bit ram) pcm vol_left vol_right num_samples 0 buf c
          else if ch_sample_format c = AUDIO_FMT_8BIT
          then mix_loop (sample_8bit ram) pcm vol_left vol_right num_samples 0 buf c
          else if ch_sample_format c = AUDIO_FMT_ADPCM
          then mix_loop sample_adpcm adpcm vol_left vol_right num_samples 0 buf c
          else Some (buf, c)
     else Some (buf, c))"

fun mix_channels ::
  "nat list \<Rightarrow> nat \<Rightarrow> (nat \<Rightarrow> int \<times> int) \<Rightarrow> ('a) audio_state_scheme \<Rightarrow>
   ((nat \<Rightarrow> int \<times> int) \<times> ('a) audio_state_scheme) option" where
  "mix_channels [] n buf s = Some (buf, s)"
| "mix_channels (i # is) n buf s =
    (case mix_channel (main_ram s) (output_rate s) n buf (channels s i) of
       None \<Rightarrow> None
     | Some (buf1, c) \<Rightarrow> mix_channels is n buf1 (upd_channel i (\<lambda>_. c) s))"

text \<open>
  The down-rendering loop: \<open>put\<close> writes one stereo pair of \<open>sz\<close> bytes at the data
  pointer \<open>d\<close> of the buffer \<open>b\<close>. When the buffer is full the next one is used from its
  start on, and if there is none the rest is dropped.
\<close>

fun render_loop ::
  "(audio_buffer \<Rightarrow> bool) \<Rightarrow> u32 \<Rightarrow> (int \<times> int \<Rightarrow> u32 \<Rightarrow> mem \<Rightarrow> mem) \<Rightarrow> (int \<times> int) list \<Rightarrow> nat \<Rightarrow> u32 \<Rightarrow>
   ('a) audio_state_scheme \<Rightarrow> ('a) audio_state_scheme" where
  "render_loop process sz put [] b d s = s"
| "render_loop process sz put (x # xs) b d s =
    (let s1 = upd_buffer b (\<lambda>bf. bf\<lparr>buf_data := put x d (buf_data bf), buf_posn := buf_posn bf + sz\<rparr>) s
     in if buf_posn (output_buffers s1 b) = buf_length (output_buffers s1 b) then
          (case audio_next_write_buffer process s1 of
             (None, s2) \<Rightarrow> s2
           | (Some b', s2) \<Rightarrow> render_loop process sz put xs b' 0 s2)
        else render_loop process sz put xs b (d + sz) s1)"

definition put_16bit :: "int \<times> int \<Rightarrow> u32 \<Rightarrow> mem \<Rightarrow> mem" where
  "put_16bit x p m = st16 (st16 m p (of_int (fst x div 64))) (p + 2) (of_int (snd x div 64))"

definition put_8bit :: "int \<times> int \<Rightarrow> u32 \<Rightarrow> mem \<Rightarrow> mem" where
  "put_8bit x p m = st8 (st8 m p (of_int (fst x div 65536))) (p + 1) (of_int (snd x div 65536))"

text \<open>\<open>tofloat\<close> gives the bits of the scaled float.\<close>

definition put_float :: "(int \<Rightarrow> u32) \<Rightarrow> int \<times> int \<Rightarrow> u32 \<Rightarrow> mem \<Rightarrow> mem" where
  "put_float tofloat x p m = st32 (st32 m p (tofloat (fst x div 64))) (p + 4) (tofloat (snd x div 64))"

definition audio_render ::
  "(audio_buffer \<Rightarrow> bool) \<Rightarrow> (int \<Rightarrow> u32) \<Rightarrow> (int \<times> int) list \<Rightarrow> nat \<Rightarrow> ('a) audio_state_scheme \<Rightarrow> ('a) audio_state_scheme" where
  "audio_render process tofloat xs b s =
    (let fmt = output_format s mod 4
     in if fmt = AUDIO_FMT_FLOAT then render_loop process 8 (put_float tofloat) xs b (buf_posn (output_buffers s b)) s
        else if fmt = AUDIO_FMT_16BIT then render_loop process 4 put_16bit xs b (buf_posn (output_buffers s b)) s
        else if fmt = AUDIO_FMT_8BIT then render_loop process 2 put_8bit xs b (buf_posn (output_buffers s b)) s
        else s)"

definition audio_mix_samples ::
  "(audio_buffer \<Rightarrow> bool) \<Rightarrow> (int \<Rightarrow> u32) \<Rightarrow> nat \<Rightarrow> ('a) audio_state_scheme \<Rightarrow> ('a) audio_state_scheme option" where
  "audio_mix_samples process tofloat num_samples s =
    (case mix_channels [0..<AUDIO_CHANNEL_COUNT] num_samples (\<lambda>_. (0, 0)) s of
       None \<Rightarrow> None
     | Some (buf, s1) \<Rightarrow>
         Some (let xs = map buf [0..<num_samples]
               in if buf_status (output_buffers s1 (write_buffer s1)) = BUFFER_FULL then
                    (case audio_next_write_buffer process s1 of
                       (None, s2) \<Rightarrow> s2
                     | (Some b, s2) \<Rightarrow> audio_render process tofloat xs b s2)
                  else audio_render process tofloat xs (write_buffer s1) s1))"

text \<open>The save state keeps the channels only. A short file fills the first channels and reports -1.\<close>

definition audio_save_state :: "('a) audio_state_scheme \<Rightarrow> audio_channel list" where
  "audio_save_state s = map (channels s) [0..<AUDIO_CHANNEL_COUNT]"

definition audio_load_state :: "audio_channel list \<Rightarrow> ('a) audio_state_scheme \<Rightarrow> int \<times> ('a) audio_state_scheme" where
  "audio_load_state f s =
    (let n = min (length f) AUDIO_CHANNEL_COUNT
     in (if n = AUDIO_CHANNEL_COUNT then 0 else - 1,
         s\<lparr>channels := (\<lambda>i. if i < n then f ! i else channels s i)\<rparr>))"

section \<open>Ranges\<close>

text \<open>
  What the registers of a channel promise the mixer: volume and pan as the comments of
  \<open>audio.h\<close> say, and a decoder state as the decoder leaves it.
\<close>

definition channel_ok :: "audio_channel \<Rightarrow> bool" where
  "channel_ok c \<longleftrightarrow>
     0 \<le> ch_vol c \<and> ch_vol c \<le> 255 \<and> 0 \<le> ch_pan c \<and> ch_pan c \<le> 31 \<and>
     - 32768 \<le> ch_adpcm_predict c \<and> ch_adpcm_predict c \<le> 32767 \<and>
     (ch_adpcm_step c = 0 \<or> 127 \<le> ch_adpcm_step c \<and> ch_adpcm_step c \<le> 24567)"

definition channels_ok :: "('a) audio_state_scheme \<Rightarrow> bool" where
  "channels_ok s \<longleftrightarrow> (\<forall>i. channel_ok (channels s i))"

lemma clamp_range: "lo \<le> hi \<Longrightarrow> lo \<le> clamp lo hi x \<and> clamp lo hi x \<le> hi"
  by (simp add: clamp_def)

lemma decode_fields [simp]:
  "ch_vol (adpcm_yamaha_decode_nibble n c) = ch_vol c" "ch_pan (adpcm_yamaha_decode_nibble n c) = ch_pan c"
  by (simp_all add: adpcm_yamaha_decode_nibble_def Let_def)

lemma decode_range:
  "- 32768 \<le> ch_adpcm_predict (adpcm_yamaha_decode_nibble n c)" "ch_adpcm_predict (adpcm_yamaha_decode_nibble n c) \<le> 32767"
  "127 \<le> ch_adpcm_step (adpcm_yamaha_decode_nibble n c)" "ch_adpcm_step (adpcm_yamaha_decode_nibble n c) \<le> 24567"
  using clamp_range [of "- 32768" 32767] clamp_range [of 127 24567]
  by (simp_all add: adpcm_yamaha_decode_nibble_def Let_def)

lemma decode_ok: "channel_ok c \<Longrightarrow> channel_ok (adpcm_yamaha_decode_nibble n c)"
  using decode_range [of n c] by (simp add: channel_ok_def)

lemma channel_ok_frame [simp]:
  "channel_ok (c\<lparr>ch_posn := x\<rparr>) = channel_ok c" "channel_ok (c\<lparr>ch_posn_left := x\<rparr>) = channel_ok c"
  "channel_ok (c\<lparr>ch_active := b\<rparr>) = channel_ok c" "channel_ok (c\<lparr>ch_loop := l\<rparr>) = channel_ok c"
  "channel_ok (c\<lparr>ch_start := x\<rparr>) = channel_ok c" "channel_ok (c\<lparr>ch_end := x\<rparr>) = channel_ok c"
  "channel_ok (c\<lparr>ch_loop_start := x\<rparr>) = channel_ok c" "channel_ok (c\<lparr>ch_sample_rate := x\<rparr>) = channel_ok c"
  "channel_ok (c\<lparr>ch_sample_format := k\<rparr>) = channel_ok c"
  by (simp_all add: channel_ok_def)

lemma upd_channel_ok: "channels_ok s \<Longrightarrow> (\<And>c. channel_ok c \<Longrightarrow> channel_ok (f c)) \<Longrightarrow> channels_ok (upd_channel i f s)"
  by (simp add: channels_ok_def upd_channel_def)

lemma adpcm_start_ok: "channel_ok c \<Longrightarrow> channel_ok (c\<lparr>ch_adpcm_step := 0, ch_adpcm_predict := 0\<rparr>)"
  by (simp add: channel_ok_def)

lemma start_channel_ok: "channels_ok s \<Longrightarrow> channels_ok (audio_start_channel i s)"
  by (auto simp: audio_start_channel_def Let_def intro!: upd_channel_ok decode_ok adpcm_start_ok)

lemma start_stop_channel_ok: "channels_ok s \<Longrightarrow> channels_ok (audio_start_stop_channel i b s)"
  by (auto simp: audio_start_stop_channel_def audio_stop_channel_def intro!: start_channel_ok upd_channel_ok)

lemma advance_returns:
  assumes "rate \<noteq> 0" "\<And>c. channel_ok c \<Longrightarrow> channel_ok (looped c)" "\<And>c. channel_ok c \<Longrightarrow> channel_ok (fetch c)"
    and "channel_ok c"
  shows "\<exists>b c'. advance rate looped fetch left c = Some (b, c') \<and> channel_ok c'"
  using assms
  by (induction rate looped fetch left c rule: advance.induct)
    (subst advance.simps, auto simp: Let_def)

lemma pan_volume:
  assumes "channel_ok c"
  shows "0 \<le> (ch_vol c * (32 - ch_pan c)) div 32" "(ch_vol c * (32 - ch_pan c)) div 32 \<le> 255"
    "0 \<le> (ch_vol c * (ch_pan c + 1)) div 32" "(ch_vol c * (ch_pan c + 1)) div 32 \<le> 255"
proof -
  have v: "0 \<le> ch_vol c" "ch_vol c \<le> 255" "0 \<le> ch_pan c" "ch_pan c \<le> 31" using assms by (simp_all add: channel_ok_def)
  have m: "0 \<le> (ch_vol c * k) div 32 \<and> (ch_vol c * k) div 32 \<le> 255" if "0 \<le> k" "k \<le> 32" for k
  proof -
    have "ch_vol c * k \<le> 255 * 32" using v that by (intro mult_mono) auto
    then have "ch_vol c * k div 32 \<le> 8160 div 32" by (intro zdiv_mono1) auto
    moreover have "0 \<le> ch_vol c * k" using v that by (intro mult_nonneg_nonneg) auto
    ultimately show ?thesis by (simp add: pos_imp_zdiv_nonneg_iff)
  qed
  show "0 \<le> (ch_vol c * (32 - ch_pan c)) div 32" "(ch_vol c * (32 - ch_pan c)) div 32 \<le> 255"
    "0 \<le> (ch_vol c * (ch_pan c + 1)) div 32" "(ch_vol c * (ch_pan c + 1)) div 32 \<le> 255"
    using m [of "32 - ch_pan c"] m [of "ch_pan c + 1"] v by auto
qed

definition buf_bound :: "int \<Rightarrow> (nat \<Rightarrow> int \<times> int) \<Rightarrow> bool" where
  "buf_bound B buf \<longleftrightarrow> (\<forall>j. \<bar>fst (buf j)\<bar> \<le> B \<and> \<bar>snd (buf j)\<bar> \<le> B)"

definition SAMPLE_PEAK :: int where "SAMPLE_PEAK = 32768 * 255"

lemma sample_times_volume:
  assumes "- 32768 \<le> x" "x \<le> 32767" "0 \<le> v" "v \<le> (255 :: int)"
  shows "\<bar>x * v\<bar> \<le> SAMPLE_PEAK"
proof -
  have "\<bar>x\<bar> * v \<le> 32768 * 255" using assms by (intro mult_mono) auto
  then show ?thesis using assms by (simp add: SAMPLE_PEAK_def abs_mult)
qed

lemma buf_bound_split:
  assumes "\<forall>i < j. \<bar>fst (buf i)\<bar> \<le> B + SAMPLE_PEAK \<and> \<bar>snd (buf i)\<bar> \<le> B + SAMPLE_PEAK"
    "\<forall>i \<ge> j. \<bar>fst (buf i)\<bar> \<le> B \<and> \<bar>snd (buf i)\<bar> \<le> B"
  shows "buf_bound (B + SAMPLE_PEAK) buf"
  unfolding buf_bound_def
proof
  fix i
  have "0 \<le> SAMPLE_PEAK" by (simp add: SAMPLE_PEAK_def)
  moreover have "i < j \<or> \<bar>fst (buf i)\<bar> \<le> B \<and> \<bar>snd (buf i)\<bar> \<le> B" using assms(2) by (meson not_le)
  ultimately show "\<bar>fst (buf i)\<bar> \<le> B + SAMPLE_PEAK \<and> \<bar>snd (buf i)\<bar> \<le> B + SAMPLE_PEAK"
    using assms(1) by auto
qed

lemma mix_loop_bound:
  assumes step: "\<And>c. channel_ok c \<Longrightarrow> \<exists>b c'. step c = Some (b, c') \<and> channel_ok c'"
    and get: "\<And>c. channel_ok c \<Longrightarrow> - 32768 \<le> get c \<and> get c \<le> 32767"
    and vol: "0 \<le> vl" "vl \<le> 255" "0 \<le> vr" "vr \<le> 255"
    and c: "channel_ok c"
    and bnd: "\<forall>i < j. \<bar>fst (buf i)\<bar> \<le> B + SAMPLE_PEAK \<and> \<bar>snd (buf i)\<bar> \<le> B + SAMPLE_PEAK"
      "\<forall>i \<ge> j. \<bar>fst (buf i)\<bar> \<le> B \<and> \<bar>snd (buf i)\<bar> \<le> B"
  shows "\<exists>buf' c'. mix_loop get step vl vr k j buf c = Some (buf', c') \<and> channel_ok c' \<and> buf_bound (B + SAMPLE_PEAK) buf'"
  using c bnd
proof (induction k arbitrary: j buf c)
  case 0
  then show ?case using buf_bound_split [of j buf B] by auto
next
  case (Suc k)
  obtain b c' where st: "step c = Some (b, c')" "channel_ok c'" using step Suc.prems(1) by blast
  let ?buf = "buf(j := (fst (buf j) + get c * vl, snd (buf j) + get c * vr))"
  have pk: "\<bar>get c * vl\<bar> \<le> SAMPLE_PEAK" "\<bar>get c * vr\<bar> \<le> SAMPLE_PEAK"
    using get [OF Suc.prems(1)] vol by (auto intro!: sample_times_volume)
  have fj: "\<bar>fst (buf j)\<bar> \<le> B" "\<bar>snd (buf j)\<bar> \<le> B" using Suc.prems(3) by auto
  have bj: "\<bar>fst (?buf j)\<bar> \<le> B + SAMPLE_PEAK" "\<bar>snd (?buf j)\<bar> \<le> B + SAMPLE_PEAK"
    using pk fj by simp_all
  have lo: "\<forall>i < j + 1. \<bar>fst (?buf i)\<bar> \<le> B + SAMPLE_PEAK \<and> \<bar>snd (?buf i)\<bar> \<le> B + SAMPLE_PEAK"
    using bj Suc.prems(2) by (auto simp: less_Suc_eq)
  have hi: "\<forall>i \<ge> j + 1. \<bar>fst (?buf i)\<bar> \<le> B \<and> \<bar>snd (?buf i)\<bar> \<le> B"
    using Suc.prems(3) by auto
  have "buf_bound (B + SAMPLE_PEAK) ?buf" by (rule buf_bound_split [OF lo hi])
  moreover obtain buf' c2 where "mix_loop get step vl vr k (j + 1) ?buf c' = Some (buf', c2)" "channel_ok c2"
    "buf_bound (B + SAMPLE_PEAK) buf'" using Suc.IH [OF st(2) lo hi] by blast
  ultimately show ?case using st by (cases b) (simp_all add: Let_def)
qed
lemma sample_ranges:
  "- 32768 \<le> sample_16bit ram c" "sample_16bit ram c \<le> 32767"
  "- 32768 \<le> sample_8bit ram c" "sample_8bit ram c \<le> 32767"
proof -
  have s: "- (2 ^ 15) \<le> sint (x :: u16) \<and> sint x < 2 ^ 15" for x using sint_range_size [of x] by (simp add: word_size)
  have t: "- (2 ^ 7) \<le> sint (x :: u8) \<and> sint x < 2 ^ 7" for x using sint_range_size [of x] by (simp add: word_size)
  show "- 32768 \<le> sample_16bit ram c" "sample_16bit ram c \<le> 32767"
    using s [of "ucast (ld16 ram ((ch_start c + ch_posn c * 2) AND AUDIO_MEM_MASK))"] by (simp_all add: sample_16bit_def)
  show "- 32768 \<le> sample_8bit ram c" "sample_8bit ram c \<le> 32767"
    using t [of "ram ((ch_start c + ch_posn c) AND AUDIO_MEM_MASK)"] by (simp_all add: sample_8bit_def)
qed

lemma adpcm_start_ok2: "channel_ok c \<Longrightarrow> channel_ok (c\<lparr>ch_adpcm_predict := 0, ch_adpcm_step := 0\<rparr>)"
  by (simp add: channel_ok_def)

lemma pcm_step_ok: "rate \<noteq> 0 \<Longrightarrow> channel_ok c \<Longrightarrow> \<exists>b c'. advance rate pcm_looped id left c = Some (b, c') \<and> channel_ok c'"
  by (rule advance_returns) (simp_all add: pcm_looped_def)

lemma adpcm_step_ok:
  "rate \<noteq> 0 \<Longrightarrow> channel_ok c \<Longrightarrow> \<exists>b c'. advance rate adpcm_looped (adpcm_fetch ram) left c = Some (b, c') \<and> channel_ok c'"
  by (rule advance_returns) (simp_all add: adpcm_looped_def adpcm_fetch_def Let_def decode_ok adpcm_start_ok2)

lemma mix_channel_bound:
  assumes "rate \<noteq> 0" "channel_ok c" "buf_bound B buf"
  shows "\<exists>buf' c'. mix_channel ram rate n buf c = Some (buf', c') \<and> channel_ok c' \<and> buf_bound (B + SAMPLE_PEAK) buf'"
proof -
  have nb: "buf_bound (B + SAMPLE_PEAK) buf"
    using assms(3) buf_bound_split [of 0 buf B] by (simp add: buf_bound_def)
  have b0: "\<forall>i < (0 :: nat). \<bar>fst (buf i)\<bar> \<le> B + SAMPLE_PEAK \<and> \<bar>snd (buf i)\<bar> \<le> B + SAMPLE_PEAK"
    "\<forall>i \<ge> 0. \<bar>fst (buf i)\<bar> \<le> B \<and> \<bar>snd (buf i)\<bar> \<le> B"
    using assms(3) by (simp_all add: buf_bound_def)
  note v = pan_volume [OF assms(2)]
  have p: "- 32768 \<le> sample_adpcm c' \<and> sample_adpcm c' \<le> 32767" if "channel_ok c'" for c'
    using that by (simp add: sample_adpcm_def channel_ok_def)
  show ?thesis
    unfolding mix_channel_def Let_def
    using mix_loop_bound [OF _ _ v assms(2) b0, of "\<lambda>c. advance rate pcm_looped id (ch_posn_left c + ch_sample_rate c) c"
        "sample_16bit ram" n]
      mix_loop_bound [OF _ _ v assms(2) b0, of "\<lambda>c. advance rate pcm_looped id (ch_posn_left c + ch_sample_rate c) c"
        "sample_8bit ram" n]
      mix_loop_bound [OF _ _ v assms(2) b0, of "\<lambda>c. advance rate adpcm_looped (adpcm_fetch ram) (ch_posn_left c + ch_sample_rate c) c"
        sample_adpcm n]
      pcm_step_ok [OF assms(1)] adpcm_step_ok [OF assms(1)] sample_ranges [of ram] p assms(2) nb
    by simp
qed

lemma mix_channels_bound:
  assumes "output_rate s \<noteq> 0" "channels_ok s" "buf_bound B buf"
  shows "\<exists>buf' s'. mix_channels is n buf s = Some (buf', s') \<and> channels_ok s' \<and>
    buf_bound (B + int (length is) * SAMPLE_PEAK) buf' \<and> output_rate s' = output_rate s"
  using assms
proof (induction "is" arbitrary: B buf s)
  case (Cons i "is")
  obtain buf1 c where c: "mix_channel (main_ram s) (output_rate s) n buf (channels s i) = Some (buf1, c)"
    "channel_ok c" "buf_bound (B + SAMPLE_PEAK) buf1"
    using mix_channel_bound [OF Cons.prems(1) _ Cons.prems(3), of "channels s i" "main_ram s" n] Cons.prems(2)
    unfolding channels_ok_def by blast
  have "channels_ok (upd_channel i (\<lambda>_. c) s)" using Cons.prems(2) c(2) by (intro upd_channel_ok) auto
  moreover have "output_rate (upd_channel i (\<lambda>_. c) s) = output_rate s" by (simp add: upd_channel_def)
  ultimately show ?case
    using Cons.IH [of "upd_channel i (\<lambda>_. c) s" "B + SAMPLE_PEAK" buf1] c Cons.prems(1)
    by (auto simp: algebra_simps)
qed simp

text \<open>Writing out and switching buffers leaves the channels alone.\<close>

lemma upd_buffer_frame [simp]:
  "channels (upd_buffer i f s) = channels s" "output_rate (upd_buffer i f s) = output_rate s"
  "main_ram (upd_buffer i f s) = main_ram s"
  by (simp_all add: upd_buffer_def)

lemma next_read_channels [simp]: "channels (snd (audio_next_read_buffer s)) = channels s"
  by (simp add: audio_next_read_buffer_def Let_def)

lemma next_write_channels [simp]: "channels (snd (audio_next_write_buffer process s)) = channels s"
  by (simp add: audio_next_write_buffer_def Let_def)

lemma next_write_channelsD: "audio_next_write_buffer process s = (r, s') \<Longrightarrow> channels s' = channels s"
  using next_write_channels [of process s] by simp

lemma render_loop_channels [simp]: "channels (render_loop process sz put xs b d s) = channels s"
  by (induction xs arbitrary: b d s) (auto simp: Let_def dest: next_write_channelsD split: prod.split option.split)

lemma render_channels [simp]: "channels (audio_render process tofloat xs b s) = channels s"
  by (simp add: audio_render_def Let_def)

lemma next_write_rateD: "audio_next_write_buffer process s = (r, s') \<Longrightarrow> output_rate s' = output_rate s"
proof -
  have "output_rate (snd (audio_next_read_buffer s)) = output_rate s" for s :: "('a) audio_state_scheme"
    by (simp add: audio_next_read_buffer_def Let_def)
  moreover assume "audio_next_write_buffer process s = (r, s')"
  ultimately show ?thesis by (auto simp: audio_next_write_buffer_def Let_def split: if_splits)
qed

lemma render_rate [simp]: "output_rate (audio_render process tofloat xs b s) = output_rate s"
proof -
  have "output_rate (render_loop process sz put xs b d s) = output_rate s" for sz put d
    by (induction xs arbitrary: b d s) (auto simp: Let_def dest: next_write_rateD split: prod.split option.split)
  then show ?thesis by (simp add: audio_render_def Let_def)
qed

lemma mix_samples_returns:
  assumes "output_rate s \<noteq> 0" "channels_ok s"
  shows "\<exists>s'. audio_mix_samples process tofloat n s = Some s' \<and> channels_ok s' \<and> output_rate s' = output_rate s"
proof -
  have "buf_bound 0 (\<lambda>_. (0, 0))" by (simp add: buf_bound_def)
  from mix_channels_bound [OF assms this, of "[0..<AUDIO_CHANNEL_COUNT]" n]
  obtain buf s1 where m: "mix_channels [0..<AUDIO_CHANNEL_COUNT] n (\<lambda>_. (0, 0)) s = Some (buf, s1)" "channels_ok s1"
    "output_rate s1 = output_rate s" by blast
  show ?thesis
    using m by (auto simp: audio_mix_samples_def Let_def channels_ok_def dest: next_write_channelsD next_write_rateD split: prod.split option.split)
qed

section \<open>The ring of output buffers\<close>

definition is_full :: "('a) audio_state_scheme \<Rightarrow> nat \<Rightarrow> bool" where
  "is_full s i \<longleftrightarrow> buf_status (output_buffers s i) = BUFFER_FULL"

definition next3 :: "nat \<Rightarrow> nat" where
  "next3 i = (if i = 2 then 0 else i + 1)"

text \<open>The buffers that wait for the reader, in the order in which it will come to them.\<close>

definition ring_queue :: "nat \<Rightarrow> (nat \<Rightarrow> bool) \<Rightarrow> nat list" where
  "ring_queue r F = filter F [r, next3 r, next3 (next3 r)]"

definition play_queue :: "('a) audio_state_scheme \<Rightarrow> nat list" where
  "play_queue s = ring_queue (read_buffer s) (is_full s)"

text \<open>
  The full buffers follow each other from the read position on, and the write position is
  the buffer behind them or, when the writer could not go on, the last of them.
\<close>

definition ring_pos :: "nat \<Rightarrow> nat \<Rightarrow> (nat \<Rightarrow> bool) \<Rightarrow> bool" where
  "ring_pos r w F \<longleftrightarrow> r < 3 \<and>
     (let a = F r; b = F (next3 r); c = F (next3 (next3 r))
      in \<not> a \<and> \<not> b \<and> \<not> c \<and> w = r \<or>
         a \<and> \<not> b \<and> \<not> c \<and> (w = next3 r \<or> w = r) \<or>
         a \<and> b \<and> \<not> c \<and> (w = next3 (next3 r) \<or> w = next3 r) \<or>
         a \<and> b \<and> c \<and> w = next3 (next3 r))"

definition ring_ok :: "('a) audio_state_scheme \<Rightarrow> bool" where
  "ring_ok s = ring_pos (read_buffer s) (write_buffer s) (is_full s)"

lemma next3: "r < 3 \<Longrightarrow> next3 r < 3" "r < 3 \<Longrightarrow> next3 r \<noteq> r" "r < 3 \<Longrightarrow> next3 (next3 r) \<noteq> r"
  "r < 3 \<Longrightarrow> next3 (next3 r) \<noteq> next3 r" "r < 3 \<Longrightarrow> next3 (next3 (next3 r)) = r"
  by (auto simp: next3_def)

lemma ring_pos_less: "ring_pos r w F \<Longrightarrow> r < 3 \<and> w < 3"
  by (auto simp: ring_pos_def Let_def dest: next3(1))

lemma ring_pos_cases:
  assumes "ring_pos r w F"
  obtains b c where "next3 r = b" "next3 b = c" "next3 c = r" "r < 3" "b < 3" "c < 3"
    "b \<noteq> r" "c \<noteq> r" "c \<noteq> b" "r \<noteq> b" "r \<noteq> c" "b \<noteq> c"
    "\<not> F r \<and> \<not> F b \<and> \<not> F c \<and> w = r \<or> F r \<and> \<not> F b \<and> \<not> F c \<and> w = b \<or> F r \<and> \<not> F b \<and> \<not> F c \<and> w = r \<or>
     F r \<and> F b \<and> \<not> F c \<and> w = c \<or> F r \<and> F b \<and> \<not> F c \<and> w = b \<or> F r \<and> F b \<and> F c \<and> w = c"
proof -
  have r: "r < 3" using assms by (simp add: ring_pos_def)
  have c: "next3 r < 3" "next3 (next3 r) < 3" using next3(1) [OF r] next3(1) [OF next3(1) [OF r]] by simp_all
  show thesis
    by (rule that [OF refl refl next3(5) [OF r] r c next3(2-4) [OF r] not_sym [OF next3(2) [OF r]]
        not_sym [OF next3(3) [OF r]] not_sym [OF next3(4) [OF r]]])
      (use assms in \<open>unfold ring_pos_def Let_def, blast\<close>)
qed

lemma ring_pos_write:
  assumes "ring_pos r w F"
  defines "n \<equiv> next3 w" and "q \<equiv> if F w then ring_queue r F else ring_queue r F @ [w]"
  shows "ring_pos r (if F n then w else n) (\<lambda>i. i = w \<or> F i)"
    and "ring_queue r (\<lambda>i. i = w \<or> F i) = q"
    and "r = w \<Longrightarrow> ring_pos n n (\<lambda>i. F i \<and> i \<noteq> w)"
    and "r = w \<Longrightarrow> ring_queue n (\<lambda>i. F i \<and> i \<noteq> w) = [] \<and> q = [w]"
    and "r = w \<Longrightarrow> \<not> F n" and "F n \<longleftrightarrow> length q = 3" and "\<not> F n \<Longrightarrow> n \<notin> set q"
proof -
  obtain b c where s: "next3 r = b" "next3 b = c" "next3 c = r" "r < 3" "b < 3" "c < 3"
    "b \<noteq> r" "c \<noteq> r" "c \<noteq> b" "r \<noteq> b" "r \<noteq> c" "b \<noteq> c"
    and cs: "\<not> F r \<and> \<not> F b \<and> \<not> F c \<and> w = r \<or> F r \<and> \<not> F b \<and> \<not> F c \<and> w = b \<or> F r \<and> \<not> F b \<and> \<not> F c \<and> w = r \<or>
     F r \<and> F b \<and> \<not> F c \<and> w = c \<or> F r \<and> F b \<and> \<not> F c \<and> w = b \<or> F r \<and> F b \<and> F c \<and> w = c"
    by (rule ring_pos_cases [OF assms(1)])
  note d = n_def q_def ring_pos_def ring_queue_def s
  from cs show "ring_pos r (if F n then w else n) (\<lambda>i. i = w \<or> F i)" by (elim disjE conjE; simp add: d)
  from cs show "ring_queue r (\<lambda>i. i = w \<or> F i) = q" by (elim disjE conjE; simp add: d)
  from cs show "r = w \<Longrightarrow> ring_pos n n (\<lambda>i. F i \<and> i \<noteq> w)" by (elim disjE conjE; simp add: d)
  from cs show "r = w \<Longrightarrow> ring_queue n (\<lambda>i. F i \<and> i \<noteq> w) = [] \<and> q = [w]" by (elim disjE conjE; simp add: d)
  from cs show "r = w \<Longrightarrow> \<not> F n" by (elim disjE conjE; simp add: d)
  from cs show "F n \<longleftrightarrow> length q = 3" by (elim disjE conjE; simp add: d)
  from cs show "\<not> F n \<Longrightarrow> n \<notin> set q" by (elim disjE conjE; simp add: d)
qed

lemma ring_pos_read:
  assumes "ring_pos r w F" "F r"
  defines "n \<equiv> next3 r" and "G \<equiv> (\<lambda>i. i \<noteq> r \<and> F i)"
  shows "ring_queue n G = tl (ring_queue r F)" and "hd (ring_queue r F) = r" and "r \<noteq> w \<Longrightarrow> ring_pos n w G"
    and "F n = (tl (ring_queue r F) \<noteq> [])" and "F n \<Longrightarrow> hd (tl (ring_queue r F)) = n"
proof -
  obtain b c where s: "next3 r = b" "next3 b = c" "next3 c = r" "r < 3" "b < 3" "c < 3"
    "b \<noteq> r" "c \<noteq> r" "c \<noteq> b" "r \<noteq> b" "r \<noteq> c" "b \<noteq> c"
    and cs: "\<not> F r \<and> \<not> F b \<and> \<not> F c \<and> w = r \<or> F r \<and> \<not> F b \<and> \<not> F c \<and> w = b \<or> F r \<and> \<not> F b \<and> \<not> F c \<and> w = r \<or>
     F r \<and> F b \<and> \<not> F c \<and> w = c \<or> F r \<and> F b \<and> \<not> F c \<and> w = b \<or> F r \<and> F b \<and> F c \<and> w = c"
    by (rule ring_pos_cases [OF assms(1)])
  note d = n_def G_def ring_pos_def ring_queue_def s assms(2)
  from cs show "ring_queue n G = tl (ring_queue r F)" by (elim disjE conjE; simp add: d)
  from cs show "hd (ring_queue r F) = r" by (elim disjE conjE; simp add: d)
  from cs show "r \<noteq> w \<Longrightarrow> ring_pos n w G" by (elim disjE conjE; simp add: d)
  from cs show "F n = (tl (ring_queue r F) \<noteq> [])" by (elim disjE conjE; simp add: d)
  from cs show "F n \<Longrightarrow> hd (tl (ring_queue r F)) = n" by (elim disjE conjE; simp add: d)
qed

lemmas buffer_defs = BUFFER_EMPTY_def BUFFER_WRITING_def BUFFER_FULL_def NUM_BUFFERS_def NEXT_BUFFER_def

text \<open>What the two operations do to the full marks and the positions.\<close>

lemma next_read_empty:
  "\<not> is_full s (read_buffer s) \<Longrightarrow> audio_next_read_buffer s = (None, s)"
  by (simp add: audio_next_read_buffer_def is_full_def)

lemma next_read_full:
  assumes "is_full s (read_buffer s)" "read_buffer s < 3"
  defines "s' \<equiv> snd (audio_next_read_buffer s)" and "r \<equiv> next3 (read_buffer s)"
  shows "read_buffer s' = r" "write_buffer s' = write_buffer s"
    "is_full s' i = (i \<noteq> read_buffer s \<and> is_full s i)"
    "fst (audio_next_read_buffer s) = (if is_full s r then Some r else None)"
proof -
  have "r = (if read_buffer s + 1 = 3 then 0 else read_buffer s + 1)" "r \<noteq> read_buffer s"
    using assms(2) by (auto simp: r_def next3_def)
  then show "read_buffer s' = r" "write_buffer s' = write_buffer s"
    "is_full s' i = (i \<noteq> read_buffer s \<and> is_full s i)"
    "fst (audio_next_read_buffer s) = (if is_full s r then Some r else None)"
    using assms(1) unfolding s'_def
    by (auto simp: audio_next_read_buffer_def is_full_def Let_def upd_buffer_def buffer_defs)
qed

lemma next_write_marks:
  fixes s :: "('a) audio_state_scheme" and process :: "audio_buffer \<Rightarrow> bool"
  assumes "read_buffer s < 3" "write_buffer s < 3"
  defines "w \<equiv> write_buffer s" and "n \<equiv> next3 (write_buffer s)" and "s' \<equiv> snd (audio_next_write_buffer process s)"
  defines "used \<equiv> read_buffer s = w \<and> process ((output_buffers s w)\<lparr>buf_status := BUFFER_FULL\<rparr>)"
  shows "read_buffer s' = (if used then n else read_buffer s)"
    "is_full s' i = ((i = w \<or> is_full s i) \<and> \<not> (used \<and> i = w))"
    "fst (audio_next_write_buffer process s) = (if is_full s n then None else Some n)"
    "write_buffer s' = (if is_full s n then w else n)"
    "\<not> is_full s n \<Longrightarrow> buf_status (output_buffers s' n) = BUFFER_WRITING"
proof -
  let ?s1 = "upd_buffer w (buf_status_update (\<lambda>_. BUFFER_FULL)) s"
  let ?s2 = "if used then snd (audio_next_read_buffer ?s1) else ?s1"
  have s1: "read_buffer ?s1 = read_buffer s" "write_buffer ?s1 = w" "is_full ?s1 i = (i = w \<or> is_full s i)" for i
    by (auto simp: upd_buffer_def is_full_def w_def)
  have s2: "read_buffer ?s2 = (if used then n else read_buffer s)" "write_buffer ?s2 = w"
    "is_full ?s2 i = ((i = w \<or> is_full s i) \<and> \<not> (used \<and> i = w))" for i
    using next_read_full [of ?s1] s1 assms(1,2) by (auto simp: used_def w_def n_def)
  have nx: "NEXT_BUFFER ?s2 = n" "n \<noteq> w"
    using s2(2) assms(1,2) by (auto simp: NEXT_BUFFER_def NUM_BUFFERS_def n_def w_def next3_def)
  then have f2: "is_full ?s2 n = is_full s n" using s2(3) [of n] by auto
  have e: "audio_next_write_buffer process s =
     (if is_full s n then (None, ?s2)
      else (Some n, upd_buffer n (buf_status_update (\<lambda>_. BUFFER_WRITING)) (?s2\<lparr>write_buffer := n\<rparr>)))"
  proof -
    have "(read_buffer ?s1 = write_buffer ?s1 \<and> process (output_buffers ?s1 (write_buffer ?s1))) = used"
      by (auto simp: used_def w_def upd_buffer_def)
    then show ?thesis
      using nx(1) f2 unfolding audio_next_write_buffer_def Let_def w_def [symmetric] is_full_def [symmetric]
      by simp
  qed
  define s2' where "s2' = ?s2"
  note s2 = s2 [folded s2'_def] and f2 = f2 [folded s2'_def] and e = e [folded s2'_def]
  have r: "fst (audio_next_write_buffer process s) = (if is_full s n then None else Some n) \<and>
    read_buffer s' = read_buffer s2' \<and> write_buffer s' = (if is_full s n then w else n) \<and>
    (\<forall>i. is_full s' i = is_full s2' i) \<and> (\<not> is_full s n \<longrightarrow> buf_status (output_buffers s' n) = BUFFER_WRITING)"
  proof (cases "is_full s n")
    case True
    then show ?thesis using s2(2) by (simp add: s'_def e)
  next
    case False
    then have "is_full (upd_buffer n (buf_status_update (\<lambda>_. BUFFER_WRITING)) (s2'\<lparr>write_buffer := n\<rparr>)) i = is_full s2' i" for i
      using f2 by (cases "i = n") (auto simp: upd_buffer_def is_full_def buffer_defs)
    then show ?thesis using False by (simp add: s'_def e) (simp add: upd_buffer_def)
  qed
  from r show "fst (audio_next_write_buffer process s) = (if is_full s n then None else Some n)"
    "write_buffer s' = (if is_full s n then w else n)"
    "\<not> is_full s n \<Longrightarrow> buf_status (output_buffers s' n) = BUFFER_WRITING" by blast+
  from r s2(1) show "read_buffer s' = (if used then n else read_buffer s)" by simp
  from r s2(3) show "is_full s' i = ((i = w \<or> is_full s i) \<and> \<not> (used \<and> i = w))" by simp
qed


section \<open>Properties\<close>

text \<open>A mixer on which the witnesses run: 44100 samples per second in stereo, all channels silent.\<close>

definition blank_channel :: audio_channel where
  "blank_channel = \<lparr>ch_active = False, ch_posn = 0, ch_posn_left = 0, ch_start = 0, ch_end = 0, ch_loop = LOOP_OFF,
     ch_loop_start = 0, ch_vol = 0, ch_pan = 0, ch_sample_rate = 44100, ch_sample_format = 1, ch_adpcm_step = 0,
     ch_adpcm_predict = 0\<rparr>"

definition blank_audio :: "'a \<Rightarrow> ('a) audio_state_scheme" where
  "blank_audio x = audio_state.extend
     \<lparr>main_ram = (\<lambda>_. 0), output_buffers = (\<lambda>_. \<lparr>buf_length = 17640, buf_posn = 0, buf_status = BUFFER_EMPTY, buf_data = (\<lambda>_. 0)\<rparr>),
      write_buffer = 0, read_buffer = 0, output_format = 5, output_rate = 44100, output_sample_size = 4,
      channels = (\<lambda>_. blank_channel)\<rparr> x"

lemma blank_audio_simps [simp]:
  "output_rate (blank_audio x) = 44100" "write_buffer (blank_audio x) = 0" "read_buffer (blank_audio x) = 0"
  "channels (blank_audio x) = (\<lambda>_. blank_channel)" "is_full (blank_audio x) i = False"
  by (simp_all add: blank_audio_def audio_state.defs is_full_def buffer_defs)

lemma blank_audio_ok: "channels_ok (blank_audio x)" "ring_ok (blank_audio x)"
  by (simp_all add: channels_ok_def channel_ok_def blank_channel_def ring_ok_def ring_pos_def Let_def)

lemma blank_queue: "play_queue (blank_audio x) = []"
  by (simp add: play_queue_def ring_queue_def)

text \<open>
  C22: The mixer comes back with any number of samples: each channel moves on in finitely many
  steps. Volumes, pans and decoder states stay in range, and no accumulator of the 64
  channels leaves the range of the 32-bit integers that the code keeps them in.
\<close>

theorem audio_mix_in_range:
  assumes "output_rate s \<noteq> 0" "channels_ok s"
  shows "(\<exists>s'. audio_mix_samples process tofloat n s = Some s' \<and> channels_ok s') \<and>
    (\<exists>buf s1. mix_channels [0..<AUDIO_CHANNEL_COUNT] n (\<lambda>_. (0, 0)) s = Some (buf, s1) \<and>
       (\<forall>j. \<bar>fst (buf j)\<bar> < 2 ^ 31 \<and> \<bar>snd (buf j)\<bar> < 2 ^ 31))"
proof
  show "\<exists>s'. audio_mix_samples process tofloat n s = Some s' \<and> channels_ok s'"
    using mix_samples_returns [OF assms] by blast
  have "buf_bound 0 (\<lambda>_. (0, 0))" by (simp add: buf_bound_def)
  from mix_channels_bound [OF assms this, of "[0..<AUDIO_CHANNEL_COUNT]" n]
  obtain buf s1 where m: "mix_channels [0..<AUDIO_CHANNEL_COUNT] n (\<lambda>_. (0, 0)) s = Some (buf, s1)"
    "buf_bound (64 * SAMPLE_PEAK) buf" by (auto simp: AUDIO_CHANNEL_COUNT_def)
  have "64 * SAMPLE_PEAK < 2 ^ 31" by (simp add: SAMPLE_PEAK_def)
  then have "\<forall>j. \<bar>fst (buf j)\<bar> < 2 ^ 31 \<and> \<bar>snd (buf j)\<bar> < 2 ^ 31"
    using m(2) unfolding buf_bound_def by (meson order_le_less_trans)
  with m(1) show "\<exists>buf s1. mix_channels [0..<AUDIO_CHANNEL_COUNT] n (\<lambda>_. (0, 0)) s = Some (buf, s1) \<and>
    (\<forall>j. \<bar>fst (buf j)\<bar> < 2 ^ 31 \<and> \<bar>snd (buf j)\<bar> < 2 ^ 31)" by blast
qed

theorem audio_mix_in_range_witness:
  "\<exists>s'. audio_mix_samples (\<lambda>_. False) (\<lambda>_. 0) 735 (blank_audio ()) = Some s' \<and> channels_ok s'"
  using audio_mix_in_range [OF _ blank_audio_ok(1) [of "()"], of "\<lambda>_. False" "\<lambda>_. 0" 735] by simp

text \<open>
  C23: Completing a buffer puts it behind the buffers that wait for the reader; when the driver
  takes it at once, the queue stays empty. The writer goes on exactly if fewer than three
  buffers wait, and then in a buffer that does not wait, so no unplayed sound is overwritten.
\<close>

theorem audio_ring_write:
  fixes s :: "('a) audio_state_scheme" and process :: "audio_buffer \<Rightarrow> bool"
  assumes "ring_ok s"
  defines "w \<equiv> write_buffer s" and "r \<equiv> audio_next_write_buffer process s"
  defines "q \<equiv> if w \<in> set (play_queue s) then play_queue s else play_queue s @ [w]"
    and "used \<equiv> read_buffer s = w \<and> process ((output_buffers s w)\<lparr>buf_status := BUFFER_FULL\<rparr>)"
  shows "ring_ok (snd r) \<and> play_queue (snd r) = (if used then [] else q) \<and> (used \<longrightarrow> q = [w]) \<and>
    (case fst r of
       None \<Rightarrow> length q = 3 \<and> write_buffer (snd r) = w
     | Some b \<Rightarrow> length q < 3 \<and> b \<notin> set q \<and> write_buffer (snd r) = b \<and> buf_status (output_buffers (snd r) b) = BUFFER_WRITING)"
proof -
  have pos: "ring_pos (read_buffer s) w (is_full s)" using assms(1) by (simp add: ring_ok_def w_def)
  have less: "read_buffer s < 3" "write_buffer s < 3" using ring_pos_less [OF pos] by (simp_all add: w_def)
  note marks = next_write_marks [OF less, of process, folded w_def, folded used_def]
  have full: "is_full (snd r) = (if used then (\<lambda>i. is_full s i \<and> i \<noteq> w) else (\<lambda>i. i = w \<or> is_full s i))"
  proof
    fix i
    show "is_full (snd r) i = (if used then (\<lambda>i. is_full s i \<and> i \<noteq> w) else (\<lambda>i. i = w \<or> is_full s i)) i"
      using marks(2) [of i] unfolding r_def [symmetric] by (cases used) auto
  qed
  have mem: "w \<in> set (play_queue s) \<longleftrightarrow> is_full s w"
    using pos next3 [of "read_buffer s"] by (auto simp: play_queue_def ring_queue_def ring_pos_def Let_def)
  note pw = ring_pos_write [OF pos]
  have q: "q = (if is_full s w then ring_queue (read_buffer s) (is_full s) else ring_queue (read_buffer s) (is_full s) @ [w])"
    using mem by (simp add: q_def play_queue_def)
  have len: "length q \<le> 3" using pos by (auto simp: q ring_pos_def ring_queue_def Let_def)
  have rw: "used \<Longrightarrow> read_buffer s = w" by (simp add: used_def)
  have "ring_ok (snd r) \<and> play_queue (snd r) = (if used then [] else q) \<and> (used \<longrightarrow> q = [w])"
  proof (cases used)
    case True
    then have eq: "read_buffer s = w" by (rule rw)
    have "read_buffer (snd r) = next3 w" "write_buffer (snd r) = next3 w"
      using marks(1,4) True pw(5) [OF eq] by (simp_all add: r_def)
    moreover have "is_full (snd r) = (\<lambda>i. is_full s i \<and> i \<noteq> w)" using full True by simp
    ultimately show ?thesis
      using pw(3,4) [OF eq] True by (simp add: ring_ok_def play_queue_def q)
  next
    case False
    have "read_buffer (snd r) = read_buffer s" "write_buffer (snd r) = (if is_full s (next3 w) then w else next3 w)"
      using marks(1,4) False by (simp_all add: r_def)
    moreover have "is_full (snd r) = (\<lambda>i. i = w \<or> is_full s i)" using full False by simp
    ultimately show ?thesis using pw(1,2) False by (simp add: ring_ok_def play_queue_def q)
  qed
  moreover have "case fst r of
       None \<Rightarrow> length q = 3 \<and> write_buffer (snd r) = w
     | Some b \<Rightarrow> length q < 3 \<and> b \<notin> set q \<and> write_buffer (snd r) = b \<and> buf_status (output_buffers (snd r) b) = BUFFER_WRITING"
    using pw(6,7) marks(3-5) len unfolding q [symmetric] r_def [symmetric] by (cases "is_full s (next3 w)") simp_all
  ultimately show ?thesis by blast
qed

theorem audio_ring_write_witness:
  "play_queue (snd (audio_next_write_buffer (\<lambda>_. False) (blank_audio ()))) = [0]"
proof -
  let ?s = "blank_audio ()"
  have "play_queue (snd (audio_next_write_buffer (\<lambda>_. False) ?s)) = (if read_buffer ?s = write_buffer ?s \<and> False then []
      else if write_buffer ?s \<in> set (play_queue ?s) then play_queue ?s else play_queue ?s @ [write_buffer ?s])"
    by (rule audio_ring_write [OF blank_audio_ok(2) [of "()"], of "\<lambda>_. False", THEN conjunct2, THEN conjunct1])
  then show ?thesis unfolding blank_queue by simp
qed

text \<open>
  C24: The reader takes the buffers in the order in which they were completed: taking one
  removes the head of the queue and gives the next one, if any. Only when the buffer that is
  taken is also the one the writer stopped at does the order of the ring get lost.
\<close>

theorem audio_ring_read:
  fixes s :: "('a) audio_state_scheme"
  assumes "ring_ok s" "play_queue s \<noteq> [write_buffer s]"
  defines "r \<equiv> audio_next_read_buffer s"
  shows "ring_ok (snd r) \<and> play_queue (snd r) = tl (play_queue s) \<and>
    fst r = (case tl (play_queue s) of [] \<Rightarrow> None | b # _ \<Rightarrow> Some b) \<and>
    (play_queue s = [] \<longrightarrow> snd r = s)"
proof (cases "is_full s (read_buffer s)")
  case True
  have pos: "ring_pos (read_buffer s) (write_buffer s) (is_full s)" using assms(1) by (simp add: ring_ok_def)
  have less: "read_buffer s < 3" using ring_pos_less [OF pos] by simp
  note nr = next_read_full [OF True less, folded r_def]
  have ne: "read_buffer s \<noteq> write_buffer s"
  proof
    assume w: "read_buffer s = write_buffer s"
    then have "\<not> is_full s (next3 (read_buffer s))" "\<not> is_full s (next3 (next3 (read_buffer s)))"
      using pos True next3 [OF less] unfolding ring_pos_def Let_def by metis+
    then show False using assms(2) True w by (simp add: play_queue_def ring_queue_def)
  qed
  have f: "is_full (snd r) = (\<lambda>i. i \<noteq> read_buffer s \<and> is_full s i)" using nr(3) by (simp add: fun_eq_iff)
  have "play_queue s \<noteq> []" using True by (simp add: play_queue_def ring_queue_def)
  moreover have "ring_ok (snd r)" "play_queue (snd r) = tl (play_queue s)"
    using ring_pos_read [OF pos True] ne nr(1,2) f by (simp_all add: ring_ok_def play_queue_def)
  moreover have "fst r = (case tl (play_queue s) of [] \<Rightarrow> None | b # _ \<Rightarrow> Some b)"
    using ring_pos_read(4,5) [OF pos True] nr(4) by (auto simp: play_queue_def split: list.split)
  ultimately show ?thesis by blast
next
  case False
  then have "r = (None, s)" by (simp add: r_def next_read_empty)
  moreover have "play_queue s = []"
    using assms(1) False by (auto simp: ring_ok_def ring_pos_def play_queue_def ring_queue_def Let_def)
  ultimately show ?thesis using assms(1) by simp
qed

lemma ring_okI: "ring_ok s" "play_queue s = [0, 1]"
  if "read_buffer s = 0" "write_buffer s = 2" "is_full s 0" "is_full s 1" "\<not> is_full s 2"
  using that by (simp_all add: ring_ok_def ring_pos_def play_queue_def ring_queue_def Let_def next3_def numeral_2_eq_2)

theorem audio_ring_read_witness:
  "\<exists>s :: unit audio_state_scheme. play_queue s = [0, 1] \<and> fst (audio_next_read_buffer s) = Some 1"
proof -
  define s :: "unit audio_state_scheme" where
    "s = upd_buffer 1 (buf_status_update (\<lambda>_. BUFFER_FULL)) (upd_buffer 0 (buf_status_update (\<lambda>_. BUFFER_FULL)) (blank_audio ()))
       \<lparr>write_buffer := 2\<rparr>"
  have "read_buffer s = 0" "write_buffer s = 2" "is_full s 0" "is_full s 1" "\<not> is_full s 2"
    by (simp_all add: s_def is_full_def upd_buffer_def blank_audio_def audio_state.defs buffer_defs)
  note ok = ring_okI [OF this]
  have "play_queue s \<noteq> [write_buffer s]" using ok(2) by simp
  from audio_ring_read [OF ok(1) this] ok(2) show ?thesis by auto
qed

text \<open>
  When the writer stopped with all buffers full and the driver then plays all three before
  the next sample is mixed, the writer goes on in a buffer behind the read position: the
  buffer it completes next is not found by the reader, and the driver is not called for it.
\<close>

theorem audio_ring_overrun_lost:
  fixes s :: "('a) audio_state_scheme" and process :: "audio_buffer \<Rightarrow> bool"
  assumes "ring_ok s" "play_queue s = [write_buffer s]"
  defines "s1 \<equiv> snd (audio_next_read_buffer s)"
  defines "s2 \<equiv> snd (audio_next_write_buffer process s1)"
  shows "play_queue s1 = [] \<and> write_buffer s1 \<noteq> read_buffer s1 \<and>
    is_full s2 (write_buffer s1) \<and> audio_next_read_buffer s2 = (None, s2)"
proof -
  have pos: "ring_pos (read_buffer s) (write_buffer s) (is_full s)" using assms(1) by (simp add: ring_ok_def)
  have less: "read_buffer s < 3" using ring_pos_less [OF pos] by simp
  have r: "write_buffer s = read_buffer s" "is_full s (read_buffer s)" "\<not> is_full s (next3 (read_buffer s))"
      "\<not> is_full s (next3 (next3 (read_buffer s)))"
    using assms(2) pos next3 [OF less] by (auto simp: play_queue_def ring_queue_def ring_pos_def Let_def split: if_splits)
  note nr = next_read_full [OF r(2) less, folded s1_def]
  have ne: "next3 (read_buffer s) < 3" "next3 (read_buffer s) \<noteq> read_buffer s" using next3 [OF less] by simp_all
  have e: "\<not> is_full s1 i" if "i < 3" for i
  proof -
    have "i = read_buffer s \<or> i = next3 (read_buffer s) \<or> i = next3 (next3 (read_buffer s))"
      using that less by (auto simp: next3_def)
    then show ?thesis using r(3,4) nr(3) [of i] by auto
  qed
  have l1: "read_buffer s1 < 3" "write_buffer s1 < 3" "read_buffer s1 \<noteq> write_buffer s1"
    using nr(1,2) r(1) ne less by simp_all
  note nw = next_write_marks [OF l1(1,2), of process, folded s2_def]
  have "play_queue s1 = []"
    using e next3(1) [OF l1(1)] next3(1) [OF next3(1) [OF l1(1)]] l1(1) by (simp add: play_queue_def ring_queue_def)
  moreover have "is_full s2 (write_buffer s1)" using nw(2) [of "write_buffer s1"] l1(3) by simp
  moreover have "\<not> is_full s2 (read_buffer s2)"
    using nw(1) nw(2) [of "read_buffer s1"] l1 e [OF l1(1)] by simp
  ultimately show ?thesis using l1(3) by (auto intro: next_read_empty)
qed

theorem audio_ring_overrun_lost_witness:
  "\<exists>s :: unit audio_state_scheme. play_queue s = [write_buffer s] \<and>
     write_buffer (snd (audio_next_read_buffer s)) \<noteq> read_buffer (snd (audio_next_read_buffer s))"
proof -
  let ?s = "upd_buffer 0 (buf_status_update (\<lambda>_. BUFFER_FULL)) (blank_audio ())"
  have "is_full ?s = (\<lambda>i. i = 0)" "read_buffer ?s = 0" "write_buffer ?s = 0"
    by (auto simp: is_full_def upd_buffer_def blank_audio_def audio_state.defs buffer_defs fun_eq_iff)
  then have "ring_ok ?s" "play_queue ?s = [write_buffer ?s]"
    by (simp_all add: ring_ok_def ring_pos_def play_queue_def ring_queue_def Let_def next3_def numeral_2_eq_2)
  from audio_ring_overrun_lost [OF this, of "\<lambda>_. False"] this(2) show ?thesis by blast
qed

text \<open>
  The 16-bit output keeps the low 16 bits of the mixed value instead of clamping it: a
  single channel at full volume is output correctly only up to a quarter of the range of
  its samples.
\<close>

lemma int16_exact: "sint (word_of_int v :: u16) = v \<longleftrightarrow> - 32768 \<le> v \<and> v \<le> 32767"
proof -
  have "sint (word_of_int v :: u16) = signed_take_bit 15 v" by (simp add: sint_sbintrunc')
  then show ?thesis by (auto simp: signed_take_bit_int_eq_self_iff)
qed

lemma ld16_put_16bit: "(ucast (ld16 (put_16bit (l, r) p m) p) :: u16) = word_of_int (l div 64)"
proof -
  have "p + 1 \<noteq> p" "p + 2 \<noteq> p" "p + 3 \<noteq> p" "p + 2 \<noteq> p + 1" "p + 3 \<noteq> p + 1" "p + 2 + 1 = p + 3" by simp_all
  then have "ld16 (put_16bit (l, r) p m) p =
      ucast (ucast (of_int (l div 64) :: u32) :: u8) OR push_bit 8 (ucast (ucast (drop_bit 8 (of_int (l div 64) :: u32)) :: u8))"
    by (simp add: put_16bit_def ld16_def st16_def)
  moreover have "(ucast (ucast (ucast v :: u8) OR push_bit 8 (ucast (ucast (drop_bit 8 v) :: u8)) :: u32) :: u16) = ucast v" for v :: u32
    by (rule bit_word_eqI) (auto simp: bit_simps)
  moreover have "(ucast (word_of_int k :: u32) :: u16) = word_of_int k" for k
    by (rule bit_word_eqI) (auto simp: bit_simps)
  ultimately show ?thesis by simp
qed

theorem audio_16bit_wraps:
  assumes "- 32768 \<le> x" "x \<le> 32767"
  shows "sint (ucast (ld16 (put_16bit (x * 255, y) p m) p) :: u16) = x * 255 div 64 \<longleftrightarrow> \<bar>x\<bar> \<le> 8224"
  unfolding ld16_put_16bit int16_exact by auto

theorem audio_16bit_wraps_witness:
  "sint (ucast (ld16 (put_16bit (8225 * 255, 0) 0 (\<lambda>_. 0)) 0) :: u16) \<noteq> 8225 * 255 div 64"
  using audio_16bit_wraps [of 8225 0 0 "\<lambda>_. 0"] by simp

end
