(* ===== verification/ArmRegs.thy ===== *)
theory ArmRegs
  imports Prelude
begin

unbundle bit_operations_syntax

text \<open>
  The register half of \<open>aica/armcore.c\<close>: the register file of the sound processor with
  its banked registers, the status registers, mode switches, exceptions, the condition
  codes, the shifter and the data processing instructions. Nothing here touches memory;
  \<open>ArmCore\<close> builds the instruction loop on top. The flags are words as in the code,
  where any value other than 0 counts as set.
\<close>

section \<open>Registers\<close>

record arm_registers =
  arm_r :: "nat \<Rightarrow> u32"
  arm_cpsr :: u32
  arm_spsr :: u32
  arm_user_r :: "nat \<Rightarrow> u32"
  arm_svc_r :: "nat \<Rightarrow> u32"
  arm_abt_r :: "nat \<Rightarrow> u32"
  arm_und_r :: "nat \<Rightarrow> u32"
  arm_irq_r :: "nat \<Rightarrow> u32"
  arm_fiq_r :: "nat \<Rightarrow> u32"
  arm_c :: u32
  arm_n :: u32
  arm_z :: u32
  arm_v :: u32
  arm_t :: u32
  arm_int_pending :: u32
  arm_shift_c :: u32
  arm_icount :: u32
  arm_running :: bool

definition CPSR_N :: u32 where "CPSR_N = 0x80000000"
definition CPSR_Z :: u32 where "CPSR_Z = 0x40000000"
definition CPSR_C :: u32 where "CPSR_C = 0x20000000"
definition CPSR_V :: u32 where "CPSR_V = 0x10000000"
definition CPSR_I :: u32 where "CPSR_I = 0x00000080"
definition CPSR_F :: u32 where "CPSR_F = 0x00000040"
definition CPSR_T :: u32 where "CPSR_T = 0x00000020"
definition CPSR_MODE :: u32 where "CPSR_MODE = 0x0000001F"
definition CPSR_COMPACT_MASK :: u32 where "CPSR_COMPACT_MASK = 0x0FFFFFDF"

definition MODE_USER :: u32 where "MODE_USER = 0x10"
definition MODE_FIQ :: u32 where "MODE_FIQ = 0x11"
definition MODE_IRQ :: u32 where "MODE_IRQ = 0x12"
definition MODE_SVC :: u32 where "MODE_SVC = 0x13"
definition MODE_ABT :: u32 where "MODE_ABT = 0x17"
definition MODE_UND :: u32 where "MODE_UND = 0x1B"
definition MODE_SYS :: u32 where "MODE_SYS = 0x1F"

lemmas cpsr_defs = CPSR_N_def CPSR_Z_def CPSR_C_def CPSR_V_def CPSR_I_def CPSR_F_def CPSR_T_def
  CPSR_MODE_def CPSR_COMPACT_MASK_def
lemmas mode_defs = MODE_USER_def MODE_FIQ_def MODE_IRQ_def MODE_SVC_def MODE_ABT_def MODE_UND_def MODE_SYS_def

definition EXC_UNDEFINED :: nat where "EXC_UNDEFINED = 1"
definition EXC_SOFTWARE :: nat where "EXC_SOFTWARE = 2"
definition EXC_IRQ :: nat where "EXC_IRQ = 5"
definition EXC_FAST_IRQ :: nat where "EXC_FAST_IRQ = 6"

definition SET_CPSR_CONTROL :: u32 where "SET_CPSR_CONTROL = 0x00010000"
definition SET_CPSR_FLAGS :: u32 where "SET_CPSR_FLAGS = 0x00080000"

definition arm_exceptions :: "(u32 \<times> u32) list" where
  "arm_exceptions = [(MODE_SVC, 0x00), (MODE_UND, 0x04), (MODE_SVC, 0x08), (MODE_ABT, 0x0C), (MODE_ABT, 0x10),
     (MODE_IRQ, 0x18), (MODE_FIQ, 0x1C)]"

definition arm_mode :: "arm_registers \<Rightarrow> u32" where
  "arm_mode a = arm_cpsr a AND CPSR_MODE"

definition IS_PRIVILEGED_MODE :: "arm_registers \<Rightarrow> bool" where
  "IS_PRIVILEGED_MODE a \<longleftrightarrow> arm_mode a \<noteq> MODE_USER"

definition IS_EXCEPTION_MODE :: "arm_registers \<Rightarrow> bool" where
  "IS_EXCEPTION_MODE a \<longleftrightarrow> IS_PRIVILEGED_MODE a \<and> arm_mode a \<noteq> MODE_SYS"

definition IS_FIQ_MODE :: "arm_registers \<Rightarrow> bool" where
  "IS_FIQ_MODE a \<longleftrightarrow> arm_mode a = MODE_FIQ"

section \<open>Status registers, modes and exceptions\<close>

definition arm_reset_regs :: arm_registers where
  "arm_reset_regs = \<lparr>arm_r = (\<lambda>_. 0), arm_cpsr = MODE_SVC OR CPSR_I OR CPSR_F, arm_spsr = 0,
     arm_user_r = (\<lambda>_. 0), arm_svc_r = (\<lambda>_. 0), arm_abt_r = (\<lambda>_. 0), arm_und_r = (\<lambda>_. 0),
     arm_irq_r = (\<lambda>_. 0), arm_fiq_r = (\<lambda>_. 0), arm_c = 0, arm_n = 0, arm_z = 0, arm_v = 0, arm_t = 0,
     arm_int_pending = 0, arm_shift_c = 0, arm_icount = 0, arm_running = True\<rparr>"

definition cpsr_value :: "arm_registers \<Rightarrow> u32" where
  "cpsr_value a =
    (arm_cpsr a AND CPSR_COMPACT_MASK) OR (if arm_n a \<noteq> 0 then CPSR_N else 0) OR (if arm_z a \<noteq> 0 then CPSR_Z else 0)
      OR (if arm_c a \<noteq> 0 then CPSR_C else 0) OR (if arm_v a \<noteq> 0 then CPSR_V else 0)
      OR (if arm_t a \<noteq> 0 then CPSR_T else 0)"

definition arm_get_cpsr :: "arm_registers \<Rightarrow> u32 \<times> arm_registers" where
  "arm_get_cpsr a = (cpsr_value a, a\<lparr>arm_cpsr := cpsr_value a\<rparr>)"

text \<open>The two \<open>switch\<close> statements of \<open>arm_set_mode\<close>: saving the old bank, loading the new one.\<close>

definition arm_save_bank :: "u32 \<Rightarrow> arm_registers \<Rightarrow> arm_registers" where
  "arm_save_bank mode a =
    (let r = arm_r a; bank3 = (\<lambda>b. b(0 := r 13, 1 := r 14, 2 := arm_spsr a))
     in if mode = MODE_USER \<or> mode = MODE_SYS then a\<lparr>arm_user_r := (arm_user_r a)(5 := r 13, 6 := r 14)\<rparr>
        else if mode = MODE_SVC then a\<lparr>arm_svc_r := bank3 (arm_svc_r a)\<rparr>
        else if mode = MODE_ABT then a\<lparr>arm_abt_r := bank3 (arm_abt_r a)\<rparr>
        else if mode = MODE_UND then a\<lparr>arm_und_r := bank3 (arm_und_r a)\<rparr>
        else if mode = MODE_IRQ then a\<lparr>arm_irq_r := bank3 (arm_irq_r a)\<rparr>
        else if mode = MODE_FIQ then
          a\<lparr>arm_fiq_r := (arm_fiq_r a)(0 := r 8, 1 := r 9, 2 := r 10, 3 := r 11, 4 := r 12, 5 := r 13, 6 := r 14,
               7 := arm_spsr a),
            arm_r := r(8 := arm_user_r a 0, 9 := arm_user_r a 1, 10 := arm_user_r a 2, 11 := arm_user_r a 3,
               12 := arm_user_r a 4)\<rparr>
        else a)"

definition arm_load_bank :: "u32 \<Rightarrow> arm_registers \<Rightarrow> arm_registers" where
  "arm_load_bank mode a =
    (let r = arm_r a; use3 = (\<lambda>b. a\<lparr>arm_r := r(13 := b 0, 14 := b 1), arm_spsr := b 2\<rparr>)
     in if mode = MODE_USER \<or> mode = MODE_SYS then a\<lparr>arm_r := r(13 := arm_user_r a 5, 14 := arm_user_r a 6)\<rparr>
        else if mode = MODE_SVC then use3 (arm_svc_r a)
        else if mode = MODE_ABT then use3 (arm_abt_r a)
        else if mode = MODE_UND then use3 (arm_und_r a)
        else if mode = MODE_IRQ then use3 (arm_irq_r a)
        else if mode = MODE_FIQ then
          a\<lparr>arm_user_r := (arm_user_r a)(0 := r 8, 1 := r 9, 2 := r 10, 3 := r 11, 4 := r 12),
            arm_r := r(8 := arm_fiq_r a 0, 9 := arm_fiq_r a 1, 10 := arm_fiq_r a 2, 11 := arm_fiq_r a 3,
               12 := arm_fiq_r a 4, 13 := arm_fiq_r a 5, 14 := arm_fiq_r a 6),
            arm_spsr := arm_fiq_r a 7\<rparr>
        else a)"

definition arm_set_mode :: "u32 \<Rightarrow> arm_registers \<Rightarrow> arm_registers" where
  "arm_set_mode targetMode a =
    (if arm_mode a = targetMode then a else arm_load_bank targetMode (arm_save_bank (arm_mode a) a))"

definition arm_set_cpsr :: "u32 \<Rightarrow> u32 \<Rightarrow> arm_registers \<Rightarrow> arm_registers" where
  "arm_set_cpsr v flds a =
    (let a1 = (if IS_PRIVILEGED_MODE a \<and> flds AND SET_CPSR_CONTROL \<noteq> 0 then
                 let a0 = arm_set_mode (v AND CPSR_MODE) a
                 in a0\<lparr>arm_t := v AND CPSR_T, arm_cpsr := (arm_cpsr a0 AND 0xFFFFFF00) OR (v AND 0xFF)\<rparr>
               else a)
     in if flds AND SET_CPSR_FLAGS \<noteq> 0
        then a1\<lparr>arm_n := v AND CPSR_N, arm_z := v AND CPSR_Z, arm_c := v AND CPSR_C, arm_v := v AND CPSR_V\<rparr>
        else a1)"

definition arm_set_spsr :: "u32 \<Rightarrow> u32 \<Rightarrow> arm_registers \<Rightarrow> arm_registers" where
  "arm_set_spsr v flds a =
    (if IS_EXCEPTION_MODE a then
       let a1 = (if flds AND SET_CPSR_CONTROL \<noteq> 0
                 then a\<lparr>arm_spsr := (arm_spsr a AND 0xFFFFFF00) OR (v AND 0xFF)\<rparr> else a)
       in if flds AND SET_CPSR_FLAGS \<noteq> 0
          then a1\<lparr>arm_spsr := (arm_spsr a1 AND 0x00FFFFFF) OR (v AND 0xFF000000)\<rparr> else a1
     else a)"

definition arm_raise_exception :: "nat \<Rightarrow> arm_registers \<Rightarrow> arm_registers" where
  "arm_raise_exception exception a =
    (let (mode, vector) = arm_exceptions ! exception;
         (spsr, a1) = arm_get_cpsr a;
         a2 = (arm_set_mode mode a1)\<lparr>arm_spsr := spsr\<rparr>;
         a3 = a2\<lparr>arm_r := (arm_r a2)(14 := arm_r a2 15 + 4),
                 arm_cpsr := (spsr AND 0xFFFFFF00) OR mode OR CPSR_I\<rparr>;
         a4 = (if mode = MODE_FIQ then a3\<lparr>arm_cpsr := arm_cpsr a3 OR CPSR_F\<rparr> else a3)
     in a4\<lparr>arm_r := (arm_r a4)(15 := vector)\<rparr>)"

definition arm_restore_cpsr :: "arm_registers \<Rightarrow> arm_registers" where
  "arm_restore_cpsr a =
    (let spsr = arm_spsr a
     in (arm_set_mode (spsr AND CPSR_MODE) a)\<lparr>arm_cpsr := spsr, arm_n := spsr AND CPSR_N,
          arm_z := spsr AND CPSR_Z, arm_c := spsr AND CPSR_C, arm_v := spsr AND CPSR_V, arm_t := spsr AND CPSR_T\<rparr>)"

text \<open>
  \<open>arm_user_reg\<close> returns a pointer into \<open>struct arm_registers\<close>. In FIQ mode its test
  \<open>reg >= 8 || reg <= 12\<close> always holds, and \<open>user_r[reg-8]\<close> with \<open>reg\<close> below 8 or equal to
  15 lies outside the array but inside the structure. The model returns the index of the
  32-bit word of the structure.
\<close>

definition arm_user_reg :: "nat \<Rightarrow> arm_registers \<Rightarrow> nat" where
  "arm_user_reg reg a =
    (if IS_EXCEPTION_MODE a \<and> (reg = 13 \<or> reg = 14 \<or> IS_FIQ_MODE a) then 18 + reg - 8 else reg)"

definition arm_word :: "nat \<Rightarrow> arm_registers \<Rightarrow> u32" where
  "arm_word i a =
    (if i < 16 then arm_r a i else if i = 16 then arm_cpsr a else if i = 17 then arm_spsr a
     else if i < 25 then arm_user_r a (i - 18) else arm_svc_r a (i - 25))"

definition arm_set_word :: "nat \<Rightarrow> u32 \<Rightarrow> arm_registers \<Rightarrow> arm_registers" where
  "arm_set_word i v a =
    (if i < 16 then a\<lparr>arm_r := (arm_r a)(i := v)\<rparr> else if i = 16 then a\<lparr>arm_cpsr := v\<rparr>
     else if i = 17 then a\<lparr>arm_spsr := v\<rparr>
     else if i < 25 then a\<lparr>arm_user_r := (arm_user_r a)(i - 18 := v)\<rparr>
     else a\<lparr>arm_svc_r := (arm_svc_r a)(i - 25 := v)\<rparr>)"

section \<open>Instruction flds\<close>

definition COND :: "u32 \<Rightarrow> u32" where "COND ir = drop_bit 28 ir"
definition GRP :: "u32 \<Rightarrow> u32" where "GRP ir = drop_bit 26 ir AND 3"
definition OPCODE :: "u32 \<Rightarrow> u32" where "OPCODE ir = drop_bit 20 ir AND 0x1F"
definition IFLAG :: "u32 \<Rightarrow> bool" where "IFLAG ir \<longleftrightarrow> ir AND 0x02000000 \<noteq> 0"
definition WFLAG :: "u32 \<Rightarrow> bool" where "WFLAG ir \<longleftrightarrow> ir AND 0x00200000 \<noteq> 0"
definition LFLAG :: "u32 \<Rightarrow> bool" where "LFLAG ir \<longleftrightarrow> ir AND 0x00100000 \<noteq> 0"
definition RNn :: "u32 \<Rightarrow> nat" where "RNn ir = unat (drop_bit 16 ir AND 0x0F)"
definition RDn :: "u32 \<Rightarrow> nat" where "RDn ir = unat (drop_bit 12 ir AND 0x0F)"
definition RSn :: "u32 \<Rightarrow> nat" where "RSn ir = unat (drop_bit 8 ir AND 0x0F)"
definition RMn :: "u32 \<Rightarrow> nat" where "RMn ir = unat (ir AND 0x0F)"
definition IMM8 :: "u32 \<Rightarrow> u32" where "IMM8 ir = ir AND 0xFF"
definition IMM12 :: "u32 \<Rightarrow> u32" where "IMM12 ir = ir AND 0xFFF"
definition IMMSPLIT8 :: "u32 \<Rightarrow> u32" where "IMMSPLIT8 ir = drop_bit 4 (ir AND 0xF00) OR (ir AND 0x0F)"
definition SHIFTIMM :: "u32 \<Rightarrow> u32" where "SHIFTIMM ir = drop_bit 7 ir AND 0x1F"
definition IMMROT :: "u32 \<Rightarrow> u32" where "IMMROT ir = drop_bit 7 ir AND 0x1E"
definition ROTIMM12 :: "u32 \<Rightarrow> u32" where "ROTIMM12 ir = ROTATE_RIGHT_LONG (IMM8 ir) (IMMROT ir)"
definition SHIFT :: "u32 \<Rightarrow> u32" where "SHIFT ir = drop_bit 4 ir AND 7"
definition SIGNEXT24 :: "u32 \<Rightarrow> u32" where
  "SIGNEXT24 n = (if n AND 0x00800000 \<noteq> 0 then n OR 0xFF000000 else n AND 0x00FFFFFF)"

text \<open>Reading register 15 gives the address of the instruction plus 8.\<close>

definition arm_operand_reg :: "nat \<Rightarrow> arm_registers \<Rightarrow> u32" where
  "arm_operand_reg i a = arm_r a i + (if i = 15 then 4 else 0)"

definition RN :: "u32 \<Rightarrow> arm_registers \<Rightarrow> u32" where "RN ir = arm_operand_reg (RNn ir)"
definition RD :: "u32 \<Rightarrow> arm_registers \<Rightarrow> u32" where "RD ir = arm_operand_reg (RDn ir)"
definition RS :: "u32 \<Rightarrow> arm_registers \<Rightarrow> u32" where "RS ir = arm_operand_reg (RSn ir)"
definition RM :: "u32 \<Rightarrow> arm_registers \<Rightarrow> u32" where "RM ir = arm_operand_reg (RMn ir)"

definition set_r :: "nat \<Rightarrow> u32 \<Rightarrow> arm_registers \<Rightarrow> arm_registers" where
  "set_r i v a = a\<lparr>arm_r := (arm_r a)(i := v)\<rparr>"

definition IS_NOTBORROW :: "u32 \<Rightarrow> u32 \<Rightarrow> u32" where
  "IS_NOTBORROW op1 op2 = (if op1 < op2 then 0 else 1)"
definition IS_CARRY :: "u32 \<Rightarrow> u32 \<Rightarrow> u32" where
  "IS_CARRY result op1 = (if result < op1 then 1 else 0)"
definition IS_SUBOVERFLOW :: "u32 \<Rightarrow> u32 \<Rightarrow> u32 \<Rightarrow> u32" where
  "IS_SUBOVERFLOW result op1 op2 = drop_bit 31 ((op1 XOR op2) AND (result XOR op1))"
definition IS_ADDOVERFLOW :: "u32 \<Rightarrow> u32 \<Rightarrow> u32 \<Rightarrow> u32" where
  "IS_ADDOVERFLOW result op1 op2 = drop_bit 31 ((op1 AND op2) AND (result XOR op1))"

text \<open>The condition field; the value 15 is dealt with before it is used.\<close>

definition arm_condition :: "u32 \<Rightarrow> arm_registers \<Rightarrow> bool" where
  "arm_condition cond a =
    (if cond = 0 then arm_z a \<noteq> 0
     else if cond = 1 then arm_z a = 0
     else if cond = 2 then arm_c a \<noteq> 0
     else if cond = 3 then arm_c a = 0
     else if cond = 4 then arm_n a \<noteq> 0
     else if cond = 5 then arm_n a = 0
     else if cond = 6 then arm_v a \<noteq> 0
     else if cond = 7 then arm_v a = 0
     else if cond = 8 then arm_c a \<noteq> 0 \<and> arm_z a = 0
     else if cond = 9 then arm_c a = 0 \<or> arm_z a \<noteq> 0
     else if cond = 10 then arm_n a = arm_v a
     else if cond = 11 then arm_n a \<noteq> arm_v a
     else if cond = 12 then arm_z a = 0 \<and> arm_n a = arm_v a
     else if cond = 13 then arm_z a \<noteq> 0 \<or> arm_n a \<noteq> arm_v a
     else cond = 14)"

section \<open>The shifter\<close>

definition RRX :: "u32 \<Rightarrow> arm_registers \<Rightarrow> u32" where
  "RRX operand a = drop_bit 1 operand OR push_bit 31 (arm_c a)"

definition arm_get_shift_operand :: "u32 \<Rightarrow> arm_registers \<Rightarrow> u32" where
  "arm_get_shift_operand ir a =
    (if \<not> IFLAG ir then
       let operand = RM ir a; sh = SHIFT ir; imm = SHIFTIMM ir; rs = RS ir a AND 0xFF
       in if sh = 0 then shl32 operand imm
          else if sh = 1 then (if 31 < rs then 0 else shl32 operand rs)
          else if sh = 2 then shr32 operand imm
          else if sh = 3 then (if 31 < rs then 0 else shr32 operand ir)
          else if sh = 4 then (if imm = 0 then sar32 operand 31 else sar32 operand imm)
          else if sh = 5 then (if 31 < rs then sar32 operand 31 else sar32 operand rs)
          else if sh = 6 then (if imm = 0 then RRX operand a else ROTATE_RIGHT_LONG operand imm)
          else ROTATE_RIGHT_LONG operand (RS ir a AND 0x1F)
     else ROTATE_RIGHT_LONG (IMM8 ir) (IMMROT ir))"

text \<open>The shifter result together with the value of \<open>shift_c\<close>.\<close>

definition shift_operand_and_carry :: "u32 \<Rightarrow> arm_registers \<Rightarrow> u32 \<times> u32" where
  "shift_operand_and_carry ir a =
    (if \<not> IFLAG ir then
       let operand = RM ir a; sh = SHIFT ir; imm = SHIFTIMM ir; rs = RS ir a AND 0xFF; c = arm_c a
       in if sh = 0 then
            (if imm = 0 then (operand, c) else (shl32 operand imm, shr32 operand (32 - imm) AND 1))
          else if sh = 1 then
            (if rs = 0 then (operand, c)
             else (if rs < 32 then shl32 operand rs else 0, if rs \<le> 32 then shr32 operand (32 - rs) AND 1 else 0))
          else if sh = 2 then
            (if imm = 0 then (0, drop_bit 31 operand) else (shr32 operand imm, shr32 operand (imm - 1) AND 1))
          else if sh = 3 then
            (if rs = 0 then (operand, c)
             else (if rs < 32 then shr32 operand rs else 0, if rs \<le> 32 then shr32 operand (rs - 1) AND 1 else 0))
          else if sh = 4 then
            (if imm = 0 then (- drop_bit 31 operand, drop_bit 31 operand)
             else (sar32 operand imm, shr32 operand (imm - 1) AND 1))
          else if sh = 5 then
            (if rs = 0 then (operand, c)
             else if rs < 32 then (sar32 operand rs, shr32 operand (rs - 1) AND 1)
             else (sar32 operand 31, drop_bit 31 operand))
          else if sh = 6 then
            (if imm = 0 then (RRX operand a, operand AND 1)
             else (ROTATE_RIGHT_LONG operand imm, shr32 operand (imm - 1)))
          else
            (if rs = 0 then (operand, c)
             else let n = rs AND 0x1F
                  in if n = 0 then (operand, drop_bit 31 operand)
                     else (ROTATE_RIGHT_LONG operand n, shr32 operand (n - 1) AND 1))
     else if IMMROT ir = 0 then (IMM8 ir, arm_c a)
     else let operand = ROTATE_RIGHT_LONG (IMM8 ir) (IMMROT ir) in (operand, drop_bit 31 operand))"

definition arm_get_shift_operand_s :: "u32 \<Rightarrow> arm_registers \<Rightarrow> u32 \<times> arm_registers" where
  "arm_get_shift_operand_s ir a =
    (let (operand, sc) = shift_operand_and_carry ir a in (operand, a\<lparr>arm_shift_c := sc\<rparr>))"

section \<open>Data processing instructions\<close>

definition set_flags :: "u32 \<Rightarrow> u32 \<Rightarrow> u32 \<Rightarrow> arm_registers \<Rightarrow> arm_registers" where
  "set_flags result c v a =
    a\<lparr>arm_n := drop_bit 31 result, arm_z := b2w (result = 0), arm_c := c, arm_v := v\<rparr>"

text \<open>The end of the logical instructions with the S bit: the carry comes from the shifter.\<close>

definition logic_result :: "u32 \<Rightarrow> u32 \<Rightarrow> arm_registers \<Rightarrow> arm_registers" where
  "logic_result ir operand a =
    (let a1 = set_r (RDn ir) operand a
     in if RDn ir = 15 then arm_restore_cpsr a1
        else set_flags operand (arm_shift_c a1) (arm_v a1) a1)"

text \<open>The opcodes that combine \<open>Rn\<close> and the operand bitwise or just move the operand.\<close>

definition logic_op :: "u32 \<Rightarrow> u32 \<Rightarrow> u32 \<Rightarrow> u32" where
  "logic_op opcode rn operand =
    (if opcode = 0 \<or> opcode = 1 then rn AND operand
     else if opcode = 2 \<or> opcode = 3 then rn XOR operand
     else if opcode = 24 \<or> opcode = 25 then rn OR operand
     else if opcode = 26 \<or> opcode = 27 then operand
     else if opcode = 28 \<or> opcode = 29 then rn AND NOT operand
     else NOT operand)"

definition arm_dp_logic :: "u32 \<Rightarrow> arm_registers \<Rightarrow> arm_registers" where
  "arm_dp_logic ir a =
    (if OPCODE ir AND 1 = 0
     then set_r (RDn ir) (logic_op (OPCODE ir) (RN ir a) (arm_get_shift_operand ir a)) a
     else let (operand, a1) = arm_get_shift_operand_s ir a
          in logic_result ir (logic_op (OPCODE ir) (RN ir a1) operand) a1)"

definition arith_result :: "u32 \<Rightarrow> u32 \<Rightarrow> u32 \<Rightarrow> u32 \<Rightarrow> arm_registers \<Rightarrow> arm_registers" where
  "arith_result ir result c v a =
    (let a1 = set_r (RDn ir) result a
     in if RDn ir = 15 then arm_restore_cpsr a1 else set_flags result c v a1)"

definition arm_dp_arith :: "u32 \<Rightarrow> arm_registers \<Rightarrow> arm_registers" where
  "arm_dp_arith ir a =
    (let rn = RN ir a; so = arm_get_shift_operand ir a; rd = RDn ir; op = OPCODE ir
     in if op = 4 then set_r rd (rn - so) a
        else if op = 5 then arith_result ir (rn - so) (IS_NOTBORROW rn so) (IS_SUBOVERFLOW (rn - so) rn so) a
        else if op = 6 then set_r rd (so - rn) a
        else if op = 7 then arith_result ir (so - rn) (IS_NOTBORROW so rn) (IS_SUBOVERFLOW (so - rn) so rn) a
        else if op = 8 then set_r rd (rn + so) a
        else arith_result ir (so + rn) (IS_CARRY (so + rn) so) (IS_ADDOVERFLOW (so + rn) so rn) a)"

text \<open>
  The arithmetic instructions with carry. The S forms of the subtractions do not write
  the destination register, and in \<open>ADCS\<close> the sum is the condition of the \<open>?:\<close> operator.
\<close>

definition sub_carry_flags :: "u32 \<Rightarrow> u32 \<Rightarrow> u32 \<Rightarrow> arm_registers \<Rightarrow> arm_registers" where
  "sub_carry_flags ir operand operand2 a =
    (let tmp = operand - operand2; tmp2 = tmp - (if arm_c a \<noteq> 0 then 0 else 1)
     in if RDn ir = 15 then arm_restore_cpsr a
        else set_flags tmp (b2w (IS_NOTBORROW operand operand2 \<noteq> 0 \<and> tmp2 < tmp))
               (b2w (IS_SUBOVERFLOW tmp operand operand2 \<noteq> 0 \<or> tmp AND 0x80000000 \<noteq> tmp2 AND 0x80000000)) a)"

definition arm_dp_carry :: "u32 \<Rightarrow> arm_registers \<Rightarrow> arm_registers" where
  "arm_dp_carry ir a =
    (let rn = RN ir a; so = arm_get_shift_operand ir a; rd = RDn ir; op = OPCODE ir
     in if op = 10 then set_r rd (rn + so + (if arm_c a \<noteq> 0 then 1 else 0)) a
        else if op = 11 then
          let tmp = so + rn; tmp2 = (if tmp + arm_c a \<noteq> 0 then 1 else 0); a1 = set_r rd tmp2 a
          in if rd = 15 then arm_restore_cpsr a1
             else set_flags tmp (b2w (IS_CARRY tmp so \<noteq> 0 \<or> tmp2 < tmp))
                    (b2w (IS_ADDOVERFLOW tmp so rn \<noteq> 0 \<or> tmp AND 0x80000000 \<noteq> tmp2 AND 0x80000000)) a1
        else if op = 12 then set_r rd (rn - so - (if arm_c a \<noteq> 0 then 0 else 1)) a
        else if op = 13 then sub_carry_flags ir rn so a
        else if op = 14 then set_r rd (so - rn - (if arm_c a \<noteq> 0 then 0 else 1)) a
        else sub_carry_flags ir so rn a)"

definition arm_dp_test :: "u32 \<Rightarrow> arm_registers \<Rightarrow> arm_registers" where
  "arm_dp_test ir a =
    (let op = OPCODE ir; rn = RN ir a; so = arm_get_shift_operand ir a
     in if op = 17 \<or> op = 19 then
          let (operand, a1) = arm_get_shift_operand_s ir a;
              res = (if op = 17 then operand AND RN ir a1 else operand XOR RN ir a1)
          in set_flags res (arm_shift_c a1) (arm_v a1) a1
        else if op = 21
        then set_flags (rn - so) (IS_NOTBORROW rn so) (IS_SUBOVERFLOW (rn - so) rn so) a
        else set_flags (rn + so) (IS_CARRY (rn + so) rn) (IS_ADDOVERFLOW (rn + so) rn so) a)"

text \<open>\<open>None\<close> is an opcode that the code does not implement.\<close>

definition arm_data_processing :: "u32 \<Rightarrow> arm_registers \<Rightarrow> arm_registers option" where
  "arm_data_processing ir a =
    (let op = OPCODE ir
     in if op < 4 \<or> 24 \<le> op then Some (arm_dp_logic ir a)
        else if op < 10 then Some (arm_dp_arith ir a)
        else if op < 16 then Some (arm_dp_carry ir a)
        else if op = 17 \<or> op = 19 \<or> op = 21 \<or> op = 23 then Some (arm_dp_test ir a)
        else None)"

section \<open>Banks\<close>

text \<open>
  The register that mode \<open>m\<close> calls \<open>i\<close>, wherever it is kept at the moment. User and system
  mode share their registers, and only the fast interrupt mode has its own R8 to R12.
\<close>

definition arm_modes :: "u32 set" where
  "arm_modes = {MODE_USER, MODE_FIQ, MODE_IRQ, MODE_SVC, MODE_ABT, MODE_UND, MODE_SYS}"

definition bank_class :: "u32 \<Rightarrow> u32" where
  "bank_class m = (if m = MODE_SYS then MODE_USER else m)"

definition saved_reg :: "u32 \<Rightarrow> nat \<Rightarrow> arm_registers \<Rightarrow> u32" where
  "saved_reg m i a =
    (if bank_class m = MODE_USER then arm_user_r a (i - 8)
     else if m = MODE_FIQ then arm_fiq_r a (i - 8)
     else if m = MODE_IRQ then arm_irq_r a (i - 13)
     else if m = MODE_SVC then arm_svc_r a (i - 13)
     else if m = MODE_ABT then arm_abt_r a (i - 13)
     else arm_und_r a (i - 13))"

definition view_reg :: "u32 \<Rightarrow> u32 \<Rightarrow> nat \<Rightarrow> arm_registers \<Rightarrow> u32" where
  "view_reg cm m i a =
    (if i < 8 \<or> i = 15 then arm_r a i
     else if i < 13 then
       (if (m = MODE_FIQ) = (cm = MODE_FIQ) then arm_r a i
        else if m = MODE_FIQ then arm_fiq_r a (i - 8) else arm_user_r a (i - 8))
     else if bank_class m = bank_class cm then arm_r a i else saved_reg m i a)"

text \<open>The saved status word of an exception mode follows the two registers of its bank.\<close>

definition view_spsr :: "u32 \<Rightarrow> u32 \<Rightarrow> arm_registers \<Rightarrow> u32" where
  "view_spsr cm m a = (if m = cm then arm_spsr a else saved_reg m 15 a)"

definition arm_bank :: "u32 \<Rightarrow> nat \<Rightarrow> arm_registers \<Rightarrow> u32" where
  "arm_bank m i a = view_reg (arm_mode a) m i a"

definition arm_bank_spsr :: "u32 \<Rightarrow> arm_registers \<Rightarrow> u32" where
  "arm_bank_spsr m a = view_spsr (arm_mode a) m a"

text \<open>Between the two halves of a mode switch every banked register is in its bank.\<close>

definition parked_reg :: "u32 \<Rightarrow> nat \<Rightarrow> arm_registers \<Rightarrow> u32" where
  "parked_reg m i a =
    (if i < 8 \<or> i = 15 then arm_r a i
     else if i < 13 then (if m = MODE_FIQ then arm_fiq_r a (i - 8) else arm_r a i)
     else saved_reg m i a)"

lemma between_8_13: "\<not> (i :: nat) < 8 \<Longrightarrow> i < 13 \<Longrightarrow> i = 8 \<or> i = 9 \<or> i = 10 \<or> i = 11 \<or> i = 12"
  by auto

lemma from_13: "\<not> (i :: nat) < 13 \<Longrightarrow> i < 16 \<Longrightarrow> i \<noteq> 15 \<Longrightarrow> i = 13 \<or> i = 14"
  by auto

lemma save_bank_parks:
  assumes "m \<in> arm_modes" "i < 16"
  shows "parked_reg m i (arm_save_bank cm a) = view_reg cm m i a"
proof -
  consider "i < 8 \<or> i = 15" | "\<not> i < 8" "i < 13" | "i = 13 \<or> i = 14" using assms(2) by linarith
  then show ?thesis
  proof cases
    case 1
    then show ?thesis by (auto simp: parked_reg_def view_reg_def arm_save_bank_def Let_def)
  next
    case 2
    then have "i = 8 \<or> i = 9 \<or> i = 10 \<or> i = 11 \<or> i = 12" by (rule between_8_13)
    then show ?thesis
      by (elim disjE) (simp_all add: parked_reg_def view_reg_def arm_save_bank_def Let_def mode_defs)
  next
    case 3
    then show ?thesis
      using assms(1) unfolding arm_modes_def insert_iff
      by (elim disjE) (simp_all add: parked_reg_def view_reg_def arm_save_bank_def saved_reg_def bank_class_def Let_def mode_defs)
  qed
qed

lemma load_bank_shows:
  assumes "m \<in> arm_modes" "i < 16"
  shows "view_reg m' m i (arm_load_bank m' a) = parked_reg m i a"
proof -
  consider "i < 8 \<or> i = 15" | "\<not> i < 8" "i < 13" | "i = 13 \<or> i = 14" using assms(2) by linarith
  then show ?thesis
  proof cases
    case 1
    then show ?thesis by (auto simp: parked_reg_def view_reg_def arm_load_bank_def Let_def)
  next
    case 2
    then have "i = 8 \<or> i = 9 \<or> i = 10 \<or> i = 11 \<or> i = 12" by (rule between_8_13)
    then show ?thesis
      by (elim disjE) (simp_all add: parked_reg_def view_reg_def arm_load_bank_def Let_def mode_defs)
  next
    case 3
    then show ?thesis
      using assms(1) unfolding arm_modes_def insert_iff
      by (elim disjE) (simp_all add: parked_reg_def view_reg_def arm_load_bank_def saved_reg_def bank_class_def Let_def mode_defs)
  qed
qed

lemma saved_spsr:
  assumes "m \<in> arm_modes" "bank_class m \<noteq> MODE_USER"
  shows "saved_reg m 15 (arm_save_bank cm a) = view_spsr cm m a"
    "view_spsr m' m (arm_load_bank m' a) = saved_reg m 15 a"
  using assms unfolding arm_modes_def insert_iff
  by (elim disjE; simp add: view_spsr_def saved_reg_def arm_save_bank_def arm_load_bank_def bank_class_def Let_def mode_defs)+

lemma set_mode_view:
  assumes "m \<in> arm_modes" "i < 16"
  shows "view_reg m' m i (arm_set_mode m' a) = arm_bank m i a"
  using load_bank_shows [OF assms, of m' "arm_save_bank (arm_mode a) a"] save_bank_parks [OF assms]
  by (auto simp: arm_set_mode_def arm_bank_def)

lemma set_mode_view_spsr:
  assumes "m \<in> arm_modes" "bank_class m \<noteq> MODE_USER"
  shows "view_spsr m' m (arm_set_mode m' a) = arm_bank_spsr m a"
  using saved_spsr [OF assms] by (auto simp: arm_set_mode_def arm_bank_spsr_def)

lemma save_load_frame [simp]:
  "arm_cpsr (arm_save_bank m a) = arm_cpsr a" "arm_cpsr (arm_load_bank m a) = arm_cpsr a"
  "arm_n (arm_save_bank m a) = arm_n a" "arm_n (arm_load_bank m a) = arm_n a"
  "arm_z (arm_save_bank m a) = arm_z a" "arm_z (arm_load_bank m a) = arm_z a"
  "arm_c (arm_save_bank m a) = arm_c a" "arm_c (arm_load_bank m a) = arm_c a"
  "arm_v (arm_save_bank m a) = arm_v a" "arm_v (arm_load_bank m a) = arm_v a"
  "arm_t (arm_save_bank m a) = arm_t a" "arm_t (arm_load_bank m a) = arm_t a"
  "arm_r (arm_save_bank m a) 15 = arm_r a 15" "arm_r (arm_load_bank m a) 15 = arm_r a 15"
  "arm_running (arm_save_bank m a) = arm_running a" "arm_running (arm_load_bank m a) = arm_running a"
  "arm_int_pending (arm_save_bank m a) = arm_int_pending a" "arm_int_pending (arm_load_bank m a) = arm_int_pending a"
  by (simp_all add: arm_save_bank_def arm_load_bank_def Let_def)

lemma set_mode_frame [simp]:
  "arm_cpsr (arm_set_mode m a) = arm_cpsr a" "arm_n (arm_set_mode m a) = arm_n a" "arm_z (arm_set_mode m a) = arm_z a"
  "arm_c (arm_set_mode m a) = arm_c a" "arm_v (arm_set_mode m a) = arm_v a" "arm_t (arm_set_mode m a) = arm_t a"
  "arm_r (arm_set_mode m a) 15 = arm_r a 15" "arm_running (arm_set_mode m a) = arm_running a"
  "arm_int_pending (arm_set_mode m a) = arm_int_pending a"
  by (simp_all add: arm_set_mode_def)

lemma view_reg_frame [simp]:
  "view_reg cm m i (a\<lparr>arm_cpsr := x\<rparr>) = view_reg cm m i a" "view_reg cm m i (a\<lparr>arm_n := x\<rparr>) = view_reg cm m i a"
  "view_reg cm m i (a\<lparr>arm_z := x\<rparr>) = view_reg cm m i a" "view_reg cm m i (a\<lparr>arm_c := x\<rparr>) = view_reg cm m i a"
  "view_reg cm m i (a\<lparr>arm_v := x\<rparr>) = view_reg cm m i a" "view_reg cm m i (a\<lparr>arm_t := x\<rparr>) = view_reg cm m i a"
  "view_reg cm m i (a\<lparr>arm_spsr := x\<rparr>) = view_reg cm m i a"
  "view_spsr cm m (a\<lparr>arm_cpsr := x\<rparr>) = view_spsr cm m a" "view_spsr cm m (a\<lparr>arm_n := x\<rparr>) = view_spsr cm m a"
  "view_spsr cm m (a\<lparr>arm_z := x\<rparr>) = view_spsr cm m a" "view_spsr cm m (a\<lparr>arm_c := x\<rparr>) = view_spsr cm m a"
  "view_spsr cm m (a\<lparr>arm_v := x\<rparr>) = view_spsr cm m a" "view_spsr cm m (a\<lparr>arm_t := x\<rparr>) = view_spsr cm m a"
  "view_spsr cm m (a\<lparr>arm_r := y\<rparr>) = view_spsr cm m a"
  by (simp_all add: view_reg_def view_spsr_def saved_reg_def)

lemma mode_mask: "m \<in> arm_modes \<Longrightarrow> m AND CPSR_MODE = m"
  by (auto simp: arm_modes_def mode_defs cpsr_defs)

text \<open>
  C28: Switching to a mode and putting it into the status register loses no register of any
  mode, nor the saved status word of any exception mode.
\<close>

theorem arm_mode_switch_banks:
  fixes a :: arm_registers and c m' :: u32
  assumes "c AND CPSR_MODE = m'"
  defines "b \<equiv> (arm_set_mode m' a)\<lparr>arm_cpsr := c\<rparr>"
  shows "(\<forall>m \<in> arm_modes. \<forall>i < 16. arm_bank m i b = arm_bank m i a) \<and>
    (\<forall>m \<in> arm_modes - {MODE_USER, MODE_SYS}. arm_bank_spsr m b = arm_bank_spsr m a) \<and>
    (\<forall>i. arm_r b i = arm_bank m' i b)"
proof -
  have m: "arm_mode b = m'" using assms(1) by (simp add: b_def arm_mode_def)
  have "\<forall>m \<in> arm_modes. \<forall>i < 16. arm_bank m i b = arm_bank m i a"
    using set_mode_view unfolding arm_bank_def m by (simp add: b_def arm_bank_def)
  moreover have "\<forall>m \<in> arm_modes - {MODE_USER, MODE_SYS}. arm_bank_spsr m b = arm_bank_spsr m a"
    using set_mode_view_spsr unfolding arm_bank_spsr_def m by (simp add: b_def arm_bank_spsr_def bank_class_def)
  moreover have "\<forall>i. arm_r b i = arm_bank m' i b" by (simp add: arm_bank_def m view_reg_def)
  ultimately show ?thesis by blast
qed

theorem arm_mode_switch_banks_witness:
  "arm_bank MODE_SVC 13 ((arm_set_mode MODE_IRQ (set_r 13 7 arm_reset_regs))\<lparr>arm_cpsr := MODE_IRQ\<rparr>) = 7"
proof -
  have m: "MODE_IRQ AND CPSR_MODE = MODE_IRQ" "MODE_SVC \<in> arm_modes" by (simp_all add: mode_defs cpsr_defs arm_modes_def)
  have "arm_bank MODE_SVC 13 (set_r 13 7 arm_reset_regs) = 7"
    by (simp add: mode_defs cpsr_defs arm_bank_def arm_mode_def view_reg_def set_r_def arm_reset_regs_def bank_class_def)
  then show ?thesis
    using arm_mode_switch_banks [OF m(1), of "set_r 13 7 arm_reset_regs", THEN conjunct1, rule_format, OF m(2), of 13] by simp
qed

section \<open>Status word\<close>

lemma single_bit: "(if v AND 2 ^ n \<noteq> 0 then 2 ^ n else 0) = (v :: u32) AND 2 ^ n"
proof (cases "bit v n")
  case True
  then have "v AND 2 ^ n = 2 ^ n" by (intro bit_word_eqI) (auto simp: bit_simps)
  then show ?thesis by simp
next
  case False
  then show ?thesis by (simp add: and_exp_eq_0_iff_not_bit)
qed

lemma arm_flag_powers: "CPSR_N = 2 ^ 31" "CPSR_Z = 2 ^ 30" "CPSR_C = 2 ^ 29" "CPSR_V = 2 ^ 28" "CPSR_F = 2 ^ 6" "CPSR_T = 2 ^ 5"
  by (simp_all add: cpsr_defs)

lemma flag_bits:
  "(if v AND CPSR_N \<noteq> 0 then CPSR_N else 0) = v AND CPSR_N" "(if v AND CPSR_Z \<noteq> 0 then CPSR_Z else 0) = v AND CPSR_Z"
  "(if v AND CPSR_C \<noteq> 0 then CPSR_C else 0) = v AND CPSR_C" "(if v AND CPSR_V \<noteq> 0 then CPSR_V else 0) = v AND CPSR_V"
  "(if v AND CPSR_T \<noteq> 0 then CPSR_T else 0) = v AND CPSR_T"
  by (simp_all only: arm_flag_powers single_bit)

lemma cpsr_all_bits: "(v AND CPSR_COMPACT_MASK) OR (v AND CPSR_N) OR (v AND CPSR_Z) OR (v AND CPSR_C) OR (v AND CPSR_V)
    OR (v AND CPSR_T) = v"
proof -
  have "(v AND CPSR_COMPACT_MASK) OR (v AND CPSR_N) OR (v AND CPSR_Z) OR (v AND CPSR_C) OR (v AND CPSR_V) OR (v AND CPSR_T)
      = v AND (CPSR_COMPACT_MASK OR CPSR_N OR CPSR_Z OR CPSR_C OR CPSR_V OR CPSR_T)"
    by (simp only: bit.conj_disj_distrib)
  also have "CPSR_COMPACT_MASK OR CPSR_N OR CPSR_Z OR CPSR_C OR CPSR_V OR CPSR_T = - 1"
    by (simp add: cpsr_defs)
  finally show ?thesis by simp
qed

text \<open>Taking the flags out of a word and putting them back gives the word.\<close>

lemma cpsr_value_split:
  "cpsr_value (a\<lparr>arm_cpsr := v, arm_n := v AND CPSR_N, arm_z := v AND CPSR_Z, arm_c := v AND CPSR_C,
     arm_v := v AND CPSR_V, arm_t := v AND CPSR_T\<rparr>) = v"
  by (simp add: cpsr_value_def flag_bits cpsr_all_bits)

lemma cpsr_value_mode: "cpsr_value a AND CPSR_MODE = arm_mode a"
proof -
  have "x AND CPSR_MODE = 0" if "x \<in> {CPSR_N, CPSR_Z, CPSR_C, CPSR_V, CPSR_T, 0}" for x
    using that by (auto simp: cpsr_defs)
  then have f: "(if b then CPSR_N else 0) AND CPSR_MODE = 0" "(if b then CPSR_Z else 0) AND CPSR_MODE = 0"
    "(if b then CPSR_C else 0) AND CPSR_MODE = 0" "(if b then CPSR_V else 0) AND CPSR_MODE = 0"
    "(if b then CPSR_T else 0) AND CPSR_MODE = 0" for b by simp_all
  have "CPSR_COMPACT_MASK AND CPSR_MODE = CPSR_MODE" by (simp add: cpsr_defs)
  then have "(arm_cpsr a AND CPSR_COMPACT_MASK) AND CPSR_MODE = arm_mode a"
    by (simp add: arm_mode_def and.assoc)
  then show ?thesis by (simp only: cpsr_value_def bit.conj_disj_distrib2 f or.right_neutral)
qed

definition exc_mode :: "nat \<Rightarrow> u32" where "exc_mode e = fst (arm_exceptions ! e)"
definition exc_vector :: "nat \<Rightarrow> u32" where "exc_vector e = snd (arm_exceptions ! e)"

lemma exc_mode_cases: "e < 7 \<Longrightarrow> exc_mode e \<in> {MODE_SVC, MODE_UND, MODE_ABT, MODE_IRQ, MODE_FIQ}"
  by (auto simp: exc_mode_def arm_exceptions_def less_Suc_eq numeral_eq_Suc nth_Cons')

lemma raise_exception_alt:
  "arm_raise_exception e a =
     (let m = exc_mode e; b = arm_set_mode m (a\<lparr>arm_cpsr := cpsr_value a\<rparr>)
      in b\<lparr>arm_spsr := cpsr_value a, arm_r := (arm_r b)(14 := arm_r a 15 + 4, 15 := exc_vector e),
           arm_cpsr := (cpsr_value a AND 0xFFFFFF00) OR m OR CPSR_I OR (if m = MODE_FIQ then CPSR_F else 0)\<rparr>)"
  by (simp add: arm_raise_exception_def exc_mode_def exc_vector_def arm_get_cpsr_def Let_def or.assoc split: prod.split)

lemma exc_cpsr_mode:
  assumes "e < 7"
  shows "((v AND 0xFFFFFF00) OR exc_mode e OR CPSR_I OR (if exc_mode e = MODE_FIQ then CPSR_F else 0)) AND CPSR_MODE = exc_mode e"
proof -
  have "(v AND 0xFFFFFF00) AND CPSR_MODE = 0" by (simp add: and.assoc cpsr_defs)
  then show ?thesis
    using exc_mode_cases [OF assms] unfolding insert_iff
    by (elim disjE) (simp_all add: bit.conj_disj_distrib2 cpsr_defs mode_defs)
qed

lemma raise_exception_view:
  assumes "e < 7" "m \<in> arm_modes" "i < 15" "(bank_class m, i) \<noteq> (exc_mode e, 14)"
  shows "arm_bank m i (arm_raise_exception e a) = arm_bank m i a"
proof -
  let ?a = "a\<lparr>arm_cpsr := cpsr_value a\<rparr>" and ?b = "arm_raise_exception e a"
  have ma: "arm_mode ?a = arm_mode a" "arm_mode ?b = exc_mode e"
    using cpsr_value_mode [of a] exc_cpsr_mode [OF assms(1)]
    by (simp_all add: arm_mode_def raise_exception_alt Let_def)
  have cls: "bank_class (exc_mode e) = exc_mode e"
    using exc_mode_cases [OF assms(1)] by (auto simp: bank_class_def mode_defs)
  have "view_reg (exc_mode e) m i ?b = view_reg (exc_mode e) m i (arm_set_mode (exc_mode e) ?a)"
    using assms(3,4) cls by (auto simp: raise_exception_alt Let_def view_reg_def saved_reg_def)
  also have "\<dots> = arm_bank m i ?a" using assms(2,3) by (intro set_mode_view) auto
  finally show ?thesis by (simp add: arm_bank_def ma)
qed

text \<open>
  C29: Raising an exception enters its mode at its vector with interrupts off, keeps the old
  status word and the return address in the registers of that mode, and leaves every other
  register of every mode alone. Fast interrupts are masked exactly when the exception is
  one itself: a mask that was set before is dropped by the others.
\<close>

theorem arm_exception_entry:
  fixes a :: arm_registers
  assumes "e < 7"
  defines "b \<equiv> arm_raise_exception e a"
  shows "arm_mode b = exc_mode e \<and> arm_r b 15 = exc_vector e \<and> arm_r b 14 = arm_r a 15 + 4 \<and>
    arm_spsr b = cpsr_value a \<and> arm_cpsr b AND CPSR_I \<noteq> 0 \<and>
    (arm_cpsr b AND CPSR_F \<noteq> 0 \<longleftrightarrow> exc_mode e = MODE_FIQ) \<and>
    (\<forall>m \<in> arm_modes. \<forall>i < 15. (bank_class m, i) \<noteq> (exc_mode e, 14) \<longrightarrow> arm_bank m i b = arm_bank m i a)"
proof -
  let ?v = "cpsr_value a AND 0xFFFFFF00" and ?f = "if exc_mode e = MODE_FIQ then CPSR_F else 0"
  have z: "(?v AND CPSR_I) = 0" "(?v AND CPSR_F) = 0" by (simp_all add: and.assoc cpsr_defs)
  have IF: "(?v OR exc_mode e OR CPSR_I OR ?f) AND CPSR_I \<noteq> 0"
    "(?v OR exc_mode e OR CPSR_I OR ?f) AND CPSR_F \<noteq> 0 \<longleftrightarrow> exc_mode e = MODE_FIQ"
    using exc_mode_cases [OF assms(1)] z unfolding insert_iff
    by (elim disjE; simp add: bit.conj_disj_distrib2 cpsr_defs mode_defs)+
  have "arm_mode b = exc_mode e \<and> arm_r b 15 = exc_vector e \<and> arm_r b 14 = arm_r a 15 + 4 \<and> arm_spsr b = cpsr_value a \<and>
    arm_cpsr b = ?v OR exc_mode e OR CPSR_I OR ?f"
    using exc_cpsr_mode [OF assms(1), of "cpsr_value a"] by (simp add: b_def raise_exception_alt Let_def arm_mode_def)
  moreover have "\<forall>m \<in> arm_modes. \<forall>i < 15. (bank_class m, i) \<noteq> (exc_mode e, 14) \<longrightarrow> arm_bank m i b = arm_bank m i a"
    using raise_exception_view [OF assms(1), of _ _ a] by (simp add: b_def)
  ultimately show ?thesis using IF by (elim conjE) (simp only: simp_thms)
qed

theorem arm_exception_entry_witness:
  "arm_r (arm_raise_exception EXC_SOFTWARE (set_r 15 0x104 arm_reset_regs)) 14 = 0x108"
  using arm_exception_entry [of EXC_SOFTWARE "set_r 15 0x104 arm_reset_regs"]
  by (simp add: EXC_SOFTWARE_def set_r_def)

lemma restore_cpsr_value: "cpsr_value (arm_restore_cpsr b) = arm_spsr b"
  by (simp add: arm_restore_cpsr_def Let_def cpsr_value_split)

text \<open>
  C30: Returning from an exception, by putting the saved status word back, restores the status
  word and the registers of all modes, except for the return address register of the
  handler, which the exception overwrote.
\<close>

theorem arm_exception_return:
  fixes a :: arm_registers
  assumes "e < 7"
  defines "b \<equiv> arm_restore_cpsr (arm_raise_exception e a)"
  shows "cpsr_value b = cpsr_value a \<and> arm_mode b = arm_mode a \<and>
    (\<forall>m \<in> arm_modes. \<forall>i < 15. (bank_class m, i) \<noteq> (exc_mode e, 14) \<longrightarrow> arm_bank m i b = arm_bank m i a)"
proof -
  let ?x = "arm_raise_exception e a"
  have s: "arm_spsr ?x = cpsr_value a" by (simp add: raise_exception_alt Let_def)
  have v: "cpsr_value b = cpsr_value a" by (simp add: b_def restore_cpsr_value s)
  then have m: "arm_mode b = arm_mode a" using cpsr_value_mode by metis
  have "arm_bank m i b = arm_bank m i ?x" if "m \<in> arm_modes" "i < 16" for m i
  proof -
    have "arm_mode b = arm_spsr ?x AND CPSR_MODE" by (simp add: b_def arm_restore_cpsr_def Let_def arm_mode_def)
    then show ?thesis
      using set_mode_view [OF that, of "arm_spsr ?x AND CPSR_MODE" ?x]
      by (simp add: arm_bank_def [of m i b]) (simp add: b_def arm_restore_cpsr_def Let_def)
  qed
  then have "\<forall>m \<in> arm_modes. \<forall>i < 15. (bank_class m, i) \<noteq> (exc_mode e, 14) \<longrightarrow> arm_bank m i b = arm_bank m i a"
    using raise_exception_view [OF assms(1), of _ _ a] by simp
  with v m show ?thesis by blast
qed

theorem arm_exception_return_witness:
  "cpsr_value (arm_restore_cpsr (arm_raise_exception EXC_IRQ arm_reset_regs)) = cpsr_value arm_reset_regs"
  using arm_exception_return [of EXC_IRQ arm_reset_regs] by (simp add: EXC_IRQ_def)

text \<open>
  Flags that come from a status word are kept as the masked bits of the word. The signed
  conditions compare the two words: with both the sign and the overflow flag set they see
  two different flags. The carry does not reach the top bit in a rotation through it.
\<close>

theorem arm_status_word_flags:
  fixes a :: arm_registers and v flds :: u32
  assumes "flds AND SET_CPSR_FLAGS \<noteq> 0"
  defines "b \<equiv> arm_set_cpsr v flds a"
  shows "(arm_condition 4 b \<longleftrightarrow> bit v 31) \<and> (arm_condition 0 b \<longleftrightarrow> bit v 30) \<and>
    (arm_condition 2 b \<longleftrightarrow> bit v 29) \<and> (arm_condition 6 b \<longleftrightarrow> bit v 28) \<and>
    (arm_condition 10 b \<longleftrightarrow> \<not> bit v 31 \<and> \<not> bit v 28) \<and> RRX x b = drop_bit 1 x"
proof -
  have f: "(v AND CPSR_N \<noteq> 0) = bit v 31" "(v AND CPSR_Z \<noteq> 0) = bit v 30" "(v AND CPSR_C \<noteq> 0) = bit v 29"
    "(v AND CPSR_V \<noteq> 0) = bit v 28"
    by (simp_all only: arm_flag_powers and_exp_eq_0_iff_not_bit not_not)
  have b: "arm_n b = v AND CPSR_N" "arm_z b = v AND CPSR_Z" "arm_c b = v AND CPSR_C" "arm_v b = v AND CPSR_V"
    using assms(1) by (simp_all add: b_def arm_set_cpsr_def Let_def)
  have nv: "(v AND CPSR_N = v AND CPSR_V) = (\<not> bit v 31 \<and> \<not> bit v 28)"
  proof
    assume e: "v AND CPSR_N = v AND CPSR_V"
    have "bit (v AND CPSR_N) 31 = bit v 31" "\<not> bit (v AND CPSR_V) 31" "bit (v AND CPSR_V) 28 = bit v 28" "\<not> bit (v AND CPSR_N) 28"
      unfolding arm_flag_powers by (simp_all add: bit_and_iff bit_exp_iff del: power_numeral)
    then show "\<not> bit v 31 \<and> \<not> bit v 28" using e by simp
  next
    assume "\<not> bit v 31 \<and> \<not> bit v 28"
    then show "v AND CPSR_N = v AND CPSR_V" using f by metis
  qed
  have "push_bit 31 (v AND CPSR_C) = 0"
    unfolding arm_flag_powers by (rule bit_word_eqI) (auto simp: bit_simps simp del: power_numeral)
  then have "RRX x b = drop_bit 1 x" by (simp add: RRX_def b)
  then show ?thesis using f b nv by (simp add: arm_condition_def)
qed

theorem arm_status_word_flags_witness:
  "\<not> arm_condition 10 (arm_set_cpsr 0x90000000 SET_CPSR_FLAGS arm_reset_regs)"
  using arm_status_word_flags [of SET_CPSR_FLAGS "0x90000000" arm_reset_regs 0]
  by (simp add: SET_CPSR_FLAGS_def bit_numeral_rec)

end
