(* ===== verification/Aica.thy ===== *)
theory Aica
  imports Audio ArmRegs Breakpoints
begin

unbundle bit_operations_syntax

text \<open>
  The sound chip of \<open>aica/aica.c\<close>: the register pages that the main processor and the
  ARM see, the channel registers, the interrupt state and the clock, on the state of the
  mixer extended by the ARM's registers. The register pages are byte memories indexed by
  the page offset. Starting and stopping the host's audio driver is left out.
\<close>

section \<open>State\<close>

record aica_state = audio_state +
  armr :: arm_registers
  scratch_ram :: mem
  mmio_AICA0 :: mem
  mmio_AICA1 :: mem
  mmio_AICA2 :: mem
  mmio_AICARTC :: mem
  time_of_day :: u32
  samples_done :: u32
  nanosecs_done :: u32
  aica_event_pending :: u32
  clear_count :: u32
  dreamcast_running :: bool
  arm_breakpoints :: "nat \<Rightarrow> breakpoint_struct"
  arm_breakpoint_count :: nat

definition AICA_FIFOIN :: u32 where "AICA_FIFOIN = 0x808"
definition AICA_CHANSEL :: u32 where "AICA_CHANSEL = 0x80C"
definition AICA_CHANSTATE :: u32 where "AICA_CHANSTATE = 0x810"
definition AICA_CHANPOSN :: u32 where "AICA_CHANPOSN = 0x814"
definition AICA_TIMER :: u32 where "AICA_TIMER = 0x890"
definition AICA_TCR :: u32 where "AICA_TCR = 0x8A4"
definition AICA_RESET :: u32 where "AICA_RESET = 0xC00"
definition AICA_IRQ :: u32 where "AICA_IRQ = 0xD00"
definition AICA_IRQCLEAR :: u32 where "AICA_IRQCLEAR = 0xD04"
definition AICA_RTCHI :: u32 where "AICA_RTCHI = 0x000"
definition AICA_RTCLO :: u32 where "AICA_RTCLO = 0x004"
definition AICA_RTCEN :: u32 where "AICA_RTCEN = 0x008"
definition AICA_EVENT_TIMER :: u32 where "AICA_EVENT_TIMER = 2"
definition AICA_SAMPLE_RATE :: nat where "AICA_SAMPLE_RATE = 44100"

lemmas aica_reg_defs = AICA_FIFOIN_def AICA_CHANSEL_def AICA_CHANSTATE_def AICA_CHANPOSN_def AICA_TIMER_def
  AICA_TCR_def AICA_RESET_def AICA_IRQ_def AICA_IRQCLEAR_def AICA_RTCHI_def AICA_RTCLO_def AICA_RTCEN_def

definition AICA2_write :: "u32 \<Rightarrow> u32 \<Rightarrow> ('a) aica_state_scheme \<Rightarrow> ('a) aica_state_scheme" where
  "AICA2_write reg v s = s\<lparr>mmio_AICA2 := st32 (mmio_AICA2 s) reg v\<rparr>"

section \<open>Channel registers\<close>

definition aica_frequency_to_sample_rate :: "u32 \<Rightarrow> u32" where
  "aica_frequency_to_sample_rate freq =
    (let e = drop_bit 11 (freq AND 0x3800); m = freq AND 0x03FF
     in if freq AND 0x4000 \<noteq> 0
        then let e' = 8 - e in shr32 44100 e' + shr32 (44100 * m) (10 + e')
        else shl32 44100 e + shr32 (44100 * m) (10 - e))"

definition aica_volume_table :: "int list" where
  "aica_volume_table =
    [0, 0, 0, 0, 0, 0, 0, 0, 0, 0, 0, 0, 0, 0, 0, 1,
     1, 1, 1, 1, 1, 1, 2, 2, 2, 2, 2, 3, 3, 3, 3, 4,
     4, 4, 4, 5, 5, 5, 5, 6, 6, 6, 7, 7, 7, 8, 8, 9,
     9, 9, 10, 10, 11, 11, 11, 12, 12, 13, 13, 14, 14, 15, 15, 16,
     16, 17, 17, 18, 18, 19, 19, 20, 20, 21, 22, 22, 23, 23, 24, 25,
     25, 26, 27, 27, 28, 29, 29, 30, 31, 31, 32, 33, 34, 34, 35, 36,
     37, 37, 38, 39, 40, 40, 41, 42, 43, 44, 45, 45, 46, 47, 48, 49,
     50, 51, 52, 52, 53, 54, 55, 56, 57, 58, 59, 60, 61, 62, 63, 64,
     65, 66, 67, 68, 69, 70, 71, 72, 73, 74, 76, 77, 78, 79, 80, 81,
     82, 83, 85, 86, 87, 88, 89, 90, 92, 93, 94, 95, 97, 98, 99, 100,
     102, 103, 104, 105, 107, 108, 109, 111, 112, 113, 115, 116, 117, 119, 120, 121,
     123, 124, 126, 127, 128, 130, 131, 133, 134, 136, 137, 139, 140, 142, 143, 145,
     146, 148, 149, 151, 152, 154, 155, 157, 159, 160, 162, 163, 165, 167, 168, 170,
     171, 173, 175, 176, 178, 180, 181, 183, 185, 187, 188, 190, 192, 194, 195, 197,
     199, 201, 202, 204, 206, 208, 210, 211, 213, 215, 217, 219, 221, 223, 224, 226,
     228, 230, 232, 234, 236, 238, 240, 242, 244, 246, 248, 250, 252, 253, 254, 255]"

definition aica_start_stop_channels :: "('a) aica_state_scheme \<Rightarrow> ('a) aica_state_scheme" where
  "aica_start_stop_channels s =
    (let s1 = fold (\<lambda>i s. audio_start_stop_channel i (ld32 (mmio_AICA0 s) (push_bit 7 (of_nat i)) AND 0x4000 \<noteq> 0) s)
                [0..<32] s
     in fold (\<lambda>i s. audio_start_stop_channel i (ld32 (mmio_AICA1 s) (push_bit 7 (of_nat (i - 32))) AND 0x4000 \<noteq> 0) s)
          [32..<64] s1)"

definition sample_format_of :: "u32 \<Rightarrow> nat" where
  "sample_format_of v =
    (let k = drop_bit 7 v AND 3 in if k = 0 then AUDIO_FMT_16BIT else if k = 1 then AUDIO_FMT_8BIT else AUDIO_FMT_ADPCM)"

definition pan_of :: "u32 \<Rightarrow> int" where
  "pan_of v = (let p = v AND 0x1F in uint (if p \<le> 0x0F then 0x0F - p else p))"

definition aica_write_channel :: "nat \<Rightarrow> u32 \<Rightarrow> u32 \<Rightarrow> ('a) aica_state_scheme \<Rightarrow> ('a) aica_state_scheme" where
  "aica_write_channel channelNo reg v0 s =
    (let v = v0 AND 0xFFFF
     in if reg = 0x00 then
          let s1 = upd_channel channelNo (\<lambda>c. c\<lparr>ch_start := (ch_start c AND 0xFFFF) OR push_bit 16 (v AND 0x1F),
                     ch_loop := (if v AND 0x200 \<noteq> 0 then LOOP_ON else LOOP_OFF),
                     ch_sample_format := sample_format_of v\<rparr>) s
          in if v AND 0x8000 \<noteq> 0 then aica_start_stop_channels s1 else s1
        else if reg = 0x04 then upd_channel channelNo (\<lambda>c. c\<lparr>ch_start := (ch_start c AND 0x001F0000) OR v\<rparr>) s
        else if reg = 0x08 then upd_channel channelNo (ch_loop_start_update (\<lambda>_. v)) s
        else if reg = 0x0C then upd_channel channelNo (ch_end_update (\<lambda>_. v)) s
        else if reg = 0x18 then upd_channel channelNo (ch_sample_rate_update (\<lambda>_. aica_frequency_to_sample_rate v)) s
        else if reg = 0x1C \<or> reg = 0x20 \<or> reg = 0x24 then upd_channel channelNo (ch_pan_update (\<lambda>_. pan_of v)) s
        else if reg = 0x28 then
          upd_channel channelNo (ch_vol_update (\<lambda>_. aica_volume_table ! unat (max (v AND 0xFF) (drop_bit 8 v AND 0xFF)))) s
        else s)"

section \<open>Interrupts of the sound processor\<close>

definition aica_event :: "u32 \<Rightarrow> ('a) aica_state_scheme \<Rightarrow> ('a) aica_state_scheme" where
  "aica_event event s =
    (let s1 = (if aica_event_pending s = 0
               then s\<lparr>armr := (armr s)\<lparr>arm_int_pending := arm_int_pending (armr s) OR CPSR_F\<rparr>\<rparr> else s);
         s2 = s1\<lparr>aica_event_pending := aica_event_pending s1 OR shl32 1 event\<rparr>;
         pending = ld32 (mmio_AICA2 s2) AICA_IRQ
     in if pending = 0 \<or> sint event < sint pending then AICA2_write AICA_IRQ event s2 else s2)"

text \<open>The index at which the first \<open>for\<close> loop stops, 8 if it runs to its end.\<close>

fun first_pending :: "u32 \<Rightarrow> nat list \<Rightarrow> nat" where
  "first_pending w [] = 8"
| "first_pending w (i # is) = (if bit w i then i else first_pending w is)"

definition aica_clear_event :: "('a) aica_state_scheme \<Rightarrow> ('a) aica_state_scheme" where
  "aica_clear_event s0 =
    (let s = s0\<lparr>clear_count := clear_count s0 + 1\<rparr>
     in if clear_count s = 4 then
          let i = first_pending (aica_event_pending s) [0..<8];
              s1 = s\<lparr>clear_count := 0,
                     aica_event_pending := (if i < 8 then unset_bit i (aica_event_pending s) else aica_event_pending s)\<rparr>;
              k = first_pending (aica_event_pending s1) [i..<8];
              s2 = (if k < 8 then AICA2_write AICA_IRQ (of_nat k) s1 else s1)
          in if aica_event_pending s2 = 0
             then s2\<lparr>armr := (armr s2)\<lparr>arm_int_pending := arm_int_pending (armr s2) AND NOT CPSR_F\<rparr>\<rparr>
             else s2
        else s)"

section \<open>Register pages\<close>

definition arm_reset :: "('a) aica_state_scheme \<Rightarrow> ('a) aica_state_scheme" where
  "arm_reset s = s\<lparr>armr := arm_reset_regs\<rparr>"

definition aica_reset :: "('a) aica_state_scheme \<Rightarrow> ('a) aica_state_scheme" where
  "aica_reset s = (arm_reset s)\<lparr>time_of_day := 0x5bfc8900, samples_done := 0, nanosecs_done := 0,
     aica_event_pending := 0, clear_count := 0\<rparr>"

definition mmio_region_AICA0_read :: "u32 \<Rightarrow> ('a) aica_state_scheme \<Rightarrow> u32" where
  "mmio_region_AICA0_read reg s = ld32 (mmio_AICA0 s) (reg AND 0xFFF)"

definition mmio_region_AICA1_read :: "u32 \<Rightarrow> ('a) aica_state_scheme \<Rightarrow> u32" where
  "mmio_region_AICA1_read reg s = ld32 (mmio_AICA1 s) (reg AND 0xFFF)"

definition mmio_region_AICA0_write :: "u32 \<Rightarrow> u32 \<Rightarrow> ('a) aica_state_scheme \<Rightarrow> ('a) aica_state_scheme" where
  "mmio_region_AICA0_write reg0 v s =
    (let reg = reg0 AND 0xFFF
     in aica_write_channel (unat (drop_bit 7 reg)) (reg mod 128) v (s\<lparr>mmio_AICA0 := st32 (mmio_AICA0 s) reg v\<rparr>))"

definition mmio_region_AICA1_write :: "u32 \<Rightarrow> u32 \<Rightarrow> ('a) aica_state_scheme \<Rightarrow> ('a) aica_state_scheme" where
  "mmio_region_AICA1_write reg0 v s =
    (let reg = reg0 AND 0xFFF
     in aica_write_channel (unat (drop_bit 7 reg) + 32) (reg mod 128) v (s\<lparr>mmio_AICA1 := st32 (mmio_AICA1 s) reg v\<rparr>))"

definition mmio_region_AICA2_write :: "u32 \<Rightarrow> u32 \<Rightarrow> ('a) aica_state_scheme \<Rightarrow> ('a) aica_state_scheme" where
  "mmio_region_AICA2_write reg0 v s =
    (let reg = reg0 AND 0xFFF
     in if reg = AICA_RESET then
          let tmp = ld32 (mmio_AICA2 s) AICA_RESET;
              s1 = (if tmp AND 1 = 1 \<and> v AND 1 = 0 then (arm_reset s)\<lparr>samples_done := 0, nanosecs_done := 0\<rparr> else s)
          in AICA2_write AICA_RESET v s1
        else if reg = AICA_IRQCLEAR then aica_clear_event s
        else if reg = AICA_FIFOIN then s
        else AICA2_write reg v s)"

definition aica_enable :: "('a) aica_state_scheme \<Rightarrow> ('a) aica_state_scheme" where
  "aica_enable s = mmio_region_AICA2_write AICA_RESET (ld32 (mmio_AICA2 s) AICA_RESET AND NOT 1) s"

definition mmio_region_AICA2_read :: "u32 \<Rightarrow> ('a) aica_state_scheme \<Rightarrow> u32 \<times> ('a) aica_state_scheme" where
  "mmio_region_AICA2_read reg0 s =
    (let reg = reg0 AND 0xFFF; channo = unat (drop_bit 8 (ld32 (mmio_AICA2 s) AICA_CHANSEL) AND 0x3F)
     in if reg = AICA_CHANSTATE then
          (if ch_loop (channels s channo) = LOOP_LOOPED
           then (0x8000, upd_channel channo (ch_loop_update (\<lambda>_. LOOP_ON)) s) else (0, s))
        else if reg = AICA_CHANPOSN then (ch_posn (channels s channo), s)
        else (ld32 (mmio_AICA2 s) reg, s))"

definition mmio_region_AICARTC_read :: "u32 \<Rightarrow> ('a) aica_state_scheme \<Rightarrow> u32" where
  "mmio_region_AICARTC_read reg0 s =
    (let reg = reg0 AND 0xFFF
     in if reg = AICA_RTCHI then drop_bit 16 (time_of_day s) AND 0xFFFF
        else if reg = AICA_RTCLO then time_of_day s AND 0xFFFF else 0)"

definition mmio_region_AICARTC_write :: "u32 \<Rightarrow> u32 \<Rightarrow> ('a) aica_state_scheme \<Rightarrow> ('a) aica_state_scheme" where
  "mmio_region_AICARTC_write reg0 v s =
    (let reg = reg0 AND 0xFFF; enabled = ld32 (mmio_AICARTC s) AICA_RTCEN AND 1 \<noteq> 0
     in if reg = AICA_RTCEN then s\<lparr>mmio_AICARTC := st32 (mmio_AICARTC s) reg (v AND 1)\<rparr>
        else if reg = AICA_RTCLO then
          (if enabled then s\<lparr>time_of_day := (time_of_day s AND 0xFFFF0000) OR (v AND 0xFFFF)\<rparr> else s)
        else if reg = AICA_RTCHI then
          (if enabled then s\<lparr>time_of_day := (time_of_day s AND 0xFFFF) OR push_bit 16 v,
                             mmio_AICARTC := st32 (mmio_AICARTC s) AICA_RTCEN 0\<rparr> else s)
        else s)"

section \<open>The time slice\<close>

text \<open>
  \<open>run_arm\<close> is \<open>arm_run_slice\<close> and \<open>mix\<close> is \<open>audio_mix_samples\<close>, which \<open>ArmCore\<close> puts in.
\<close>

definition samples_due :: "u32 \<Rightarrow> ('a) aica_state_scheme \<Rightarrow> u32" where
  "samples_due nanosecs s =
    ucast ((44100 :: u64) * ucast (nanosecs_done s + nanosecs) div 1000000000) - samples_done s"

definition aica_run_slice_with ::
  "(u32 \<Rightarrow> ('a) aica_state_scheme \<Rightarrow> u32 \<times> ('a) aica_state_scheme) \<Rightarrow>
   (u32 \<Rightarrow> ('a) aica_state_scheme \<Rightarrow> ('a) aica_state_scheme option) \<Rightarrow>
   u32 \<Rightarrow> ('a) aica_state_scheme \<Rightarrow> (u32 \<times> ('a) aica_state_scheme) option" where
  "aica_run_slice_with run_arm mix nanosecs s =
    map_option (\<lambda>s1.
        (nanosecs, if 1000000000 < nanosecs_done s1
           then s1\<lparr>samples_done := samples_done s1 - 44100, nanosecs_done := nanosecs_done s1 - 1000000000,
                   time_of_day := time_of_day s1 + 1\<rparr>
           else s1))
      (if ld32 (mmio_AICA2 s) AICA_RESET AND 1 = 0 then
         let (n, s1) = run_arm (samples_due nanosecs s) s
         in map_option (\<lambda>s2. s2\<lparr>samples_done := samples_done s2 + n, nanosecs_done := nanosecs_done s2 + nanosecs\<rparr>)
              (mix n s1)
       else Some s)"

end
