(* ===== verification/ArmMem.thy ===== *)
theory ArmMem
  imports Aica
begin

unbundle bit_operations_syntax

text \<open>
  The address space of the sound processor, \<open>aica/armmem.c\<close>: the sound RAM at 0, the three
  register pages and the scratch RAM at 0x800000. A read gives the new state as well,
  since reading the channel state register clears the loop flag. The two RAMs are byte
  memories over all offsets: the last three bytes of an unaligned access at the very end
  of a RAM fall outside the C array and are kept apart from everything else here.
\<close>

definition arm_has_page :: "u32 \<Rightarrow> bool" where
  "arm_has_page addr \<longleftrightarrow> addr < 0x00200000 \<or> (0x00800000 \<le> addr \<and> addr \<le> 0x00805000)"

definition arm_page :: "u32 \<Rightarrow> u32" where
  "arm_page addr = addr AND 0xFFFFF000"

definition arm_read_long :: "u32 \<Rightarrow> ('a) aica_state_scheme \<Rightarrow> u32 \<times> ('a) aica_state_scheme" where
  "arm_read_long addr s =
    (if addr < 0x00200000 then (ld32 (main_ram s) addr, s)
     else if arm_page addr = 0x00800000 then (mmio_region_AICA0_read (addr AND 0x0FFF) s, s)
     else if arm_page addr = 0x00801000 then (mmio_region_AICA1_read (addr AND 0x0FFF) s, s)
     else if arm_page addr = 0x00802000 then mmio_region_AICA2_read (addr AND 0x0FFF) s
     else if arm_page addr = 0x00803000 \<or> arm_page addr = 0x00804000
     then (ld32 (scratch_ram s) (addr - 0x00803000), s)
     else (0, s))"

definition arm_read_word :: "u32 \<Rightarrow> ('a) aica_state_scheme \<Rightarrow> u32 \<times> ('a) aica_state_scheme" where
  "arm_read_word addr s = (let (v, s1) = arm_read_long addr s in (v AND 0xFFFF, s1))"

definition arm_read_byte :: "u32 \<Rightarrow> ('a) aica_state_scheme \<Rightarrow> u32 \<times> ('a) aica_state_scheme" where
  "arm_read_byte addr s = (let (v, s1) = arm_read_long addr s in (v AND 0xFF, s1))"

definition arm_write_long :: "u32 \<Rightarrow> u32 \<Rightarrow> ('a) aica_state_scheme \<Rightarrow> ('a) aica_state_scheme" where
  "arm_write_long addr v s =
    (if addr < 0x00200000 then s\<lparr>main_ram := st32 (main_ram s) addr v\<rparr>
     else if arm_page addr = 0x00800000 then mmio_region_AICA0_write (addr AND 0x0FFF) v s
     else if arm_page addr = 0x00801000 then mmio_region_AICA1_write (addr AND 0x0FFF) v s
     else if arm_page addr = 0x00802000 then mmio_region_AICA2_write (addr AND 0x0FFF) v s
     else if arm_page addr = 0x00803000 \<or> arm_page addr = 0x00804000
     then s\<lparr>scratch_ram := st32 (scratch_ram s) (addr - 0x00803000) v\<rparr>
     else s)"

definition arm_combine_byte :: "u32 \<Rightarrow> u32 \<Rightarrow> u8 \<Rightarrow> u32" where
  "arm_combine_byte addr v byte =
    (if addr AND 3 = 0 then (v AND 0xFFFFFF00) OR ucast byte
     else if addr AND 3 = 1 then (v AND 0xFFFF00FF) OR push_bit 8 (ucast byte)
     else if addr AND 3 = 2 then (v AND 0xFF00FFFF) OR push_bit 16 (ucast byte)
     else (v AND 0x00FFFFFF) OR push_bit 24 (ucast byte))"

definition arm_write_word :: "u32 \<Rightarrow> u32 \<Rightarrow> ('a) aica_state_scheme \<Rightarrow> ('a) aica_state_scheme" where
  "arm_write_word addr v s =
    (if addr < 0x00200000 then s\<lparr>main_ram := st16 (main_ram s) addr v\<rparr> else s)"

definition arm_write_byte :: "u32 \<Rightarrow> u32 \<Rightarrow> ('a) aica_state_scheme \<Rightarrow> ('a) aica_state_scheme" where
  "arm_write_byte addr v s =
    (if addr < 0x00200000 then s\<lparr>main_ram := st8 (main_ram s) addr v\<rparr>
     else if arm_page addr = 0x00800000 then
       mmio_region_AICA0_write (addr AND 0x0FFC)
         (arm_combine_byte addr (ld32 (mmio_AICA0 s) (addr AND 0x0FFC)) (ucast v)) s
     else if arm_page addr = 0x00801000 then
       mmio_region_AICA1_write (addr AND 0x0FFC)
         (arm_combine_byte addr (ld32 (mmio_AICA1 s) (addr AND 0x0FFC)) (ucast v)) s
     else if arm_page addr = 0x00802000 then
       mmio_region_AICA2_write (addr AND 0x0FFC)
         (arm_combine_byte addr (ld32 (mmio_AICA2 s) (addr AND 0x0FFC)) (ucast v)) s
     else if arm_page addr = 0x00803000 \<or> arm_page addr = 0x00804000
     then s\<lparr>scratch_ram := st8 (scratch_ram s) (addr - 0x00803000) v\<rparr>
     else s)"

text \<open>The user mode variants are the same functions.\<close>

definition arm_read_long_user :: "u32 \<Rightarrow> ('a) aica_state_scheme \<Rightarrow> u32 \<times> ('a) aica_state_scheme" where
  "arm_read_long_user addr = arm_read_long addr"

definition arm_read_byte_user :: "u32 \<Rightarrow> ('a) aica_state_scheme \<Rightarrow> u32 \<times> ('a) aica_state_scheme" where
  "arm_read_byte_user addr = arm_read_byte addr"

definition arm_write_long_user :: "u32 \<Rightarrow> u32 \<Rightarrow> ('a) aica_state_scheme \<Rightarrow> ('a) aica_state_scheme" where
  "arm_write_long_user addr v = arm_write_long addr v"

definition arm_write_byte_user :: "u32 \<Rightarrow> u32 \<Rightarrow> ('a) aica_state_scheme \<Rightarrow> ('a) aica_state_scheme" where
  "arm_write_byte_user addr v = arm_write_byte addr v"

text \<open>
  The debugger's block accesses. \<open>size_t\<close> is 64 bits wide, so the end of the block does not
  wrap; the data is cut off at the end of the RAM and the length used is the result.
\<close>

definition phys_length :: "u32 \<Rightarrow> nat \<Rightarrow> nat" where
  "phys_length addr len =
    (if 0x200000 < unat addr + len then 0x200000 - unat addr else len)"

definition arm_read_phys :: "u32 \<Rightarrow> nat \<Rightarrow> ('a) aica_state_scheme \<Rightarrow> u8 list" where
  "arm_read_phys addr len s =
    (if addr < 0x00200000 then map (\<lambda>i. main_ram s (addr + of_nat i)) [0..<phys_length addr len] else [])"

definition arm_write_phys ::
  "u32 \<Rightarrow> u8 list \<Rightarrow> ('a) aica_state_scheme \<Rightarrow> nat \<times> ('a) aica_state_scheme" where
  "arm_write_phys addr buf s =
    (if addr < 0x00200000 then
       let n = phys_length addr (length buf)
       in (n, s\<lparr>main_ram := fold (\<lambda>i m. m(addr + of_nat i := buf ! i)) [0..<n] (main_ram s)\<rparr>)
     else (0, s))"

end
