(* ===== verification/ArmCore.thy ===== *)
theory ArmCore
  imports ArmMem
begin

unbundle bit_operations_syntax

text \<open>
  The instruction loop of \<open>aica/armcore.c\<close>: addressing modes, loads and stores, block
  transfers, branches, the instruction dispatcher, the time slice and the breakpoints of
  the ARM. An operation that the code leaves with \<open>return FALSE\<close> (an instruction that is
  not implemented) gives \<open>False\<close> as its first result.
\<close>

definition upd_armr :: "(arm_registers \<Rightarrow> arm_registers) \<Rightarrow> ('a) aica_state_scheme \<Rightarrow> ('a) aica_state_scheme" where
  "upd_armr f s = s\<lparr>armr := f (armr s)\<rparr>"

section \<open>Breakpoints\<close>

definition arm_set_breakpoint :: "u32 \<Rightarrow> u32 \<Rightarrow> ('a) aica_state_scheme \<Rightarrow> ('a) aica_state_scheme" where
  "arm_set_breakpoint pc kind s =
    s\<lparr>arm_breakpoints := (arm_breakpoints s)(arm_breakpoint_count s := \<lparr>bp_address = pc, bp_type = kind\<rparr>),
      arm_breakpoint_count := arm_breakpoint_count s + 1\<rparr>"

definition arm_clear_breakpoint :: "u32 \<Rightarrow> u32 \<Rightarrow> ('a) aica_state_scheme \<Rightarrow> bool \<times> ('a) aica_state_scheme" where
  "arm_clear_breakpoint pc kind s =
    (case find_breakpoint (arm_breakpoints s) (\<lambda>b. bp_address b = pc \<and> bp_type b = kind)
       [0..<arm_breakpoint_count s] of
       None \<Rightarrow> (False, s)
     | Some i \<Rightarrow> (True, s\<lparr>arm_breakpoints := fold (\<lambda>j bp. bp(j - 1 := bp j)) [i + 1..<arm_breakpoint_count s]
                    (arm_breakpoints s), arm_breakpoint_count := arm_breakpoint_count s - 1\<rparr>))"

definition arm_get_breakpoint :: "u32 \<Rightarrow> ('a) aica_state_scheme \<Rightarrow> u32" where
  "arm_get_breakpoint pc s =
    (case find_breakpoint (arm_breakpoints s) (\<lambda>b. bp_address b = pc) [0..<arm_breakpoint_count s] of
       None \<Rightarrow> 0 | Some i \<Rightarrow> bp_type (arm_breakpoints s i))"

section \<open>Addressing modes\<close>

text \<open>The effects of the macro \<open>UNIMP\<close>, apart from the return.\<close>

definition arm_unimp :: "('a) aica_state_scheme \<Rightarrow> ('a) aica_state_scheme" where
  "arm_unimp s = (upd_armr (\<lambda>a. set_r 15 (arm_r a 15 - 4) a) s)\<lparr>dreamcast_running := False\<rparr>"

definition arm_get_address_index :: "u32 \<Rightarrow> ('a) aica_state_scheme \<Rightarrow> u32 \<times> ('a) aica_state_scheme" where
  "arm_get_address_index ir s =
    (let a = armr s; operand = RM ir a; imm = SHIFTIMM ir; sh = SHIFT ir
     in if sh = 0 then (shl32 operand imm, s)
        else if sh = 2 then (shr32 operand imm, s)
        else if sh = 4 then (if imm = 0 then sar32 operand 31 else sar32 operand imm, s)
        else if sh = 6 then (if imm = 0 then RRX operand a else ROTATE_RIGHT_LONG operand imm, s)
        else (0, arm_unimp s))"

text \<open>
  \<open>W\<close> writes the base register. In the expressions \<open>RN(ir) - index\<close> and \<open>RN(ir) + index\<close>
  the base is read first; the order matters only for an unimplemented shift with \<open>Rn\<close>
  equal to 15.
\<close>

definition arm_get_address_operand :: "u32 \<Rightarrow> ('a) aica_state_scheme \<Rightarrow> u32 \<times> ('a) aica_state_scheme" where
  "arm_get_address_operand ir s =
    (let m = drop_bit 21 ir AND 0x1D; rn = RN ir (armr s); imm = IMM12 ir; n = RNn ir;
         W = (\<lambda>v s. upd_armr (set_r n v) s)
     in if m = 0 \<or> m = 1 then (rn, W (rn - imm) s)
        else if m = 4 \<or> m = 5 then (rn, W (rn + imm) s)
        else if m = 8 then (rn - imm, s)
        else if m = 9 then (rn - imm, W (rn - imm) s)
        else if m = 12 then (rn + imm, s)
        else if m = 13 then (rn + imm, W (rn + imm) s)
        else
          let (index, s1) = arm_get_address_index ir s
          in if m = 16 \<or> m = 17 \<or> m = 20 \<or> m = 21 then (rn, W (rn - index) s1)
             else if m = 24 then (rn - index, s1)
             else if m = 25 then (rn - index, W (rn - index) s1)
             else if m = 28 then (rn + index, s1)
             else (rn + index, W (rn + index) s1))"

definition arm_get_address3_operand :: "u32 \<Rightarrow> arm_registers \<Rightarrow> u32 \<times> arm_registers" where
  "arm_get_address3_operand ir a =
    (let m = drop_bit 21 ir AND 0x0F; rn = RN ir a; rm = RM ir a; imm = IMMSPLIT8 ir; n = RNn ir; lrn = arm_r a n
     in if m = 0 \<or> m = 1 then (rn, set_r n (lrn - rm) a)
        else if m = 2 \<or> m = 3 then (rn, set_r n (lrn - imm) a)
        else if m = 4 \<or> m = 5 then (rn, set_r n (lrn + rm) a)
        else if m = 6 \<or> m = 7 then (rn, set_r n (lrn + imm) a)
        else if m = 8 then (rn - rm, a)
        else if m = 9 then (rn - rm, set_r n (rn - rm) a)
        else if m = 10 then (rn - imm, a)
        else if m = 11 then (rn - imm, set_r n (rn - imm) a)
        else if m = 12 then (rn + rm, a)
        else if m = 13 then (rn + rm, set_r n (rn + rm) a)
        else if m = 14 then (rn + imm, a)
        else (rn + imm, set_r n (rn + imm) a))"

section \<open>Instructions that sit in the data processing group\<close>

definition arm_misc :: "u32 \<Rightarrow> ('a) aica_state_scheme \<Rightarrow> bool \<times> ('a) aica_state_scheme" where
  "arm_misc ir s =
    (let k = ir AND 0x0FF000F0; a = armr s; d = RDn ir
     in if k = 0x01200010 then
          (True, upd_armr (\<lambda>a. set_r 15 (RM ir a AND 0xFFFFFFFE) (a\<lparr>arm_t := ir AND 1\<rparr>)) s)
        else if k = 0x01000000 then
          (let (v, a1) = arm_get_cpsr a in (True, upd_armr (\<lambda>_. set_r d v a1) s))
        else if k = 0x01400000 then (True, upd_armr (set_r d (arm_spsr a)) s)
        else if k = 0x01200000 then (True, upd_armr (arm_set_cpsr (RM ir a) ir) s)
        else if k = 0x01600000 then (True, upd_armr (arm_set_spsr (RM ir a) ir) s)
        else if k = 0x03200000 then (True, upd_armr (arm_set_cpsr (ROTIMM12 ir) ir) s)
        else if k = 0x03600000 then (True, upd_armr (arm_set_spsr (ROTIMM12 ir) ir) s)
        else (False, arm_unimp s))"

definition arm_multiply :: "u32 \<Rightarrow> arm_registers \<Rightarrow> arm_registers" where
  "arm_multiply ir a =
    (let tmp = (if OPCODE ir < 2 then RM ir a * RS ir a else RM ir a * RS ir a + RD ir a);
         a1 = set_r (RNn ir) tmp a
     in if OPCODE ir AND 1 = 1 then a1\<lparr>arm_n := drop_bit 31 tmp, arm_z := b2w (tmp = 0)\<rparr> else a1)"

definition arm_swap :: "u32 \<Rightarrow> ('a) aica_state_scheme \<Rightarrow> ('a) aica_state_scheme" where
  "arm_swap ir s =
    (let rn = RN ir (armr s); (v, s1) = arm_read_long rn s;
         tmp = (if rn AND 3 = 0 then v else ROTATE_RIGHT_LONG v (8 * (rn AND 3)));
         s2 = arm_write_long rn (RM ir (armr s1)) s1
     in upd_armr (set_r (RDn ir) tmp) s2)"

definition arm_swap_byte :: "u32 \<Rightarrow> ('a) aica_state_scheme \<Rightarrow> ('a) aica_state_scheme" where
  "arm_swap_byte ir s =
    (let rn = RN ir (armr s); (v, s1) = arm_read_byte rn s;
         s2 = arm_write_byte rn (RM ir (armr s1)) s1
     in upd_armr (set_r (RDn ir) v) s2)"

text \<open>The multiplications, the swaps, and the loads and stores of halfwords and signed bytes.\<close>

definition arm_extension :: "u32 \<Rightarrow> ('a) aica_state_scheme \<Rightarrow> bool \<times> ('a) aica_state_scheme" where
  "arm_extension ir s =
    (let k = drop_bit 5 ir AND 3; op = OPCODE ir;
         (operand, a1) = arm_get_address3_operand ir (armr s); s1 = upd_armr (\<lambda>_. a1) s
     in if k = 0 then
          (if op < 4 then (True, upd_armr (arm_multiply ir) s)
           else if op = 16 then (True, arm_swap ir s)
           else if op = 20 then (True, arm_swap_byte ir s)
           else (False, arm_unimp s))
        else if k = 1 then
          (if LFLAG ir then
             let (v, s2) = arm_read_word operand s1 in (True, upd_armr (set_r (RDn ir) (v AND 0xFFFF)) s2)
           else (True, arm_write_word operand (RD ir a1) s1))
        else if \<not> LFLAG ir then (False, arm_unimp s)
        else if k = 2 then
          (let (v, s2) = arm_read_byte operand s1 in (True, upd_armr (set_r (RDn ir) (SIGNEXT8 v)) s2))
        else
          (let (v, s2) = arm_read_word operand s1 in (True, upd_armr (set_r (RDn ir) (SIGNEXT16 v)) s2)))"

definition arm_group_data :: "u32 \<Rightarrow> ('a) aica_state_scheme \<Rightarrow> bool \<times> ('a) aica_state_scheme" where
  "arm_group_data ir s =
    (if ir AND 0x0D900000 = 0x01000000 then arm_misc ir s
     else if ir AND 0x0E000090 = 0x00000090 then arm_extension ir s
     else case arm_data_processing ir (armr s) of
            None \<Rightarrow> (False, arm_unimp s)
          | Some a \<Rightarrow> (True, upd_armr (\<lambda>_. a) s))"

section \<open>Loads, stores and block transfers\<close>

definition arm_load_store :: "u32 \<Rightarrow> ('a) aica_state_scheme \<Rightarrow> ('a) aica_state_scheme" where
  "arm_load_store ir s =
    (let (operand, s1) = arm_get_address_operand ir s; k = drop_bit 20 ir AND 0x17; rd = RD ir (armr s1);
         ld = (\<lambda>r. upd_armr (set_r (RDn ir) (fst r)) (snd r))
     in if k = 0 \<or> k = 16 \<or> k = 18 then arm_write_long operand rd s1
        else if k = 1 \<or> k = 17 \<or> k = 19 then ld (arm_read_long operand s1)
        else if k = 2 then arm_write_long_user operand rd s1
        else if k = 3 then ld (arm_read_long_user operand s1)
        else if k = 4 \<or> k = 20 \<or> k = 22 then arm_write_byte operand rd s1
        else if k = 5 \<or> k = 21 \<or> k = 23 then ld (arm_read_byte operand s1)
        else if k = 6 then arm_write_byte_user operand rd s1
        else ld (arm_read_byte_user operand s1))"

definition arm_branch :: "u32 \<Rightarrow> u32 \<Rightarrow> ('a) aica_state_scheme \<Rightarrow> ('a) aica_state_scheme" where
  "arm_branch ir pc s =
    (let operand = push_bit 2 (SIGNEXT24 (ir AND 0x00FFFFFF));
         s1 = (if ir AND 0x01000000 = 0x01000000 then upd_armr (set_r 14 pc) s else s)
     in upd_armr (set_r 15 (pc + 4 + operand)) s1)"

text \<open>
  The loops over the register list, in the order in which the code visits the registers.
  \<open>before\<close> says that the address moves by \<open>step\<close> before the access and not after it.
\<close>

fun block_store ::
  "(nat \<Rightarrow> arm_registers \<Rightarrow> u32) \<Rightarrow> bool \<Rightarrow> u32 \<Rightarrow> u32 \<Rightarrow> nat list \<Rightarrow> u32 \<Rightarrow> ('a) aica_state_scheme \<Rightarrow>
   u32 \<times> ('a) aica_state_scheme" where
  "block_store get before step ir [] operand s = (operand, s)"
| "block_store get before step ir (i # is) operand s =
    (if bit ir i then
       let addr = (if before then operand + step else operand)
       in block_store get before step ir is (operand + step) (arm_write_long addr (get i (armr s)) s)
     else block_store get before step ir is operand s)"

fun block_load ::
  "(nat \<Rightarrow> u32 \<Rightarrow> arm_registers \<Rightarrow> arm_registers) \<Rightarrow> bool \<Rightarrow> u32 \<Rightarrow> u32 \<Rightarrow> nat list \<Rightarrow> u32 \<Rightarrow> ('a) aica_state_scheme \<Rightarrow>
   u32 \<times> ('a) aica_state_scheme" where
  "block_load put before step ir [] operand s = (operand, s)"
| "block_load put before step ir (i # is) operand s =
    (if bit ir i then
       let addr = (if before then operand + step else operand);
           (v, s1) = arm_read_long addr s
       in block_load put before step ir is (operand + step) (upd_armr (put i v) s1)
     else block_load put before step ir is operand s)"

definition get_current :: "nat \<Rightarrow> arm_registers \<Rightarrow> u32" where
  "get_current i a = (if i = 15 then arm_r a 15 + 8 else arm_r a i)"

definition get_user :: "nat \<Rightarrow> arm_registers \<Rightarrow> u32" where
  "get_user i a = (if i = 15 then arm_r a 15 + 8 else arm_word (arm_user_reg i a) a)"

definition put_user :: "nat \<Rightarrow> u32 \<Rightarrow> arm_registers \<Rightarrow> arm_registers" where
  "put_user i v a = arm_set_word (arm_user_reg i a) v a"

definition arm_block_transfer :: "u32 \<Rightarrow> ('a) aica_state_scheme \<Rightarrow> ('a) aica_state_scheme" where
  "arm_block_transfer ir s =
    (let k = drop_bit 20 (ir AND 0x01D00000);
         load = (k AND 1 \<noteq> 0); S = (k AND 4 \<noteq> 0); up = (k AND 8 \<noteq> 0); before = (k AND 16 \<noteq> 0);
         step = (if up then 4 else - 4 :: u32);
         regs = (if up then [0..<16] else rev [0..<16]);
         needRestore = (load \<and> S \<and> bit ir 15);
         operand0 = RN ir (armr s);
         (operand, s1) =
           (if load then block_load (if S \<and> \<not> bit ir 15 then put_user else set_r) before step ir regs operand0 s
            else block_store (if S then get_user else get_current) before step ir regs operand0 s);
         s2 = (if WFLAG ir then upd_armr (set_r (RNn ir) operand) s1 else s1)
     in if needRestore then upd_armr arm_restore_cpsr s2 else s2)"

section \<open>The dispatcher\<close>

definition arm_take_interrupt :: "arm_registers \<Rightarrow> arm_registers" where
  "arm_take_interrupt a =
    (let tmp = arm_int_pending a AND NOT (arm_cpsr a)
     in if tmp \<noteq> 0 then
          (if tmp AND CPSR_F \<noteq> 0 then arm_raise_exception EXC_FAST_IRQ a else arm_raise_exception EXC_IRQ a)
        else a)"

text \<open>The \<open>switch\<close> over the instruction groups; \<open>pc\<close> is the address after the instruction.\<close>

definition arm_dispatch :: "u32 \<Rightarrow> u32 \<Rightarrow> ('a) aica_state_scheme \<Rightarrow> bool \<times> ('a) aica_state_scheme" where
  "arm_dispatch ir pc s =
    (if GRP ir = 0 then arm_group_data ir s
     else if GRP ir = 1 then (True, arm_load_store ir s)
     else if GRP ir = 2 then
       (True, if ir AND 0x02000000 = 0x02000000 then arm_branch ir pc s else arm_block_transfer ir s)
     else if ir AND 0x0F000000 = 0x0F000000 then (True, upd_armr (arm_raise_exception EXC_SOFTWARE) s)
     else (False, arm_unimp s))"

definition arm_execute_instruction :: "('a) aica_state_scheme \<Rightarrow> bool \<times> ('a) aica_state_scheme" where
  "arm_execute_instruction s0 =
    (let s1 = upd_armr arm_take_interrupt s0;
         (ir, s2) = arm_read_long (arm_r (armr s1) 15) s1;
         pc = arm_r (armr s2) 15 + 4;
         s3 = upd_armr (set_r 15 pc) s2
     in if COND ir = 15 then (True, upd_armr (arm_raise_exception EXC_UNDEFINED) s3)
        else
          let (ok, s4) = (if arm_condition (COND ir) (armr s3) then arm_dispatch ir pc s3 else (True, s3))
          in if \<not> ok then (False, s4)
             else if 0x00200000 \<le> arm_r (armr s4) 15
             then (False, upd_armr (\<lambda>a. a\<lparr>arm_running := False\<rparr>) s4)
             else (True, s4))"

section \<open>The time slice\<close>

definition CYCLES_PER_SAMPLE :: nat where "CYCLES_PER_SAMPLE = 2 * 1000000 div 44100"

text \<open>
  The instructions of one sample; the flag tells whether all of them ran. With
  \<open>ENABLE_DEBUG_MODE\<close> a breakpoint at the new program counter stops the slice.
\<close>

fun arm_sample :: "nat \<Rightarrow> ('a) aica_state_scheme \<Rightarrow> bool \<times> ('a) aica_state_scheme" where
  "arm_sample 0 s = (True, s)"
| "arm_sample (Suc j) s0 =
    (let s = upd_armr (\<lambda>a. a\<lparr>arm_icount := arm_icount a + 1\<rparr>) s0; (ok, s1) = arm_execute_instruction s
     in if \<not> ok then (False, s1)
        else case find_breakpoint (arm_breakpoints s1) (\<lambda>b. bp_address b = arm_r (armr s1) 15)
               [0..<arm_breakpoint_count s1] of
               Some k \<Rightarrow>
                 let s2 = s1\<lparr>dreamcast_running := False\<rparr>
                 in (False, if bp_type (arm_breakpoints s2 k) = BREAK_ONESHOT
                            then snd (arm_clear_breakpoint (arm_r (armr s2) 15) BREAK_ONESHOT s2) else s2)
             | None \<Rightarrow> arm_sample j s1)"

text \<open>The timer of the sound chip advances once for each sample.\<close>

definition arm_tick_timer :: "('a) aica_state_scheme \<Rightarrow> ('a) aica_state_scheme" where
  "arm_tick_timer s =
    (let val = (ucast (ld32 (mmio_AICA2 s) AICA_TIMER) :: u8) + 1;
         s1 = (if val = 0 then aica_event AICA_EVENT_TIMER s else s)
     in AICA2_write AICA_TIMER (ucast val) s1)"

text \<open>The outer loop from sample \<open>i\<close> on; \<open>k\<close> samples are left.\<close>

fun arm_samples :: "nat \<Rightarrow> u32 \<Rightarrow> ('a) aica_state_scheme \<Rightarrow> u32 \<times> ('a) aica_state_scheme" where
  "arm_samples 0 i s = (i, s)"
| "arm_samples (Suc k) i s =
    (let (ok, s1) = arm_sample CYCLES_PER_SAMPLE s
     in if \<not> ok then (i, s1)
        else let s2 = arm_tick_timer s1
             in if \<not> dreamcast_running s2 then (i, s2) else arm_samples k (i + 1) s2)"

definition arm_run_slice :: "u32 \<Rightarrow> ('a) aica_state_scheme \<Rightarrow> u32 \<times> ('a) aica_state_scheme" where
  "arm_run_slice num_samples s =
    (if \<not> arm_running (armr s) then (num_samples, s) else arm_samples (unat num_samples) 0 s)"

definition aica_run_slice ::
  "(audio_buffer \<Rightarrow> bool) \<Rightarrow> (int \<Rightarrow> u32) \<Rightarrow> u32 \<Rightarrow> ('a) aica_state_scheme \<Rightarrow> (u32 \<times> ('a) aica_state_scheme) option" where
  "aica_run_slice process tofloat =
    aica_run_slice_with arm_run_slice (\<lambda>n. audio_mix_samples process tofloat (nat (sint n)))"

end
