(* ===== verification/ArmAlu.thy ===== *)
theory ArmAlu
  imports ArmRegs
begin

unbundle bit_operations_syntax

text \<open>
  What the arithmetic of the ARM instructions computes: the flags of additions, subtractions
  and comparisons against integer arithmetic, and the barrel shifter against a reference
  that shifts bit by bit.
\<close>

section \<open>Flags\<close>

lemma sign_bit: "bit (w :: u32) 31 \<longleftrightarrow> sint w < 0"
  using bit_last_iff [of w] by simp

lemma drop_bit_31: "drop_bit 31 (w :: u32) = b2w (bit w 31)"
proof (rule bit_word_eqI)
  fix n assume "n < LENGTH(32)"
  show "bit (drop_bit 31 w) n = bit (b2w (bit w 31)) n"
    using bit_imp_le_length [of w "31 + n"] by (cases n) (auto simp: bit_simps b2w_def)
qed

lemma b2w_bits: "b2w p AND b2w q = b2w (p \<and> q)" "b2w p XOR b2w q = b2w (p \<noteq> q)"
  by (simp_all add: b2w_def)

lemma sint_sub_cases:
  fixes x y :: u32
  shows "sint (x - y) = sint x - sint y \<or> sint (x - y) = sint x - sint y + 2 ^ 32 \<or> sint (x - y) = sint x - sint y - 2 ^ 32"
proof -
  let ?d = "sint x - sint y"
  have r: "- (2 ^ 31) \<le> sint w \<and> sint w < 2 ^ 31" for w :: u32
    using sint_range_size [of w] by (simp add: word_size)
  have "sint (x - y) = signed_take_bit 31 ?d" by (simp add: sint_word_ariths(2))
  also have "\<dots> = take_bit 32 (?d + 2 ^ 31) - 2 ^ 31" by (simp add: signed_take_bit_eq_take_bit_shift)
  also have "\<dots> = (?d + 2 ^ 31) mod 2 ^ 32 - 2 ^ 31" by (simp add: take_bit_eq_mod)
  finally have e: "sint (x - y) = (?d + 2 ^ 31) mod 2 ^ 32 - 2 ^ 31" .
  define q where "q = (?d + 2 ^ 31) div 2 ^ 32"
  have "?d + 2 ^ 31 = q * 2 ^ 32 + (?d + 2 ^ 31) mod 2 ^ 32" by (simp add: q_def)
  then have "sint (x - y) = ?d - q * 2 ^ 32" using e by linarith
  moreover have "- 1 \<le> q \<and> q \<le> 1"
  proof -
    have d: "- 4294967296 \<le> ?d + 2147483648" "?d + 2147483648 < 8589934592" using r [of x] r [of y] by simp_all
    obtain m where "0 \<le> m" "m < 4294967296" "?d + 2147483648 = q * 4294967296 + m"
      by (rule that [of "(?d + 2147483648) mod 4294967296"]) (simp_all add: q_def)
    with d show ?thesis by linarith
  qed
  then have "q = - 1 \<or> q = 0 \<or> q = 1" by auto
  ultimately show ?thesis by auto
qed

lemma sint_range_32: "- 2147483648 \<le> sint (w :: u32)" "sint (w :: u32) < 2147483648"
  using sint_range_size [of w] by (simp_all add: word_size)

lemma subtract_overflow:
  fixes x y :: u32
  shows "(IS_SUBOVERFLOW (x - y) x y \<noteq> 0) = (sint x - sint y < - (2 ^ 31) \<or> 2 ^ 31 \<le> sint x - sint y)"
    and "(drop_bit 31 (x - y) = IS_SUBOVERFLOW (x - y) x y) = (sint y \<le> sint x)"
proof -
  have v: "IS_SUBOVERFLOW (x - y) x y =
     b2w ((sint x < 0) \<noteq> (sint y < 0) \<and> (sint (x - y) < 0) \<noteq> (sint x < 0))"
    by (simp add: IS_SUBOVERFLOW_def drop_bit_31 bit_simps sign_bit b2w_bits)
  have n: "drop_bit 31 (x - y) = b2w (sint (x - y) < 0)" by (simp add: drop_bit_31 sign_bit)
  note r = sint_range_32 [of x] sint_range_32 [of y] sint_range_32 [of "x - y"] sint_sub_cases [of x y]
  show "(IS_SUBOVERFLOW (x - y) x y \<noteq> 0) = (sint x - sint y < - (2 ^ 31) \<or> 2 ^ 31 \<le> sint x - sint y)"
    unfolding v b2w_simps using r by auto
  have "(b2w p = b2w q) = (p = q)" for p q by (simp add: b2w_def)
  then show "(drop_bit 31 (x - y) = IS_SUBOVERFLOW (x - y) x y) = (sint y \<le> sint x)"
    unfolding v n using r by auto
qed

lemma add_overflow_negative:
  fixes x y :: u32
  shows "(IS_ADDOVERFLOW (x + y) x y \<noteq> 0) = (sint x + sint y < - (2 ^ 31))"
proof -
  have v: "IS_ADDOVERFLOW (x + y) x y = b2w (sint x < 0 \<and> sint y < 0 \<and> (sint (x + y) < 0) \<noteq> (sint x < 0))"
    by (simp add: IS_ADDOVERFLOW_def drop_bit_31 bit_simps sign_bit b2w_bits conj_ac)
  have c: "sint (x + y) = sint x + sint y \<or> sint (x + y) = sint x + sint y + 2 ^ 32 \<or> sint (x + y) = sint x + sint y - 2 ^ 32"
    using sint_sub_cases [of "x + y" y] by auto
  note r = sint_range_32 [of x] sint_range_32 [of y] sint_range_32 [of "x + y"] c
  show ?thesis unfolding v b2w_simps using r by auto
qed

lemma add_carry: "(IS_CARRY (x + y) x \<noteq> 0) = (2 ^ 32 \<le> unat x + unat y)"
proof -
  have "unat (x + y) = (unat x + unat y) mod 2 ^ 32" by (simp add: unat_word_ariths)
  moreover have "unat x < 2 ^ 32" "unat y < 2 ^ 32" by (rule unat_less_exp)+
  ultimately show ?thesis by (auto simp: IS_CARRY_def word_less_nat_alt mod_if)
qed

text \<open>
  C31: After a comparison of \<open>x\<close> with \<open>y\<close>, each condition code holds exactly when its name says,
  for unsigned and for signed numbers.
\<close>

theorem arm_compare_conditions:
  fixes a :: arm_registers and ir :: u32
  assumes "OPCODE ir = 21"
  defines "x \<equiv> RN ir a" and "y \<equiv> arm_get_shift_operand ir a" and "b \<equiv> arm_dp_test ir a"
  shows "arm_data_processing ir a = Some b \<and>
    (arm_condition 0 b \<longleftrightarrow> x = y) \<and> (arm_condition 1 b \<longleftrightarrow> x \<noteq> y) \<and>
    (arm_condition 2 b \<longleftrightarrow> unat y \<le> unat x) \<and> (arm_condition 3 b \<longleftrightarrow> unat x < unat y) \<and>
    (arm_condition 8 b \<longleftrightarrow> unat y < unat x) \<and> (arm_condition 9 b \<longleftrightarrow> unat x \<le> unat y) \<and>
    (arm_condition 10 b \<longleftrightarrow> sint y \<le> sint x) \<and> (arm_condition 11 b \<longleftrightarrow> sint x < sint y) \<and>
    (arm_condition 12 b \<longleftrightarrow> sint y < sint x) \<and> (arm_condition 13 b \<longleftrightarrow> sint x \<le> sint y) \<and>
    arm_r b = arm_r a"
proof -
  have b: "b = set_flags (x - y) (IS_NOTBORROW x y) (IS_SUBOVERFLOW (x - y) x y) a"
    using assms(1) by (simp add: arm_dp_test_def b_def x_def y_def Let_def)
  have nv: "(arm_n b = arm_v b) = (sint y \<le> sint x)" using subtract_overflow(2) [of x y] by (simp add: b set_flags_def)
  have z: "(arm_z b \<noteq> 0) = (x = y)" by (simp add: b set_flags_def)
  have c: "(arm_c b \<noteq> 0) = (unat y \<le> unat x)" by (simp add: b set_flags_def IS_NOTBORROW_def word_less_nat_alt)
  have "x = y \<longleftrightarrow> unat x = unat y" by (rule word_unat_eq_iff)
  moreover have "x = y \<longleftrightarrow> sint x = sint y" by (metis signed_word_eqI)
  ultimately have eq: "x = y \<longleftrightarrow> unat x = unat y" "x = y \<longleftrightarrow> sint x = sint y" by blast+
  have "arm_data_processing ir a = Some b" using assms(1) by (simp add: arm_data_processing_def b_def)
  moreover have "arm_r b = arm_r a" by (simp add: b set_flags_def)
  ultimately show ?thesis using z c nv eq by (auto simp: arm_condition_def)
qed

theorem arm_compare_conditions_witness:
  "arm_condition 13 (arm_dp_test 0xE1500001 (set_r 0 (- 5) (set_r 1 3 arm_reset_regs)))"
proof -
  have "OPCODE 0xE1500001 = 21" by (simp add: OPCODE_def)
  from arm_compare_conditions [OF this, of "set_r 0 (- 5) (set_r 1 3 arm_reset_regs)"] show ?thesis
    by (simp add: RN_def RNn_def arm_operand_reg_def set_r_def arm_get_shift_operand_def IFLAG_def SHIFT_def SHIFTIMM_def
        RM_def RMn_def Let_def c_defs)
qed

text \<open>
  Additions with the S bit and comparisons with a negated operand set the sign, zero and
  carry flags right, but set the overflow flag only when the sum is too small: a sum that
  is too large for a signed number leaves it clear.
\<close>

theorem arm_add_flags:
  fixes a :: arm_registers and ir :: u32
  assumes "OPCODE ir = 9 \<and> RDn ir \<noteq> 15 \<or> OPCODE ir = 23"
  defines "x \<equiv> RN ir a" and "y \<equiv> arm_get_shift_operand ir a" and "b \<equiv> the (arm_data_processing ir a)"
  shows "(arm_n b \<noteq> 0 \<longleftrightarrow> sint (x + y) < 0) \<and> (arm_z b \<noteq> 0 \<longleftrightarrow> x + y = 0) \<and>
    (arm_c b \<noteq> 0 \<longleftrightarrow> 2 ^ 32 \<le> unat x + unat y) \<and>
    (arm_v b \<noteq> 0 \<longleftrightarrow> sint x + sint y < - (2 ^ 31)) \<and>
    (OPCODE ir = 9 \<longrightarrow> arm_r b (RDn ir) = x + y)"
proof -
  have flags: "(drop_bit 31 (x + y) \<noteq> 0) = (sint (x + y) < 0)" by (simp add: drop_bit_31 sign_bit)
  note ov = add_overflow_negative [of x y] add_overflow_negative [of y x, unfolded add.commute [of y x] add.commute [of "sint y"]]
  note ca = add_carry [of x y] add_carry [of y x, unfolded add.commute [of y x] add.commute [of "unat y"]]
  from assms(1) show ?thesis
  proof
    assume o: "OPCODE ir = 9 \<and> RDn ir \<noteq> 15"
    then have "b = set_flags (y + x) (IS_CARRY (y + x) y) (IS_ADDOVERFLOW (y + x) y x) (set_r (RDn ir) (y + x) a)"
      by (simp add: b_def arm_data_processing_def arm_dp_arith_def arith_result_def x_def y_def Let_def)
    then have b: "b = set_flags (x + y) (IS_CARRY (x + y) y) (IS_ADDOVERFLOW (x + y) y x) (set_r (RDn ir) (x + y) a)"
      by (simp only: add.commute [of y x])
    show ?thesis using flags ov ca by (simp add: b set_flags_def set_r_def)
  next
    assume o: "OPCODE ir = 23"
    then have b: "b = set_flags (x + y) (IS_CARRY (x + y) x) (IS_ADDOVERFLOW (x + y) x y) a"
      by (simp add: b_def arm_data_processing_def arm_dp_test_def x_def y_def Let_def)
    show ?thesis using flags ov ca o by (simp add: b set_flags_def)
  qed
qed

theorem arm_add_flags_witness:
  "arm_v (the (arm_data_processing 0xE0902001 (set_r 0 0x7FFFFFFF (set_r 1 1 arm_reset_regs)))) = 0"
proof -
  have "OPCODE 0xE0902001 = 9 \<and> RDn 0xE0902001 \<noteq> 15 \<or> OPCODE 0xE0902001 = 23" by (simp add: OPCODE_def RDn_def)
  from arm_add_flags [OF this, of "set_r 0 0x7FFFFFFF (set_r 1 1 arm_reset_regs)"] show ?thesis
    by (simp add: RN_def RNn_def arm_operand_reg_def set_r_def arm_get_shift_operand_def IFLAG_def SHIFT_def SHIFTIMM_def
        RM_def RMn_def Let_def c_defs)
qed

text \<open>
  The subtractions with carry that set the flags write no register, and when the carry is
  set (no borrow is pending) they clear it, whatever the operands are.
\<close>

theorem arm_sbcs_loses_result:
  assumes "OPCODE ir = 13 \<or> OPCODE ir = 15" "RDn ir \<noteq> 15"
  shows "\<exists>b. arm_data_processing ir a = Some b \<and> arm_r b = arm_r a \<and> (arm_c a \<noteq> 0 \<longrightarrow> arm_c b = 0)"
  using assms by (auto simp: arm_data_processing_def arm_dp_carry_def sub_carry_flags_def set_flags_def Let_def)

theorem arm_sbcs_loses_result_witness:
  "\<exists>b. arm_data_processing 0xE0D02001 (arm_reset_regs\<lparr>arm_c := 1\<rparr>) = Some b \<and> arm_c b = 0"
  using arm_sbcs_loses_result [of "0xE0D02001" "arm_reset_regs\<lparr>arm_c := 1\<rparr>"] by (auto simp: OPCODE_def RDn_def)

section \<open>The shifter against a bit-serial reference\<close>

text \<open>
  A shift moves one bit at a time, and the carry is the bit that falls out; shifting by
  nothing leaves the carry. \<open>Kind\<close> is the two-bit shift type of the instruction.
\<close>

datatype shift_kind = LSL | LSR | ASR | ROR

fun shift_bit :: "shift_kind \<Rightarrow> u32 \<times> bool \<Rightarrow> u32 \<times> bool" where
  "shift_bit LSL (x, c) = (push_bit 1 x, bit x 31)"
| "shift_bit LSR (x, c) = (drop_bit 1 x, bit x 0)"
| "shift_bit ASR (x, c) = (signed_drop_bit 1 x, bit x 0)"
| "shift_bit ROR (x, c) = (word_rotr 1 x, bit x 0)"

definition shift_reference :: "shift_kind \<Rightarrow> nat \<Rightarrow> u32 \<times> bool \<Rightarrow> u32 \<times> bool" where
  "shift_reference k n = (shift_bit k ^^ n)"

lemma word_rotr_0 [simp]: "word_rotr 0 (x :: u32) = x"
  by (rule bit_word_eqI) (simp add: bit_word_rotr_iff)

lemma shift_reference_closed:
  "shift_reference LSL n (x, c) = (push_bit n x, if n = 0 then c else n \<le> 32 \<and> bit x (32 - n))"
  "shift_reference LSR n (x, c) = (drop_bit n x, if n = 0 then c else bit x (n - 1))"
  "shift_reference ASR n (x, c) = (signed_drop_bit n x, if n = 0 then c else bit x (min (n - 1) 31))"
  "shift_reference ROR n (x, c) = (word_rotr n x, if n = 0 then c else bit x ((n - 1) mod 32))"
proof -
  have "(shift_bit LSL ^^ n) (x, c) = (push_bit n x, if n = 0 then c else n \<le> 32 \<and> bit x (32 - n))"
  proof (induction n)
    case (Suc n)
    have "bit (push_bit n x) 31 = (Suc n \<le> 32 \<and> bit x (32 - Suc n))" by (auto simp: bit_simps)
    then show ?case using Suc by (simp add: push_bit_push_bit)
  qed simp
  then show "shift_reference LSL n (x, c) = (push_bit n x, if n = 0 then c else n \<le> 32 \<and> bit x (32 - n))"
    by (simp add: shift_reference_def)
  have "(shift_bit LSR ^^ n) (x, c) = (drop_bit n x, if n = 0 then c else bit x (n - 1))"
    by (induction n) (auto simp: bit_simps drop_bit_drop_bit)
  then show "shift_reference LSR n (x, c) = (drop_bit n x, if n = 0 then c else bit x (n - 1))"
    by (simp add: shift_reference_def)
  have "(shift_bit ASR ^^ n) (x, c) = (signed_drop_bit n x, if n = 0 then c else bit x (min (n - 1) 31))"
  proof (induction n)
    case (Suc n)
    have "signed_drop_bit 1 (signed_drop_bit n x) = signed_drop_bit (Suc n) x"
      by (rule bit_word_eqI) (auto simp: bit_signed_drop_bit_iff)
    moreover have "bit (signed_drop_bit n x) 0 = bit x (min n 31)"
      by (auto simp: bit_signed_drop_bit_iff min_def)
    ultimately show ?case using Suc by simp
  qed simp
  then show "shift_reference ASR n (x, c) = (signed_drop_bit n x, if n = 0 then c else bit x (min (n - 1) 31))"
    by (simp add: shift_reference_def)
  have "(shift_bit ROR ^^ n) (x, c) = (word_rotr n x, if n = 0 then c else bit x ((n - 1) mod 32))"
  proof (induction n)
    case (Suc n)
    have "bit (word_rotr n x) 0 = bit x (n mod 32)" by (simp add: bit_word_rotr_iff)
    then show ?case using Suc by (simp add: word_rotr_word_rotr_eq)
  qed simp
  then show "shift_reference ROR n (x, c) = (word_rotr n x, if n = 0 then c else bit x ((n - 1) mod 32))"
    by (simp add: shift_reference_def)
qed

definition shift_kind_of :: "u32 \<Rightarrow> shift_kind" where
  "shift_kind_of sh = (if sh < 2 then LSL else if sh < 4 then LSR else if sh < 6 then ASR else ROR)"

definition shift_spec :: "u32 \<Rightarrow> arm_registers \<Rightarrow> u32 \<times> bool" where
  "shift_spec ir a =
    (let x = RM ir a; c = (arm_c a \<noteq> 0); k = shift_kind_of (SHIFT ir); imm = unat (SHIFTIMM ir)
     in if IFLAG ir then shift_reference ROR (unat (IMMROT ir)) (IMM8 ir, c)
        else if SHIFT ir AND 1 = 1 then shift_reference k (unat (RS ir a AND 0xFF)) (x, c)
        else if imm = 0 \<and> k = ROR then (drop_bit 1 x OR (if c then 2 ^ 31 else 0), bit x 0)
        else shift_reference k (if imm = 0 \<and> k \<noteq> LSL then 32 else imm) (x, c))"

lemma and_1_bit: "((x :: u32) AND 1 \<noteq> 0) = bit x 0"
  by (simp add: and_one_eq bit_0 odd_iff_mod_2_eq_one)

lemma shl32_less: "n < 32 \<Longrightarrow> shl32 x n = push_bit (unat n) x"
  by (simp add: shl32_def unat_and_31)

lemma shr32_less: "n < 32 \<Longrightarrow> shr32 x n = drop_bit (unat n) x"
  by (simp add: shr32_def unat_and_31)

lemma sar32_less: "n < 32 \<Longrightarrow> sar32 x n = signed_drop_bit (unat n) x"
  by (simp add: sar32_def unat_and_31)

lemma last_out_right: "0 < n \<Longrightarrow> n \<le> 32 \<Longrightarrow> (shr32 x (n - 1) AND 1 \<noteq> 0) = bit x (unat n - 1)"
proof -
  assume n: "0 < n" "n \<le> 32"
  then have u: "unat (n - 1) = unat n - 1" "unat n \<le> 32"
    by (simp_all add: unat_sub word_le_nat_alt word_greater_zero_iff Suc_le_eq unat_gt_0)
  then have "n - 1 < 32" using n by (simp add: word_less_nat_alt)
  then show ?thesis using u by (simp add: and_1_bit shr32_less bit_simps)
qed

lemma last_out_left: "0 < n \<Longrightarrow> n \<le> 32 \<Longrightarrow> (shr32 x (32 - n) AND 1 \<noteq> 0) = bit x (32 - unat n)"
proof -
  assume n: "0 < n" "n \<le> 32"
  then have u: "unat (32 - n) = 32 - unat n" "0 < unat n"
    by (simp_all add: unat_sub word_greater_zero_iff unat_gt_0)
  then have "32 - n < 32" by (simp add: word_less_nat_alt)
  then show ?thesis using u by (simp add: and_1_bit shr32_less bit_simps)
qed

lemma rotate_rotr: "n < 32 \<Longrightarrow> ROTATE_RIGHT_LONG x n = word_rotr (unat n) x"
proof (cases "n = 0")
  case True
  then show ?thesis by (simp add: rotate_zero)
next
  case False
  assume "n < 32"
  then show ?thesis using False
    by (intro bit_word_eqI) (simp add: bit_rotate bit_word_rotr_iff word_greater_zero_iff)
qed

lemma sign_fill: "- drop_bit 31 (x :: u32) = signed_drop_bit 32 x" "signed_drop_bit 31 x = signed_drop_bit 32 (x :: u32)"
proof -
  show "- drop_bit 31 x = signed_drop_bit 32 x"
    by (rule bit_word_eqI) (auto simp: drop_bit_31 b2w_def bit_signed_drop_bit_iff)
  show "signed_drop_bit 31 x = signed_drop_bit 32 x"
  proof (rule bit_word_eqI)
    fix n assume "n < LENGTH(32)"
    then show "bit (signed_drop_bit 31 x) n = bit (signed_drop_bit 32 x) n"
      by (cases n) (simp_all add: bit_signed_drop_bit_iff)
  qed
qed

lemma and_small: "(x :: u32) AND 31 < 32" "x AND 30 < 32" "x AND 255 \<le> 255"
proof -
  have "x AND 31 \<le> 31" "x AND 30 \<le> 30" "x AND 255 \<le> 255" by (rule word_and_le1)+
  then show "x AND 31 < 32" "x AND 30 < 32" "x AND 255 \<le> 255" by (simp_all add: order_le_less_trans)
qed

lemma shift_cases: "(s :: u32) < 8 \<Longrightarrow> s = 0 \<or> s = 1 \<or> s = 2 \<or> s = 3 \<or> s = 4 \<or> s = 5 \<or> s = 6 \<or> s = 7"
proof -
  assume "s < 8"
  then have "unat s < 8" by (simp add: word_less_nat_alt)
  then have "unat s = 0 \<or> unat s = 1 \<or> unat s = 2 \<or> unat s = 3 \<or> unat s = 4 \<or> unat s = 5 \<or> unat s = 6 \<or> unat s = 7"
    by linarith
  then show ?thesis by (simp add: word_unat_eq_iff)
qed

lemma SHIFT_less: "SHIFT ir < 8" "SHIFTIMM ir < 32" "IMMROT ir < 32"
  by (simp_all add: SHIFT_def SHIFTIMM_def IMMROT_def and_7_less and_small)

lemma unat_pos: "(n :: u32) \<noteq> 0 \<Longrightarrow> 0 < n \<and> 0 < unat n"
  by (simp add: word_greater_zero_iff unat_gt_0)

lemma shift_out:
  fixes x :: u32
  assumes "32 \<le> n"
  shows "push_bit n x = 0" "drop_bit n x = 0" "signed_drop_bit n x = signed_drop_bit 31 x" "32 < n \<Longrightarrow> \<not> bit x (n - 1)"
proof -
  show "push_bit n x = 0" using assms by (intro bit_word_eqI) (auto simp: bit_simps)
  show "drop_bit n x = 0" using assms by (intro bit_word_eqI) (auto simp: bit_simps dest: bit_imp_le_length)
  show "signed_drop_bit n x = signed_drop_bit 31 x"
  proof (rule bit_word_eqI)
    fix k assume "k < LENGTH(32)"
    then show "bit (signed_drop_bit n x) k = bit (signed_drop_bit 31 x) k"
      using assms by (cases k) (simp_all add: bit_signed_drop_bit_iff)
  qed
  show "32 < n \<Longrightarrow> \<not> bit x (n - 1)" by (auto dest: bit_imp_le_length)
qed

lemma rotr_mod: "word_rotr n (x :: u32) = word_rotr (n mod 32) x"
  by (rule bit_word_eqI) (simp add: bit_word_rotr_iff mod_add_right_eq)

lemma pred_mod: "0 < n \<Longrightarrow> (n - 1) mod 32 = (if n mod 32 = 0 then 31 else n mod 32 - 1)" for n :: nat
  by (cases n) (auto simp: mod_Suc)

lemma unat_bounds_32: "(n :: u32) < 32 \<longleftrightarrow> unat n < 32" "n \<le> 32 \<longleftrightarrow> unat n \<le> 32"
  by (simp_all add: word_less_nat_alt word_le_nat_alt)

text \<open>
  C32: With a normal carry flag (0 or 1) the shifter computes what the bit-serial reference does,
  and its carry is the reference's, except for rotations by a constant, where any higher bit
  of the operand sets the carry.
\<close>

theorem arm_shifter_reference:
  fixes a :: arm_registers and ir :: u32
  assumes "arm_c a = 0 \<or> arm_c a = 1"
  defines "p \<equiv> shift_operand_and_carry ir a" and "imm \<equiv> SHIFTIMM ir"
  shows "fst p = fst (shift_spec ir a) \<and>
    (snd p \<noteq> 0) = (if \<not> IFLAG ir \<and> SHIFT ir = 6 \<and> imm \<noteq> 0 then drop_bit (unat imm - 1) (RM ir a) \<noteq> 0
                   else snd (shift_spec ir a))"
proof (cases "IFLAG ir")
  case True
  have "unat (IMMROT ir) < 32" using SHIFT_less(3) [of ir] by (simp add: word_less_nat_alt)
  then have "(drop_bit 31 (word_rotr (unat (IMMROT ir)) x) \<noteq> 0) = bit x ((unat (IMMROT ir) - 1) mod 32)"
    if "IMMROT ir \<noteq> 0" for x :: u32
    using unat_pos [OF that] by (simp add: drop_bit_31 bit_word_rotr_iff mod_if)
  then show ?thesis
    using True unat_pos [of "IMMROT ir"] SHIFT_less(3) [of ir]
    by (auto simp: p_def shift_operand_and_carry_def shift_spec_def shift_reference_closed Let_def rotate_rotr)
next
  case False
  have im: "imm < 32" "unat imm < 32" using SHIFT_less(2) [of ir] by (simp_all add: imm_def word_less_nat_alt)
  define rs where "rs = RS ir a AND 0xFF"
  define x where "x = RM ir a"
  have low: "rs AND 31 = RS ir a AND 31" by (simp add: rs_def and.assoc)
  note defs = p_def shift_operand_and_carry_def shift_spec_def Let_def imm_def [symmetric] rs_def [symmetric] x_def [symmetric]
    shift_kind_of_def shift_reference_closed
  from shift_cases [OF SHIFT_less(1) [of ir]] show ?thesis
  proof (elim disjE)
    assume s: "SHIFT ir = 0"
    show ?thesis using False s im unat_pos [of imm] last_out_left [of imm x]
      by (cases "imm = 0") (simp_all add: defs shl32_less)
  next
    assume s: "SHIFT ir = 2"
    show ?thesis using False s im unat_pos [of imm] last_out_right [of imm x]
      by (cases "imm = 0") (simp_all add: defs shr32_less drop_bit_31)
  next
    assume s: "SHIFT ir = 4"
    show ?thesis using False s im unat_pos [of imm] last_out_right [of imm x]
      by (cases "imm = 0") (simp_all add: defs sar32_less drop_bit_31 sign_fill(1) [unfolded drop_bit_31])
  next
    assume s: "SHIFT ir = 6"
    have d: "imm \<noteq> 0 \<Longrightarrow> shr32 x (imm - 1) = drop_bit (unat imm - 1) x"
    proof -
      assume "imm \<noteq> 0"
      then have "unat (imm - 1) = unat imm - 1" using unat_pos [of imm] by (simp add: unat_sub word_le_nat_alt)
      then show ?thesis using im(2) by (simp add: shr32_less unat_bounds_32)
    qed
    show ?thesis using False s im unat_pos [of imm] assms(1) and_1_bit [of x] d
      by (cases "imm = 0") (auto simp: defs rotate_rotr RRX_def)
  next
    assume s: "SHIFT ir = 1"
    show ?thesis
      using False s unat_pos [of rs] last_out_left [of rs x] shift_out [of "unat rs" x]
      by (cases "rs = 0") (auto simp: defs shl32_less unat_bounds_32 not_le not_less)
  next
    assume s: "SHIFT ir = 3"
    show ?thesis
      using False s unat_pos [of rs] last_out_right [of rs x] shift_out [of "unat rs" x]
      by (cases "rs = 0") (auto simp: defs shr32_less unat_bounds_32 not_le not_less)
  next
    assume s: "SHIFT ir = 5"
    have e: "min (unat rs - 1) 31 = (if 32 \<le> unat rs then 31 else unat rs - 1)" by auto
    show ?thesis
      using False s unat_pos [of rs] last_out_right [of rs x] shift_out [of "unat rs" x]
      by (cases "rs = 0") (auto simp: defs sar32_less unat_bounds_32 not_le not_less drop_bit_31 e simp del: One_nat_def)
  next
    assume s: "SHIFT ir = 7"
    have m: "unat (rs AND 31) = unat rs mod 32"
      using take_bit_eq_mod [of 5 "unat rs"] by (simp add: take_bit_eq_mask mask_eq_exp_minus_1 unsigned_and_eq)
    have le: "rs AND 31 \<le> 32" using and_small(1) [of rs] by simp
    have nz: "(rs AND 31 = 0) = (unat rs mod 32 = 0)" using m by (metis unat_eq_0)
    show ?thesis
    proof (cases "rs = 0")
      case True
      then show ?thesis using False s by (simp add: defs)
    next
      case nz_rs: False
      show ?thesis
        using False s nz_rs unat_pos [OF nz_rs] last_out_right [of "rs AND 31" x] unat_pos [of "rs AND 31"] le and_small(1) [of rs]
          rotr_mod [of "unat rs" x] pred_mod [of "unat rs"] nz m
        by (cases "rs AND 31 = 0") (simp_all add: defs rotate_rotr drop_bit_31 del: One_nat_def)
    qed
  qed
qed

theorem arm_shifter_reference_witness:
  "fst (shift_operand_and_carry 0xE1B00041 (set_r 1 0x80000000 arm_reset_regs)) = fst (shift_spec 0xE1B00041 (set_r 1 0x80000000 arm_reset_regs))"
  using arm_shifter_reference [of "set_r 1 0x80000000 arm_reset_regs" "0xE1B00041"] by (simp add: set_r_def arm_reset_regs_def)

text \<open>
  The shifter variant without a carry, which the instructions without the S bit and the
  additions and subtractions use, agrees with the other one except for logical shifts to
  the right: a shift by the constant 32, coded as 0, leaves the operand as it is, and a shift
  by a register shifts by the low five bits of the instruction word instead.
\<close>

theorem arm_shift_variants:
  fixes a :: arm_registers and ir :: u32
  defines "rs \<equiv> RS ir a AND 0xFF"
  shows "fst (arm_get_shift_operand_s ir a) = arm_get_shift_operand ir a \<or>
    \<not> IFLAG ir \<and> (SHIFT ir = 2 \<and> SHIFTIMM ir = 0 \<and> arm_get_shift_operand ir a = RM ir a \<or>
       SHIFT ir = 3 \<and> arm_get_shift_operand ir a = (if 31 < rs then 0 else shr32 (RM ir a) ir))"
proof (cases "IFLAG ir")
  case True
  then show ?thesis
    by (simp add: arm_get_shift_operand_s_def shift_operand_and_carry_def arm_get_shift_operand_def Let_def rotate_zero)
next
  case False
  define x where "x = RM ir a"
  have z: "shl32 x 0 = x" "shr32 x 0 = x" "sar32 x 0 = x" by (simp_all add: c_defs)
  have low: "RS ir a AND 31 = rs AND 31" by (simp add: rs_def and.assoc)
  have g: "31 < rs \<longleftrightarrow> \<not> rs < 32" by (auto simp: word_less_nat_alt)
  note defs = arm_get_shift_operand_s_def shift_operand_and_carry_def arm_get_shift_operand_def Let_def rs_def [symmetric]
    x_def [symmetric]
  from shift_cases [OF SHIFT_less(1) [of ir]] show ?thesis
    by (elim disjE; use False z sign_fill sar32_less [of 31 x] in
      \<open>auto simp: defs low rotate_zero g\<close>)
qed
end
