(* ===== verification/ArmInvariant.thy ===== *)
theory ArmInvariant
  imports ArmCore ArmAlu
begin

unbundle bit_operations_syntax

text \<open>
  What the instructions of the sound processor can change. The locale \<open>arm_invariant\<close>
  states the contract between the processor and the memory it works on: a property of the
  machine that the memory functions keep is kept by every instruction, every sample and every
  time slice. It is interpreted on the mixer state, so that no program running on the ARM can
  bring the channels out of the range in which the mixer is safe.
\<close>


section \<open>Channel registers stay in range\<close>

lemma volume_entries: "\<forall>v \<in> set aica_volume_table. 0 \<le> v \<and> v \<le> 255"
  by (simp add: aica_volume_table_def)

lemma volume_length: "length aica_volume_table = 256"
  by (simp add: aica_volume_table_def)

lemma volume_range:
  "0 \<le> aica_volume_table ! unat (max (x AND (0xFF :: u32)) (y AND 0xFF))"
  "aica_volume_table ! unat (max (x AND (0xFF :: u32)) (y AND 0xFF)) \<le> 255"
proof -
  have "max (x AND (0xFF :: u32)) (y AND 0xFF) \<le> 255" by (simp add: word_and_le1)
  then have "unat (max (x AND (0xFF :: u32)) (y AND 0xFF)) < length aica_volume_table"
    by (simp add: volume_length word_le_nat_alt)
  then have "aica_volume_table ! unat (max (x AND (0xFF :: u32)) (y AND 0xFF)) \<in> set aica_volume_table"
    by (rule nth_mem)
  then show "0 \<le> aica_volume_table ! unat (max (x AND (0xFF :: u32)) (y AND 0xFF))"
    "aica_volume_table ! unat (max (x AND (0xFF :: u32)) (y AND 0xFF)) \<le> 255"
    using volume_entries by blast+
qed

lemma pan_range: "0 \<le> pan_of v" "pan_of v \<le> 31"
proof -
  have p: "v AND 0x1F \<le> 0x1F" by (rule word_and_le1)
  then have "uint (v AND 0x1F) \<le> 31" by (simp add: word_le_def)
  moreover have "uint (0x0F - (v AND 0x1F)) \<le> 31" if "v AND 0x1F \<le> 0x0F"
  proof -
    have "0x0F - (v AND 0x1F) \<le> 0x0F" using that by (rule word_sub_le)
    then show ?thesis by (simp add: word_le_def)
  qed
  ultimately show "0 \<le> pan_of v" "pan_of v \<le> 31" by (auto simp: pan_of_def Let_def)
qed

lemma channel_ok_vol: "channel_ok c \<Longrightarrow> 0 \<le> v \<Longrightarrow> v \<le> 255 \<Longrightarrow> channel_ok (c\<lparr>ch_vol := v\<rparr>)"
  by (simp add: channel_ok_def)

lemma channel_ok_pan: "channel_ok c \<Longrightarrow> 0 \<le> v \<Longrightarrow> v \<le> 31 \<Longrightarrow> channel_ok (c\<lparr>ch_pan := v\<rparr>)"
  by (simp add: channel_ok_def)

lemma fold_inv: "(\<And>x s. P s \<Longrightarrow> P (f x s)) \<Longrightarrow> P s \<Longrightarrow> P (fold f xs s)"
  by (induction xs arbitrary: s) auto

lemma start_stop_channels_ok: "channels_ok s \<Longrightarrow> channels_ok (aica_start_stop_channels s)"
  unfolding aica_start_stop_channels_def Let_def by (intro fold_inv [where P = channels_ok] start_stop_channel_ok)

lemma write_channel_ok: "channels_ok s \<Longrightarrow> channels_ok (aica_write_channel n reg v s)"
  unfolding aica_write_channel_def Let_def
  by (auto intro!: start_stop_channels_ok upd_channel_ok channel_ok_vol channel_ok_pan volume_range pan_range)

lemma channels_ok_frame [simp]:
  "channels_ok (s\<lparr>armr := a\<rparr>) = channels_ok s" "channels_ok (s\<lparr>scratch_ram := m\<rparr>) = channels_ok s"
  "channels_ok (s\<lparr>mmio_AICA0 := m\<rparr>) = channels_ok s" "channels_ok (s\<lparr>mmio_AICA1 := m\<rparr>) = channels_ok s"
  "channels_ok (s\<lparr>mmio_AICA2 := m\<rparr>) = channels_ok s" "channels_ok (s\<lparr>main_ram := m\<rparr>) = channels_ok s"
  "channels_ok (s\<lparr>samples_done := x\<rparr>) = channels_ok s" "channels_ok (s\<lparr>nanosecs_done := x\<rparr>) = channels_ok s"
  "channels_ok (s\<lparr>time_of_day := x\<rparr>) = channels_ok s"
  "channels_ok (s\<lparr>aica_event_pending := x\<rparr>) = channels_ok s" "channels_ok (s\<lparr>clear_count := x\<rparr>) = channels_ok s"
  "channels_ok (s\<lparr>dreamcast_running := b\<rparr>) = channels_ok s" "channels_ok (s\<lparr>arm_breakpoints := t\<rparr>) = channels_ok s"
  "channels_ok (s\<lparr>arm_breakpoint_count := k\<rparr>) = channels_ok s"
  by (simp_all add: channels_ok_def)

lemma channels_ok_ops [simp]:
  "channels_ok (AICA2_write reg v s) = channels_ok s" "channels_ok (aica_event e s) = channels_ok s"
  "channels_ok (aica_clear_event s) = channels_ok s" "channels_ok (arm_reset s) = channels_ok s"
  "channels_ok (upd_armr f s) = channels_ok s" "channels_ok (arm_tick_timer s) = channels_ok s"
  by (simp_all add: AICA2_write_def aica_event_def aica_clear_event_def arm_reset_def upd_armr_def arm_tick_timer_def Let_def)

lemma mmio_channels_ok:
  assumes "channels_ok s"
  shows "channels_ok (mmio_region_AICA0_write reg v s)" "channels_ok (mmio_region_AICA1_write reg v s)"
    "channels_ok (mmio_region_AICA2_write reg v s)" "channels_ok (snd (mmio_region_AICA2_read reg s))"
  using assms
  by (auto simp: mmio_region_AICA0_write_def mmio_region_AICA1_write_def mmio_region_AICA2_write_def
      mmio_region_AICA2_read_def Let_def intro!: write_channel_ok upd_channel_ok)

lemma arm_memory_channels_ok:
  assumes "channels_ok s"
  shows "channels_ok (snd (arm_read_long addr s))" "channels_ok (arm_write_long addr v s)"
    "channels_ok (arm_write_word addr v s)" "channels_ok (arm_write_byte addr v s)"
  using assms by (simp_all add: arm_read_long_def arm_write_long_def arm_write_word_def arm_write_byte_def mmio_channels_ok)

section \<open>What an ARM instruction can change\<close>

text \<open>
  An instruction works on the registers and on memory through the functions of \<open>armmem.c\<close>.
  A property of the machine that those keep is kept by every instruction and time slice.
\<close>

locale arm_invariant =
  fixes P :: "('a) aica_state_scheme \<Rightarrow> bool"
  assumes regs: "P s \<Longrightarrow> P (upd_armr f s)"
    and stop: "P s \<Longrightarrow> P (s\<lparr>dreamcast_running := b\<rparr>)"
    and read_long: "P s \<Longrightarrow> P (snd (arm_read_long addr s))"
    and write_long: "P s \<Longrightarrow> P (arm_write_long addr v s)"
    and write_word: "P s \<Longrightarrow> P (arm_write_word addr v s)"
    and write_byte: "P s \<Longrightarrow> P (arm_write_byte addr v s)"
    and tick: "P s \<Longrightarrow> P (arm_tick_timer s)"
    and clear_bp: "P s \<Longrightarrow> P (snd (arm_clear_breakpoint pc kind s))"
begin

lemma read_longD: "arm_read_long addr s = (v, s') \<Longrightarrow> P s \<Longrightarrow> P s'"
  using read_long [of s addr] by simp

lemma read_wordD: "arm_read_word addr s = (v, s') \<Longrightarrow> P s \<Longrightarrow> P s'"
  by (auto simp: arm_read_word_def Let_def split: prod.splits dest: read_longD)

lemma read_byteD: "arm_read_byte addr s = (v, s') \<Longrightarrow> P s \<Longrightarrow> P s'"
  by (auto simp: arm_read_byte_def Let_def split: prod.splits dest: read_longD)

lemmas reads = read_longD read_wordD read_byteD

lemma unimp: "P s \<Longrightarrow> P (arm_unimp s)"
  unfolding arm_unimp_def by (intro stop regs)

lemma address_indexD: "arm_get_address_index ir s = (v, s') \<Longrightarrow> P s \<Longrightarrow> P s'"
  by (auto simp: arm_get_address_index_def Let_def unimp split: if_splits)

lemma address_operandD: "arm_get_address_operand ir s = (v, s') \<Longrightarrow> P s \<Longrightarrow> P s'"
  by (auto simp: arm_get_address_operand_def Let_def split: if_splits prod.splits intro!: regs dest: address_indexD)

lemma misc: "P s \<Longrightarrow> P (snd (arm_misc ir s))"
  by (auto simp: arm_misc_def Let_def split: prod.split intro!: regs unimp)

lemma swap: "P s \<Longrightarrow> P (arm_swap ir s)" "P s \<Longrightarrow> P (arm_swap_byte ir s)"
  by (auto simp: arm_swap_def arm_swap_byte_def Let_def split: prod.splits intro!: regs write_long write_byte dest: reads)

lemma extension: "P s \<Longrightarrow> P (snd (arm_extension ir s))"
  by (auto simp: arm_extension_def Let_def split: prod.splits intro!: regs unimp write_word swap dest!: reads)

lemma group_data: "P s \<Longrightarrow> P (snd (arm_group_data ir s))"
  by (auto simp: arm_group_data_def intro!: misc extension regs unimp split: option.split)

lemma load: "P (snd r) \<Longrightarrow> P (upd_armr (set_r i (fst r)) (snd r))"
  by (rule regs)

lemma read_byte: "P s \<Longrightarrow> P (snd (arm_read_byte addr s))"
  by (cases "arm_read_byte addr s") (auto dest: read_byteD)

lemma load_store: "P s \<Longrightarrow> P (arm_load_store ir s)"
  unfolding arm_load_store_def Let_def arm_read_long_user_def arm_read_byte_user_def arm_write_long_user_def arm_write_byte_user_def
  by (auto split: prod.split intro!: load write_long write_byte read_long read_byte dest: address_operandD)

lemma branch: "P s \<Longrightarrow> P (arm_branch ir pc s)"
  by (simp add: arm_branch_def Let_def regs)

lemma block_storeI: "P s \<Longrightarrow> P (snd (block_store get before step ir is a s))"
  by (induction get before step ir "is" a s rule: block_store.induct) (auto simp: Let_def write_long)

lemma block_loadI: "P s \<Longrightarrow> P (snd (block_load put before step ir is a s))"
proof (induction "is" arbitrary: a s)
  case (Cons i "is")
  obtain v s1 where r: "arm_read_long (if before then a + step else a) s = (v, s1)" by fastforce
  have "P (snd (block_load put before step ir is (a + step) (upd_armr (put i v) s1)))"
    by (intro Cons.IH regs read_longD [OF r Cons.prems])
  moreover have "P (snd (block_load put before step ir is a s))" by (rule Cons.IH [OF Cons.prems])
  ultimately show ?case by (simp add: Let_def r)
qed simp

lemma block_transfer: "P s \<Longrightarrow> P (arm_block_transfer ir s)"
proof -
  assume P: "P s"
  have l: "P s'" if "block_load put before step ir is a s = (v, s')" for put before step "is" a v s'
    using block_loadI [OF P, of put before step ir "is" a] that by simp
  have st: "P s'" if "block_store get before step ir is a s = (v, s')" for get before step "is" a v s'
    using block_storeI [OF P, of get before step ir "is" a] that by simp
  show ?thesis
    unfolding arm_block_transfer_def Let_def
    by (auto split: prod.splits if_splits intro!: regs dest: l st)
qed

lemma dispatch: "P s \<Longrightarrow> P (snd (arm_dispatch ir pc s))"
  by (auto simp: arm_dispatch_def intro!: group_data load_store branch block_transfer regs unimp)

lemma dispatchD: "arm_dispatch ir pc s = (ok, s') \<Longrightarrow> P s \<Longrightarrow> P s'"
  using dispatch [of s ir pc] by simp

lemma execute: "P s \<Longrightarrow> P (snd (arm_execute_instruction s))"
  unfolding arm_execute_instruction_def Let_def
  by (auto split: prod.splits if_splits intro!: regs dest!: dispatchD read_longD)

lemma executeD: "arm_execute_instruction s = (ok, s') \<Longrightarrow> P s \<Longrightarrow> P s'"
  using execute [of s] by simp

lemma sample: "P s \<Longrightarrow> P (snd (arm_sample j s))"
proof (induction j arbitrary: s)
  case (Suc j)
  obtain ok s1 where e: "arm_execute_instruction (upd_armr (\<lambda>a. a\<lparr>arm_icount := arm_icount a + 1\<rparr>) s) = (ok, s1)" by fastforce
  then have "P s1" using Suc.prems by (auto intro: regs dest: executeD)
  then show ?case using e by (auto simp: Let_def intro!: Suc.IH clear_bp stop split: option.split)
qed simp

lemma samples: "P s \<Longrightarrow> P (snd (arm_samples k i s))"
proof (induction k arbitrary: i s)
  case (Suc k)
  obtain ok s1 where e: "arm_sample CYCLES_PER_SAMPLE s = (ok, s1)" by fastforce
  then have "P s1" using sample [OF Suc.prems, of CYCLES_PER_SAMPLE] by simp
  then show ?case using e by (auto simp: Let_def intro!: Suc.IH tick)
qed simp

lemma run_slice: "P s \<Longrightarrow> P (snd (arm_run_slice n s))"
  by (simp add: arm_run_slice_def samples)

end

lemma aica_output_frame:
  "output_rate (upd_armr f s) = output_rate s" "output_rate (s\<lparr>dreamcast_running := b\<rparr>) = output_rate s"
  "output_rate (snd (arm_read_long addr s)) = output_rate s" "output_rate (arm_write_word addr v s) = output_rate s"
  "output_rate (arm_tick_timer s) = output_rate s" "output_rate (snd (arm_clear_breakpoint pc kind s)) = output_rate s"
  by (simp_all add: upd_armr_def arm_read_long_def mmio_region_AICA2_read_def Let_def upd_channel_def arm_write_word_def
      arm_tick_timer_def AICA2_write_def aica_event_def arm_clear_breakpoint_def split: option.split)

lemma upd_channel_output [simp]: "output_rate (upd_channel i f s) = output_rate s"
  by (simp add: upd_channel_def)

lemma start_stop_output [simp]: "output_rate (audio_start_stop_channel i b s) = output_rate s"
  by (simp add: audio_start_stop_channel_def audio_stop_channel_def audio_start_channel_def Let_def)

lemma start_stop_channels_output [simp]: "output_rate (aica_start_stop_channels s) = output_rate s"
  unfolding aica_start_stop_channels_def Let_def
  by (rule fold_inv [where P = "\<lambda>s'. output_rate s' = output_rate s"], simp,
      rule fold_inv [where P = "\<lambda>s'. output_rate s' = output_rate s"], simp_all)

lemma write_channel_output [simp]: "output_rate (aica_write_channel n reg v s) = output_rate s"
  by (simp add: aica_write_channel_def Let_def)

lemma arm_write_output:
  "output_rate (arm_write_long addr v s) = output_rate s" "output_rate (arm_write_byte addr v s) = output_rate s"
  by (simp_all add: arm_write_long_def arm_write_byte_def mmio_region_AICA0_write_def mmio_region_AICA1_write_def
      mmio_region_AICA2_write_def AICA2_write_def arm_reset_def aica_clear_event_def Let_def)

lemma clear_breakpoint_channels: "channels_ok (snd (arm_clear_breakpoint pc kind s)) = channels_ok s"
  by (simp add: arm_clear_breakpoint_def split: option.split)

interpretation arm_mixer: arm_invariant "\<lambda>s. channels_ok s \<and> output_rate s = r" for r
  by unfold_locales
    (simp_all add: aica_output_frame arm_write_output arm_memory_channels_ok clear_breakpoint_channels)


section \<open>Where instructions come from\<close>

definition pc_in_ram :: "('a) aica_state_scheme \<Rightarrow> bool" where
  "pc_in_ram s \<longleftrightarrow> arm_r (armr s) 15 < 0x00200000"

lemma unimp_only:
  "arm_dispatch ir pc s = (False, s') \<Longrightarrow> s' = arm_unimp s"
  by (auto simp: arm_dispatch_def arm_group_data_def arm_misc_def arm_extension_def Let_def
      split: if_splits option.splits prod.splits)

lemma exc_vector_less: "e < 7 \<Longrightarrow> exc_vector e < 0x00200000"
proof -
  assume "e < 7"
  then have "arm_exceptions ! e \<in> set arm_exceptions" by (intro nth_mem) (simp add: arm_exceptions_def)
  moreover have "\<forall>p \<in> set arm_exceptions. snd p < 0x00200000" by (simp add: arm_exceptions_def)
  ultimately show ?thesis by (simp add: exc_vector_def)
qed

lemma raise_pc: "e < 7 \<Longrightarrow> arm_r (arm_raise_exception e a) 15 < 0x00200000"
  using exc_vector_less [of e] by (simp add: raise_exception_alt Let_def)

lemma take_interrupt_pc: "arm_r a 15 < 0x00200000 \<Longrightarrow> arm_r (arm_take_interrupt a) 15 < 0x00200000"
  by (simp add: arm_take_interrupt_def Let_def raise_pc EXC_FAST_IRQ_def EXC_IRQ_def)

lemma read_long_armr [simp]: "armr (snd (arm_read_long addr s)) = armr s"
  by (simp add: arm_read_long_def mmio_region_AICA2_read_def Let_def upd_channel_def)

lemma execute_pc:
  assumes "pc_in_ram s" "arm_execute_instruction s = (ok, s')"
  shows "if ok then pc_in_ram s' else arm_running (armr s') \<longrightarrow> pc_in_ram s'"
proof -
  define s1 where "s1 = upd_armr arm_take_interrupt s"
  obtain ir s2 where r: "arm_read_long (arm_r (armr s1) 15) s1 = (ir, s2)" by fastforce
  define pc where "pc = arm_r (armr s2) 15 + 4"
  define s3 where "s3 = upd_armr (set_r 15 pc) s2"
  have "armr s2 = armr s1" using read_long_armr [of "arm_r (armr s1) 15" s1] r by simp
  then have p: "arm_r (armr s1) 15 < 0x00200000" "pc - 4 = arm_r (armr s1) 15" "arm_r (armr s3) 15 = pc"
    using assms(1) take_interrupt_pc by (simp_all add: pc_in_ram_def s1_def upd_armr_def pc_def s3_def set_r_def)
  have e: "arm_execute_instruction s =
    (if COND ir = 15 then (True, upd_armr (arm_raise_exception EXC_UNDEFINED) s3)
     else let (ok, s4) = (if arm_condition (COND ir) (armr s3) then arm_dispatch ir pc s3 else (True, s3))
          in if \<not> ok then (False, s4)
             else if 0x00200000 \<le> arm_r (armr s4) 15 then (False, upd_armr (\<lambda>a. a\<lparr>arm_running := False\<rparr>) s4)
             else (True, s4))"
    by (simp add: arm_execute_instruction_def s1_def [symmetric] r pc_def [symmetric] s3_def [symmetric] Let_def)
  show ?thesis
  proof (cases "COND ir = 15")
    case True
    then show ?thesis using assms(2) e raise_pc [of 1] by (auto simp: pc_in_ram_def upd_armr_def EXC_UNDEFINED_def)
  next
    case False
    obtain ok4 s4 where d: "(if arm_condition (COND ir) (armr s3) then arm_dispatch ir pc s3 else (True, s3)) = (ok4, s4)"
      by fastforce
    have "\<not> ok4 \<Longrightarrow> s4 = arm_unimp s3" using d unimp_only by (auto split: if_splits)
    then have "\<not> ok4 \<Longrightarrow> arm_r (armr s4) 15 < 0x00200000"
      using p by (simp add: arm_unimp_def upd_armr_def set_r_def)
    then show ?thesis
      using assms(2) e False d by (auto simp: pc_in_ram_def upd_armr_def split: if_splits)
  qed
qed

lemma clear_breakpoint_armr [simp]: "armr (snd (arm_clear_breakpoint pc kind s)) = armr s"
  by (simp add: arm_clear_breakpoint_def split: option.split)

lemma sample_pc:
  assumes "pc_in_ram s" "arm_sample j s = (ok, s')"
  shows "if ok then pc_in_ram s' else arm_running (armr s') \<longrightarrow> pc_in_ram s'"
  using assms
proof (induction j arbitrary: s)
  case (Suc j)
  let ?s = "upd_armr (\<lambda>a. a\<lparr>arm_icount := arm_icount a + 1\<rparr>) s"
  obtain ok1 s1 where e: "arm_execute_instruction ?s = (ok1, s1)" by fastforce
  have "pc_in_ram ?s" using Suc.prems(1) by (simp add: pc_in_ram_def upd_armr_def)
  note x = execute_pc [OF this e]
  show ?case
  proof (cases ok1)
    case False
    then show ?thesis using x e Suc.prems(2) by (simp add: Let_def)
  next
    case True
    then have p1: "pc_in_ram s1" using x by simp
    show ?thesis
    proof (cases "find_breakpoint (arm_breakpoints s1) (\<lambda>b. bp_address b = arm_r (armr s1) 15) [0..<arm_breakpoint_count s1]")
      case None
      then show ?thesis using Suc.IH [OF p1] Suc.prems(2) e True by (simp add: Let_def)
    next
      case (Some k)
      then have "armr s' = armr s1 \<and> \<not> ok"
        using Suc.prems(2) e True clear_breakpoint_armr by (auto simp: Let_def)
      then show ?thesis using p1 by (simp add: pc_in_ram_def)
    qed
  qed
qed simp

lemma tick_pc [simp]: "pc_in_ram (arm_tick_timer s) = pc_in_ram s"
  by (simp add: pc_in_ram_def arm_tick_timer_def Let_def AICA2_write_def aica_event_def)

lemma samples_pc:
  assumes "pc_in_ram s" "unat i + k < 2 ^ 32" "arm_samples k i s = (m, s')"
  shows "(arm_running (armr s') \<longrightarrow> pc_in_ram s') \<and> unat m \<le> unat i + k"
  using assms
proof (induction k arbitrary: i s)
  case (Suc k)
  obtain ok1 s1 where e: "arm_sample CYCLES_PER_SAMPLE s = (ok1, s1)" by fastforce
  note x = sample_pc [OF Suc.prems(1) e]
  have i: "unat (i + 1) = unat i + 1" using Suc.prems(2) by (simp add: unat_word_ariths)
  show ?case
  proof (cases "ok1 \<and> dreamcast_running (arm_tick_timer s1)")
    case True
    then have "arm_samples k (i + 1) (arm_tick_timer s1) = (m, s')" "pc_in_ram (arm_tick_timer s1)"
      using Suc.prems(3) e x by (simp_all add: Let_def)
    from Suc.IH [OF this(2) _ this(1)] show ?thesis using Suc.prems(2) i by simp
  next
    case False
    then show ?thesis using Suc.prems(3) e x by (auto simp: Let_def split: if_splits)
  qed
qed simp

end
