(* ===== verification/ArmBlock.thy ===== *)
theory ArmBlock
  imports ArmInvariant
begin

unbundle bit_operations_syntax

text \<open>
  The block transfers of the ARM (\<open>LDM\<close> and \<open>STM\<close>): what is stored where, and that a
  list of registers pushed on a stack comes back when it is popped.
\<close>


section \<open>Block transfers\<close>

fun store_words :: "mem \<Rightarrow> u32 \<Rightarrow> u32 list \<Rightarrow> mem" where
  "store_words m a [] = m"
| "store_words m a (v # vs) = st32 (store_words m (a + 4) vs) a v"

lemma block_store_append:
  "block_store get before step ir (is @ js) a s =
     (case block_store get before step ir is a s of (a', s') \<Rightarrow> block_store get before step ir js a' s')"
  by (induction "is" arbitrary: a s) (auto simp: Let_def)

lemma unat_sub_of_nat: "k \<le> unat a \<Longrightarrow> unat (a - of_nat k) = unat a - k" for a :: u32
proof -
  assume k: "k \<le> unat a"
  then have "k < 2 ^ 32" using unat_less_exp [of a] by linarith
  then have "unat (of_nat k :: u32) = k" by (simp add: unat_of_nat)
  then show ?thesis using k by (simp add: unat_sub word_le_nat_alt)
qed

lemma ram_word: "unat a + 4 \<le> 0x200000 \<Longrightarrow> a < (0x200000 :: u32)"
  by (simp add: word_less_nat_alt)

lemma push_words:
  assumes "4 * length (filter (bit ir) is) \<le> unat a" "unat a \<le> 0x200000"
  defines "n \<equiv> length (filter (bit ir) is)"
  shows "block_store get True (- 4) ir (rev is) a s =
    (a - of_nat (4 * n), s\<lparr>main_ram := store_words (main_ram s) (a - of_nat (4 * n))
       (map (\<lambda>i. get i (armr s)) (filter (bit ir) is))\<rparr>)"
  using assms(1) unfolding n_def
proof (induction "is")
  case (Cons i "is")
  show ?case
  proof (cases "bit ir i")
    case True
    let ?n = "length (filter (bit ir) is)"
    let ?b = "a - of_nat (4 * ?n)"
    have le: "4 * (?n + 1) \<le> unat a" using Cons.prems True by simp
    have ub: "unat ?b = unat a - 4 * ?n" using le assms(2) by (intro unat_sub_of_nat) simp
    have "unat (?b - 4) = unat a - 4 * ?n - 4" using ub le by (subst unat_sub) (simp_all add: word_le_nat_alt)
    then have lt: "?b - 4 < 0x200000" using assms(2) le by (intro ram_word) simp
    have e: "a - (4 + 4 * word_of_nat ?n) = a - 4 * word_of_nat ?n - 4" by simp
    show ?thesis
      using Cons.IH le lt True by (simp add: block_store_append arm_write_long_def Let_def e)
  next
    case False
    then show ?thesis using Cons by (simp add: block_store_append)
  qed
qed simp

lemma unat_of_nat_eq: "n < 2 ^ 32 \<Longrightarrow> unat (of_nat n :: u32) = n"
  by (simp add: unat_of_nat)

lemma word_offsets_apart:
  assumes "0 < k" "k \<le> 64"
  shows "apart (a + of_nat (4 * k)) a" "apart a (a + of_nat (4 * k))"
proof -
  have k: "unat (of_nat (4 * k) :: u32) = 4 * k" using assms by (intro unat_of_nat_eq) simp
  then have "3 < (of_nat (4 * k) :: u32)" using assms by (simp add: word_less_nat_alt)
  moreover have "3 < (- (of_nat (4 * k)) :: u32)"
  proof -
    define w :: u32 where "w = of_nat (4 * k)"
    have "uint w = 4 * int k" using k by (simp add: w_def uint_nat)
    moreover have "uint (- w) = (- uint w) mod 2 ^ 32" by (simp add: uint_word_ariths)
    ultimately have "uint (- w) = 2 ^ 32 - 4 * int k" using assms by (simp add: zmod_zminus1_eq_if)
    then show ?thesis using assms unfolding w_def [symmetric] by (simp add: word_less_def)
  qed
  ultimately show "apart (a + of_nat (4 * k)) a" "apart a (a + of_nat (4 * k))" by (simp_all add: apart_def)
qed

lemma store_words_below:
  assumes "\<And>k. k < length vs \<Longrightarrow> apart (a + of_nat (4 * k)) b"
  shows "ld32 (store_words m a vs) b = ld32 m b"
  using assms
proof (induction vs arbitrary: a)
  case (Cons v vs)
  have "apart a b" using Cons.prems [of 0] by simp
  moreover have "ld32 (store_words m (a + 4) vs) b = ld32 m b"
    using Cons.prems [of "Suc k" for k] by (intro Cons.IH) (simp add: algebra_simps)
  ultimately show ?case by simp
qed simp

lemma store_words_read:
  assumes "length vs \<le> 64" "k < length vs"
  shows "ld32 (store_words m a vs) (a + of_nat (4 * k)) = vs ! k"
  using assms
proof (induction vs arbitrary: a k)
  case (Cons v vs)
  show ?case
  proof (cases k)
    case 0
    then show ?thesis by simp
  next
    case (Suc j)
    have "apart a (a + of_nat (4 * k))" using Cons.prems Suc by (intro word_offsets_apart) auto
    moreover have "a + of_nat (4 * k) = (a + 4) + of_nat (4 * j)" using Suc by (simp add: algebra_simps)
    moreover have "ld32 (store_words m (a + 4) vs) (a + 4 + of_nat (4 * j)) = vs ! j" using Cons Suc by simp
    ultimately show ?thesis using Suc by (simp only: store_words.simps ld32_st32_apart nth_Cons_Suc)
  qed
qed simp

lemma pop_words:
  assumes "unat a + 4 * length (filter (bit ir) is) \<le> 0x200000"
  shows "block_load put False 4 ir is a s =
    (a + of_nat (4 * length (filter (bit ir) is)),
     upd_armr (\<lambda>r. fold (\<lambda>(i, v). put i v) (zip (filter (bit ir) is)
       (map (\<lambda>k. ld32 (main_ram s) (a + of_nat (4 * k))) [0..<length (filter (bit ir) is)])) r) s)"
  using assms
proof (induction "is" arbitrary: a s)
  case Nil
  then show ?case by (simp add: upd_armr_def)
next
  case (Cons i "is")
  show ?case
  proof (cases "bit ir i")
    case True
    let ?n = "length (filter (bit ir) is)"
    have lt: "a < 0x200000" using Cons.prems True by (intro ram_word) simp
    let ?s = "upd_armr (put i (ld32 (main_ram s) a)) s"
    have "unat (a + 4) \<le> unat a + 4" by (simp add: unat_word_ariths)
    then have ih: "block_load put False 4 ir is (a + 4) ?s =
        (a + 4 + of_nat (4 * ?n), upd_armr (\<lambda>r. fold (\<lambda>(i, v). put i v) (zip (filter (bit ir) is)
          (map (\<lambda>k. ld32 (main_ram ?s) (a + 4 + of_nat (4 * k))) [0..<?n])) r) ?s)"
      using Cons.prems True by (intro Cons.IH) simp
    have up: "[0..<Suc ?n] = 0 # map Suc [0..<?n]" by (simp add: upt_conv_Cons map_Suc_upt del: upt_Suc)
    have m: "main_ram ?s = main_ram s" by (simp add: upd_armr_def)
    show ?thesis
      using True lt ih unfolding m
      by (simp add: Let_def arm_read_long_def up del: upt_Suc) (simp add: upd_armr_def o_def algebra_simps)
  next
    case False
    then show ?thesis using Cons by simp
  qed
qed

lemma fold_set_r:
  assumes "distinct is"
  shows "arm_r (fold (\<lambda>(i, v). set_r i v) (zip is (map f is)) r) j = (if j \<in> set is then f j else arm_r r j)"
  using assms by (induction "is" arbitrary: r) (auto simp: set_r_def)

lemma reg_list:
  defines "L ir \<equiv> filter (bit (ir :: u32)) [0..<16]"
  shows "distinct (L ir)" "length (L ir) \<le> 16" "i < 16 \<Longrightarrow> i \<in> set (L ir) \<longleftrightarrow> bit ir i"
  using length_filter_le [of "bit ir" "[0..<16]"] by (auto simp: L_def)

lemma push_block:
  fixes s :: "('a) aica_state_scheme"
  assumes "drop_bit 20 (st AND 0x01D00000) = (16 :: u32)" "WFLAG st" "\<not> bit st 15" "RNn st \<noteq> 15"
  defines "L \<equiv> filter (bit st) [0..<16]" and "b \<equiv> arm_r (armr s) (RNn st)"
  defines "a \<equiv> b - of_nat (4 * length L)"
  assumes "4 * length L \<le> unat b" "unat b \<le> 0x200000"
  shows "arm_block_transfer st s =
    upd_armr (set_r (RNn st) a) (s\<lparr>main_ram := store_words (main_ram s) a (map (arm_r (armr s)) L)\<rparr>)"
proof -
  have b: "RN st (armr s) = b" using assms(4) by (simp add: RN_def arm_operand_reg_def b_def)
  have "map (\<lambda>i. get_current i (armr s)) L = map (arm_r (armr s)) L"
    using assms(3) by (auto simp: L_def get_current_def)
  then have "block_store get_current True (- 4) st (rev [0..<16]) b s =
    (a, s\<lparr>main_ram := store_words (main_ram s) a (map (arm_r (armr s)) L)\<rparr>)"
    using push_words [of st "[0..<16]" b get_current s] assms(8,9) by (simp only: a_def L_def)
  then show ?thesis
    using assms(1,2) b by (simp add: arm_block_transfer_def Let_def)
qed

lemma pop_block:
  fixes s :: "('a) aica_state_scheme"
  assumes "drop_bit 20 (ld AND 0x01D00000) = (9 :: u32)" "WFLAG ld" "\<not> bit ld 15" "RNn ld \<noteq> 15"
  defines "L \<equiv> filter (bit ld) [0..<16]" and "a \<equiv> arm_r (armr s) (RNn ld)"
  assumes "unat a + 4 * length L \<le> 0x200000"
  shows "arm_block_transfer ld s = upd_armr (set_r (RNn ld) (a + of_nat (4 * length L)))
    (upd_armr (\<lambda>r. fold (\<lambda>(i, v). set_r i v) (zip L (map (\<lambda>k. ld32 (main_ram s) (a + of_nat (4 * k))) [0..<length L])) r) s)"
proof -
  have a: "RN ld (armr s) = a" using assms(4) by (simp add: RN_def arm_operand_reg_def a_def)
  have "block_load set_r False 4 ld [0..<16] a s = (a + of_nat (4 * length L),
    upd_armr (\<lambda>r. fold (\<lambda>(i, v). set_r i v) (zip L (map (\<lambda>k. ld32 (main_ram s) (a + of_nat (4 * k))) [0..<length L])) r) s)"
    using pop_words [of a ld "[0..<16]" set_r s] assms(7) by (simp only: L_def)
  then show ?thesis
    using assms(1-3) a by (simp add: arm_block_transfer_def Let_def)
qed

section \<open>Properties\<close>

text \<open>
  C33: Storing a list of registers below the base with write-back and loading the same list from
  there puts every one of them back, and the base too, whatever the code in between did to
  the registers, as long as it kept the base and the memory: the stack discipline of
  subroutines and interrupt handlers.
\<close>

theorem arm_push_pop:
  fixes s :: "('a) aica_state_scheme" and st ld :: u32 and f :: "arm_registers \<Rightarrow> arm_registers"
  assumes st: "drop_bit 20 (st AND 0x01D00000) = 16" "WFLAG st"
    and ld: "drop_bit 20 (ld AND 0x01D00000) = 9" "WFLAG ld"
    and lists: "\<forall>i < 16. bit st i = bit ld i" "\<not> bit st 15" "RNn st = RNn ld" "RNn st \<noteq> 15" "\<not> bit st (RNn st)"
    and room: "4 * length (filter (bit st) [0..<16]) \<le> unat (arm_r (armr s) (RNn st))"
      "unat (arm_r (armr s) (RNn st)) \<le> 0x200000"
    and base: "arm_r (f (armr (arm_block_transfer st s))) (RNn st) = arm_r (armr (arm_block_transfer st s)) (RNn st)"
  defines "s1 \<equiv> upd_armr f (arm_block_transfer st s)"
  shows "\<forall>i < 16. arm_r (armr (arm_block_transfer ld s1)) i =
    (if bit st i \<or> i = RNn st then arm_r (armr s) i else arm_r (armr s1) i)"
proof -
  let ?L = "filter (bit st) [0..<16]" and ?b = "arm_r (armr s) (RNn st)"
  define a where "a = ?b - of_nat (4 * length ?L)"
  define vs where "vs = map (arm_r (armr s)) ?L"
  have L: "filter (bit ld) [0..<16] = ?L" using lists(1) by (intro filter_cong) auto
  have push: "arm_block_transfer st s = upd_armr (set_r (RNn st) a) (s\<lparr>main_ram := store_words (main_ram s) a vs\<rparr>)"
    using push_block [OF st lists(2,4) room] by (simp add: a_def vs_def)
  have r1: "arm_r (armr s1) (RNn ld) = a" "main_ram s1 = store_words (main_ram s) a vs"
    using base lists(3) by (simp_all add: s1_def push upd_armr_def set_r_def)
  have ua: "unat a = unat ?b - 4 * length ?L" unfolding a_def by (rule unat_sub_of_nat [OF room(1)])
  have "length vs \<le> 16" using reg_list(2) [of st] by (simp add: vs_def)
  then have "map (\<lambda>k. ld32 (main_ram s1) (a + of_nat (4 * k))) [0..<length ?L] = vs"
    unfolding r1(2) by (intro nth_equalityI) (simp_all add: vs_def store_words_read del: of_nat_mult)
  moreover have "unat a + 4 * length ?L \<le> 0x200000" using ua room by simp
  moreover have "\<not> bit ld 15" "RNn ld \<noteq> 15" using lists by auto
  ultimately have pop: "arm_block_transfer ld s1 = upd_armr (set_r (RNn ld) (a + of_nat (4 * length ?L)))
      (upd_armr (\<lambda>r. fold (\<lambda>(i, v). set_r i v) (zip ?L vs) r) s1)"
    using pop_block [OF ld, of s1] unfolding L r1(1) by simp
  have back_b: "a + of_nat (4 * length ?L) = ?b" by (simp add: a_def)
  have "arm_r (armr (arm_block_transfer ld s1)) i =
    (if i = RNn st then ?b else if i \<in> set ?L then arm_r (armr s) i else arm_r (armr s1) i)" for i
    unfolding pop back_b using fold_set_r [OF reg_list(1) [of st], of "arm_r (armr s)" "armr s1" i] lists(3)
    by (simp add: upd_armr_def set_r_def vs_def)
  then show ?thesis using reg_list(3) [of _ st] by auto
qed

end
