(* ===== verification/AicaProps.thy ===== *)
theory AicaProps
  imports ArmBlock
begin

unbundle bit_operations_syntax

text \<open>
  The sound chip as a whole: the interrupt line to its processor, the time slice in which
  processor, timer and mixer run together, and the breakpoint table of the ARM as an
  instance of the contract in \<open>Breakpoints\<close>.
\<close>

section \<open>The breakpoint table of the ARM\<close>

definition arm_bp_list :: "('a) aica_state_scheme \<Rightarrow> breakpoint_struct list" where
  "arm_bp_list s = map (arm_breakpoints s) [0..<arm_breakpoint_count s]"

lemma arm_clear_list:
  "fst (arm_clear_breakpoint pc kind s) \<longleftrightarrow> \<lparr>bp_address = pc, bp_type = kind\<rparr> \<in> set (arm_bp_list s)"
  "arm_bp_list (snd (arm_clear_breakpoint pc kind s)) = remove1 \<lparr>bp_address = pc, bp_type = kind\<rparr> (arm_bp_list s)"
  using table_clear [where bp = "arm_breakpoints s" and n = "arm_breakpoint_count s" and pc = pc and kind = kind]
  by (simp_all add: arm_clear_breakpoint_def arm_bp_list_def remove1_idem split: option.split)

interpretation arm_table: breakpoint_table arm_bp_list arm_set_breakpoint arm_clear_breakpoint arm_get_breakpoint
  by unfold_locales
    (simp_all add: arm_clear_list, simp_all add: arm_bp_list_def arm_set_breakpoint_def arm_get_breakpoint_def find_breakpoint_type)

section \<open>The interrupt line\<close>

definition fiq_line :: "('a) aica_state_scheme \<Rightarrow> bool" where
  "fiq_line s \<longleftrightarrow> arm_int_pending (armr s) AND CPSR_F \<noteq> 0"

text \<open>The line is up exactly while an event waits.\<close>

definition aica_irq_ok :: "('a) aica_state_scheme \<Rightarrow> bool" where
  "aica_irq_ok s \<longleftrightarrow> (fiq_line s \<longleftrightarrow> aica_event_pending s \<noteq> 0)"

lemma fiq_bits: "(w OR CPSR_F) AND CPSR_F \<noteq> 0" "(w AND NOT CPSR_F) AND CPSR_F = 0" for w :: u32
proof -
  have "bit ((w OR CPSR_F) AND CPSR_F) 6" by (simp add: bit_simps CPSR_F_def)
  then show "(w OR CPSR_F) AND CPSR_F \<noteq> 0" by auto
  show "(w AND NOT CPSR_F) AND CPSR_F = 0" by (intro bit_word_eqI) (auto simp: bit_simps)
qed

lemma shl32_1_nonzero: "w OR shl32 1 e \<noteq> 0"
proof -
  have n: "unat (e AND 31) < 32" using unat_mono [of "e AND 31" 32] word_and_le1 [of e 31] by (simp add: order_le_less_trans)
  then have "bit (w OR shl32 1 e) (unat (e AND 31))" by (simp add: shl32_def bit_simps)
  then show ?thesis by auto
qed

lemma aica_event_parts:
  "aica_event_pending (aica_event e s) = aica_event_pending s OR shl32 1 e"
  "fiq_line (aica_event e s) \<longleftrightarrow> aica_event_pending s = 0 \<or> fiq_line s"
  using fiq_bits(1) [of "arm_int_pending (armr s)"] by (simp_all add: aica_event_def Let_def AICA2_write_def fiq_line_def)

lemma first_pending_range: "first_pending w [i..<8] = (if \<exists>j. i \<le> j \<and> j < 8 \<and> bit w j then LEAST j. i \<le> j \<and> bit w j else 8)"
proof (induction "8 - i" arbitrary: i)
  case 0
  then show ?case by auto
next
  case (Suc n)
  then have u: "[i..<8] = i # [Suc i..<8]" by (simp add: upt_conv_Cons)
  have ih: "first_pending w [Suc i..<8] = (if \<exists>j. Suc i \<le> j \<and> j < 8 \<and> bit w j then LEAST j. Suc i \<le> j \<and> bit w j else 8)"
    using Suc by (intro Suc.hyps) simp
  show ?case
  proof (cases "bit w i")
    case True
    then have "(LEAST j. i \<le> j \<and> bit w j) = i" by (intro Least_equality) auto
    then show ?thesis using True Suc by (auto simp: u)
  next
    case False
    then have "(i \<le> j \<and> bit w j) \<longleftrightarrow> (Suc i \<le> j \<and> bit w j)" for j by (cases "i = j") auto
    then show ?thesis using False ih by (simp add: u) (metis)
  qed
qed


lemma first_pending_first:
  assumes "bit w i" "i < 8" "\<forall>j<i. \<not> bit w j"
  shows "first_pending w [0..<8] = i"
proof -
  have "(LEAST j. bit w j) = i" using assms by (intro Least_equality) (auto simp: not_less [symmetric])
  then show ?thesis using assms first_pending_range [of w 0] by auto
qed

lemma clear_event_line:
  "aica_irq_ok s \<Longrightarrow> aica_irq_ok (aica_clear_event s)"
  by (simp add: aica_irq_ok_def aica_clear_event_def Let_def AICA2_write_def fiq_line_def fiq_bits) 
    (auto simp: unsigned_eq_0_iff)

text \<open>
  The processor acknowledges an interrupt by writing the clear register four times.
\<close>

fun clears :: "nat \<Rightarrow> ('a) aica_state_scheme \<Rightarrow> ('a) aica_state_scheme" where
  "clears 0 s = s"
| "clears (Suc n) s = clears n (aica_clear_event s)"

lemma clear_event_counts:
  "clear_count s \<noteq> 3 \<Longrightarrow> aica_clear_event s = s\<lparr>clear_count := clear_count s + 1\<rparr>"
  by (auto simp: aica_clear_event_def Let_def)

lemma clears_four:
  assumes "clear_count s = 0"
  shows "clears 4 s = aica_clear_event (s\<lparr>clear_count := 3\<rparr>)"
proof -
  have c: "aica_clear_event (s\<lparr>clear_count := c\<rparr>) = s\<lparr>clear_count := c + 1\<rparr>" if "c \<noteq> 3" for c
    using that by (simp add: clear_event_counts)
  have "aica_clear_event s = s\<lparr>clear_count := 1\<rparr>" using assms by (simp add: clear_event_counts)
  then show ?thesis using c [of 1] c [of 2] by (simp add: eval_nat_numeral)
qed

section \<open>Properties\<close>

text \<open>
  C26: The interrupt line to the sound processor is up exactly while events are pending, whatever
  events arrive and are acknowledged. Four writes acknowledge the pending event with the
  lowest number and no other; the register then shows the lowest of those that remain.
\<close>

theorem aica_interrupt_protocol:
  fixes s :: "('a) aica_state_scheme" and e :: u32 and i :: nat
  assumes ok: "aica_irq_ok s" and count: "clear_count s = 0"
    and i: "i < 8" "bit (aica_event_pending s) i" "\<forall>j<i. \<not> bit (aica_event_pending s) j"
  defines "t \<equiv> clears 4 s"
  shows "aica_irq_ok (aica_event e s) \<and> aica_irq_ok t \<and> clear_count t = 0 \<and>
    aica_event_pending t = unset_bit i (aica_event_pending s) \<and>
    (\<forall>k<8. bit (aica_event_pending t) k \<and> (\<forall>j<k. \<not> bit (aica_event_pending t) j) \<longrightarrow> ld32 (mmio_AICA2 t) AICA_IRQ = of_nat k)"
proof -
  have e: "aica_irq_ok (aica_event e s)"
    using ok shl32_1_nonzero [of "aica_event_pending s" e] by (simp add: aica_irq_ok_def aica_event_parts)
  have "aica_irq_ok (s\<lparr>clear_count := 3\<rparr>)" using ok by (simp add: aica_irq_ok_def fiq_line_def)
  then have t_ok: "aica_irq_ok t" unfolding t_def clears_four [OF count] by (rule clear_event_line)
  have f: "first_pending (aica_event_pending s) [0..<8] = i" by (rule first_pending_first [OF i(2,1,3)])
  let ?w = "unset_bit i (aica_event_pending s)"
  have t: "clear_count t = 0" "aica_event_pending t = ?w"
    "ld32 (mmio_AICA2 t) AICA_IRQ = (if first_pending ?w [i..<8] < 8 then of_nat (first_pending ?w [i..<8])
       else ld32 (mmio_AICA2 s) AICA_IRQ)"
    unfolding t_def clears_four [OF count] using i(1)
    by (simp_all add: aica_clear_event_def f Let_def AICA2_write_def)
  have "\<forall>k<8. bit (aica_event_pending t) k \<and> (\<forall>j<k. \<not> bit (aica_event_pending t) j) \<longrightarrow> ld32 (mmio_AICA2 t) AICA_IRQ = of_nat k"
  proof (intro allI impI)
    fix k :: nat assume k: "k < 8" "bit (aica_event_pending t) k \<and> (\<forall>j<k. \<not> bit (aica_event_pending t) j)"
    have "\<not> k < i" using k(2) i(3) unfolding t(2) by (auto simp: bit_simps)
    then have "first_pending ?w [i..<8] = k"
      using k first_pending_range [of ?w i] unfolding t(2) by (auto intro!: Least_equality simp: not_less [symmetric])
    then show "ld32 (mmio_AICA2 t) AICA_IRQ = of_nat k" using k(1) t(3) by simp
  qed
  with e t_ok t(1,2) show ?thesis by blast
qed


text \<open>A chip on which the witnesses run: no sound plays, the processor has just been reset.\<close>

definition blank_aica :: "unit aica_state_scheme" where
  "blank_aica = blank_audio (aica_state_ext arm_reset_regs (\<lambda>_. 0) (\<lambda>_. 0) (\<lambda>_. 0) (\<lambda>_. 0) (\<lambda>_. 0)
     0 0 0 0 0 True (\<lambda>_. \<lparr>bp_address = 0, bp_type = 0\<rparr>) 0 ())"

lemma blank_aica_simps [simp]:
  "armr blank_aica = arm_reset_regs" "mmio_AICA2 blank_aica = (\<lambda>_. 0)" "aica_event_pending blank_aica = 0"
  "clear_count blank_aica = 0" "arm_breakpoint_count blank_aica = 0" "dreamcast_running blank_aica"
  by (simp_all add: blank_aica_def blank_audio_def audio_state.defs)

lemma blank_aica_ok: "channels_ok blank_aica" "output_rate blank_aica = 44100"
  by (simp_all add: blank_aica_def blank_audio_ok)

lemma blank_pending: "aica_irq_ok (aica_event 2 blank_aica)" "clear_count (aica_event 2 blank_aica) = 0"
  "aica_event_pending (aica_event 2 blank_aica) = 4"
proof -
  have "aica_irq_ok blank_aica" by (simp add: aica_irq_ok_def fiq_line_def arm_reset_regs_def)
  then show "aica_irq_ok (aica_event 2 blank_aica)"
    using shl32_1_nonzero [of 0 2] by (simp add: aica_irq_ok_def aica_event_parts)
  show "aica_event_pending (aica_event 2 blank_aica) = 4" by (simp add: aica_event_parts shl32_def)
  show "clear_count (aica_event 2 blank_aica) = 0"
    by (simp add: aica_event_def Let_def AICA2_write_def)
qed

theorem aica_interrupt_protocol_witness:
  "aica_event_pending (clears 4 (aica_event 2 blank_aica)) = 0"
proof -
  have b: "bit (4 :: u32) k \<longleftrightarrow> k = 2" for k
    using bit_push_bit_iff [of 2 "1 :: u32" k] by (auto simp: bit_simps)
  have u: "unset_bit 2 (4 :: u32) = 0" by (intro bit_word_eqI) (auto simp: bit_unset_bit_iff b)
  have "\<forall>j<2. \<not> bit (4 :: u32) j" by (simp only: b) simp
  from aica_interrupt_protocol [OF blank_pending(1,2), of 2 0, unfolded blank_pending(3), OF _ _ this]
  show ?thesis by (simp add: b u)
qed



text \<open>
  C25: Whatever program the sound processor runs and whatever it writes into the channel
  registers, a time slice ends: the mixer finds every channel in the range in which its loops
  end, and leaves it so. The slice reports the whole time as used.
\<close>

theorem aica_slice_returns:
  fixes s :: "('a) aica_state_scheme" and nanosecs :: u32
  assumes "output_rate s \<noteq> 0" "channels_ok s"
  shows "\<exists>t. aica_run_slice process tofloat nanosecs s = Some (nanosecs, t) \<and>
    channels_ok t \<and> output_rate t = output_rate s"
proof (cases "ld32 (mmio_AICA2 s) AICA_RESET AND 1 = 0")
  case True
  obtain n s1 where r: "arm_run_slice (samples_due nanosecs s) s = (n, s1)" by fastforce
  then have "channels_ok s1 \<and> output_rate s1 = output_rate s"
    using arm_mixer.run_slice [of s "output_rate s" "samples_due nanosecs s"] assms by simp
  then obtain s2 where "audio_mix_samples process tofloat (nat (sint n)) s1 = Some s2"
    "channels_ok s2" "output_rate s2 = output_rate s"
    using mix_samples_returns [of s1] assms(1) by metis
  then show ?thesis using True r by (simp add: aica_run_slice_def aica_run_slice_with_def)
next
  case False
  then show ?thesis using assms by (simp add: aica_run_slice_def aica_run_slice_with_def)
qed

theorem aica_slice_returns_witness:
  "\<exists>t. aica_run_slice (\<lambda>_. False) (\<lambda>_. 0) 1000000 blank_aica = Some (1000000, t) \<and>
     channels_ok t \<and> output_rate t = output_rate blank_aica"
  by (rule aica_slice_returns) (simp_all add: blank_aica_ok)



text \<open>
  Setting a breakpoint of the sound processor that is not in the table and clearing it
  gives the old table back; in between, the address is found with the kind that was set
  unless an older entry for the address comes first.
\<close>

theorem arm_breakpoint_set_clear:
  fixes s :: "('a) aica_state_scheme" and pc kind :: u32
  assumes "\<forall>b \<in> set (arm_bp_list s). bp_address b \<noteq> pc"
  defines "t \<equiv> arm_set_breakpoint pc kind s"
  shows "arm_get_breakpoint pc s = 0 \<and> arm_get_breakpoint pc t = kind \<and>
    fst (arm_clear_breakpoint pc kind t) \<and> arm_bp_list (snd (arm_clear_breakpoint pc kind t)) = arm_bp_list s"
proof -
  have "\<lparr>bp_address = pc, bp_type = kind\<rparr> \<notin> set (arm_bp_list s)" using assms(1) by auto
  then show ?thesis
    using arm_table.get_none [OF assms(1)] arm_table.set_then_get [OF assms(1), of kind] arm_table.set_then_clear [of pc kind s]
    by (simp add: t_def)
qed

theorem arm_breakpoint_set_clear_witness:
  "arm_get_breakpoint 0x100 (arm_set_breakpoint 0x100 2 blank_aica) = 2"
proof -
  have "\<forall>b \<in> set (arm_bp_list blank_aica). bp_address b \<noteq> 0x100" by (simp add: arm_bp_list_def)
  from arm_breakpoint_set_clear [OF this, of 2] show ?thesis by simp
qed

definition stack_aica :: "unit aica_state_scheme" where
  "stack_aica = upd_armr (\<lambda>a. a\<lparr>arm_r := (\<lambda>i. if i = 13 then 0x1000 else of_nat i)\<rparr>) blank_aica"

theorem arm_push_pop_witness:
  "arm_r (armr (arm_block_transfer 0xE8BD0003 (upd_armr (set_r 0 77) (arm_block_transfer 0xE92D0003 stack_aica)))) 0 = 0"
proof -
  have st: "drop_bit 20 ((0xE92D0003 :: u32) AND 0x01D00000) = 16" "WFLAG 0xE92D0003"
    "drop_bit 20 ((0xE8BD0003 :: u32) AND 0x01D00000) = 9" "WFLAG 0xE8BD0003"
    "RNn 0xE92D0003 = 13" "RNn 0xE8BD0003 = 13"
    by (simp_all add: WFLAG_def RNn_def)
  have bits: "filter (bit (0xE92D0003 :: u32)) [0..<16] = [0, 1]" "filter (bit (0xE8BD0003 :: u32)) [0..<16] = [0, 1]"
    by (simp_all add: upt_rec bit_iff_odd_drop_bit)
  then have b: "\<forall>i < 16. bit (0xE92D0003 :: u32) i \<longleftrightarrow> i = 0 \<or> i = 1" "\<forall>i < 16. bit (0xE8BD0003 :: u32) i \<longleftrightarrow> i = 0 \<or> i = 1"
    using reg_list(3) [of _ "0xE92D0003"] reg_list(3) [of _ "0xE8BD0003"] by auto
  show ?thesis
    using arm_push_pop [of "0xE92D0003" "0xE8BD0003" stack_aica "set_r 0 77"] st bits b
    by (simp add: stack_aica_def upd_armr_def set_r_def)
qed


end
