(* ===== verification/CdSector.thy ===== *)
theory CdSector
  imports Prelude
begin

unbundle bit_operations_syntax

text \<open>
  Sectors of an optical disc, \<open>drivers/cdrom/sector.c\<close>: the sector formats, the fields that a
  read command can ask for, and the sources that sectors come from. The MMC read mode is a
  16-bit word, errors are the sense codes of \<open>defs.h\<close>. Computing the error correction bytes
  (\<open>do_encode_L2\<close>, a vendored library) and the sector address are parameters.
\<close>

section \<open>Constants\<close>

datatype sector_mode = SECTOR_UNKNOWN | SECTOR_CDDA | SECTOR_MODE1 | SECTOR_MODE2_FORMLESS | SECTOR_MODE2_FORM1
  | SECTOR_MODE2_FORM2 | SECTOR_SEMIRAW_MODE2 | SECTOR_RAW_XA | SECTOR_RAW_NONXA | SECTOR_CDDA_SUBCHANNEL

definition CDROM_ERROR_OK :: u32 where "CDROM_ERROR_OK = 0x0000"
definition CDROM_ERROR_NODISC :: u32 where "CDROM_ERROR_NODISC = 0x3A02"
definition CDROM_ERROR_BADFIELD :: u32 where "CDROM_ERROR_BADFIELD = 0x2405"
definition CDROM_ERROR_BADREAD :: u32 where "CDROM_ERROR_BADREAD = 0x3002"
definition CDROM_ERROR_BADREADMODE :: u32 where "CDROM_ERROR_BADREADMODE = 0x6405"

lemmas cd_errors = CDROM_ERROR_OK_def CDROM_ERROR_NODISC_def CDROM_ERROR_BADFIELD_def CDROM_ERROR_BADREAD_def
  CDROM_ERROR_BADREADMODE_def

definition CDROM_READ_ANY :: u16 where "CDROM_READ_ANY = 0"
definition CDROM_READ_CDDA :: u16 where "CDROM_READ_CDDA = 4"
definition CDROM_READ_MODE1 :: u16 where "CDROM_READ_MODE1 = 8"
definition CDROM_READ_MODE2 :: u16 where "CDROM_READ_MODE2 = 12"
definition CDROM_READ_MODE2_FORM1 :: u16 where "CDROM_READ_MODE2_FORM1 = 16"
definition CDROM_READ_MODE2_FORM2 :: u16 where "CDROM_READ_MODE2_FORM2 = 20"
definition CDROM_READ_SYNC :: u16 where "CDROM_READ_SYNC = 0x8000"
definition CDROM_READ_DATA :: u16 where "CDROM_READ_DATA = 0x1000"
definition CDROM_READ_ECC :: u16 where "CDROM_READ_ECC = 0x0800"
definition CDROM_READ_HEADER :: u16 where "CDROM_READ_HEADER = 0x2000"
definition CDROM_READ_SUBHEADER :: u16 where "CDROM_READ_SUBHEADER = 0x4000"
definition CDROM_READ_RAW :: u16 where "CDROM_READ_RAW = 0xF800"
definition CDROM_READ_TYPE :: "u16 \<Rightarrow> u16" where "CDROM_READ_TYPE x = x AND 0x1C"
definition CDROM_READ_FIELDS :: "u16 \<Rightarrow> u16" where "CDROM_READ_FIELDS x = x AND 0xF800"

lemmas cd_read_defs = CDROM_READ_ANY_def CDROM_READ_CDDA_def CDROM_READ_MODE1_def CDROM_READ_MODE2_def
  CDROM_READ_MODE2_FORM1_def CDROM_READ_MODE2_FORM2_def CDROM_READ_SYNC_def CDROM_READ_DATA_def CDROM_READ_ECC_def
  CDROM_READ_HEADER_def CDROM_READ_SUBHEADER_def CDROM_READ_RAW_def CDROM_READ_TYPE_def CDROM_READ_FIELDS_def

definition CDROM_MAX_SECTOR_SIZE :: nat where "CDROM_MAX_SECTOR_SIZE = 2352"

fun cdrom_sector_read_mode :: "sector_mode \<Rightarrow> u16" where
  "cdrom_sector_read_mode SECTOR_UNKNOWN = 0"
| "cdrom_sector_read_mode SECTOR_CDDA = CDROM_READ_CDDA OR CDROM_READ_DATA"
| "cdrom_sector_read_mode SECTOR_MODE1 = CDROM_READ_MODE1 OR CDROM_READ_DATA"
| "cdrom_sector_read_mode SECTOR_MODE2_FORMLESS = CDROM_READ_MODE2 OR CDROM_READ_DATA"
| "cdrom_sector_read_mode SECTOR_MODE2_FORM1 = CDROM_READ_MODE2_FORM1 OR CDROM_READ_DATA"
| "cdrom_sector_read_mode SECTOR_MODE2_FORM2 = CDROM_READ_MODE2_FORM1 OR CDROM_READ_DATA"
| "cdrom_sector_read_mode SECTOR_SEMIRAW_MODE2 =
     CDROM_READ_MODE2 OR CDROM_READ_DATA OR CDROM_READ_SUBHEADER OR CDROM_READ_ECC"
| "cdrom_sector_read_mode SECTOR_RAW_XA = CDROM_READ_RAW"
| "cdrom_sector_read_mode SECTOR_RAW_NONXA = CDROM_READ_RAW"
| "cdrom_sector_read_mode SECTOR_CDDA_SUBCHANNEL = CDROM_READ_CDDA OR CDROM_READ_DATA"

fun cdrom_sector_size :: "sector_mode \<Rightarrow> nat" where
  "cdrom_sector_size SECTOR_UNKNOWN = 0"
| "cdrom_sector_size SECTOR_CDDA = 2352"
| "cdrom_sector_size SECTOR_MODE1 = 2048"
| "cdrom_sector_size SECTOR_MODE2_FORMLESS = 2336"
| "cdrom_sector_size SECTOR_MODE2_FORM1 = 2048"
| "cdrom_sector_size SECTOR_MODE2_FORM2 = 2324"
| "cdrom_sector_size SECTOR_SEMIRAW_MODE2 = 2336"
| "cdrom_sector_size SECTOR_RAW_XA = 2352"
| "cdrom_sector_size SECTOR_RAW_NONXA = 2352"
| "cdrom_sector_size SECTOR_CDDA_SUBCHANNEL = 2448"

definition cdrom_sync_data :: "u8 list" where
  "cdrom_sync_data = [0, 255, 255, 255, 255, 255, 255, 255, 255, 255, 255, 0]"

definition legal_nonxa_fields :: "bool list" where
  "legal_nonxa_fields =
    [True, True, True, True, True, False, True, True,
     True, False, True, True, True, False, True, True,
     True, False, False, False, True, False, True, True,
     False, False, False, False, True, False, True, True]"

definition legal_xa_fields :: "bool list" where
  "legal_xa_fields =
    [True, True, True, True, True, False, False, False,
     True, False, True, True, True, False, True, True,
     True, False, False, False, True, False, False, False,
     False, False, False, False, True, False, True, True]"

text \<open>The rows of the table; it has none for the last four modes.\<close>

fun sector_field_positions :: "sector_mode \<Rightarrow> nat list" where
  "sector_field_positions SECTOR_CDDA = [0, 0, 0, 0, 2352, 2352]"
| "sector_field_positions SECTOR_MODE1 = [0, 12, 16, 16, 2064, 2352]"
| "sector_field_positions SECTOR_MODE2_FORMLESS = [0, 12, 16, 16, 2352, 2352]"
| "sector_field_positions SECTOR_MODE2_FORM1 = [0, 12, 16, 24, 2072, 2352]"
| "sector_field_positions SECTOR_MODE2_FORM2 = [0, 12, 16, 24, 2352, 2352]"
| "sector_field_positions _ = [0, 0, 0, 0, 0, 0]"

section \<open>Fields of a sector\<close>

type_synonym buf = "nat \<Rightarrow> u8"

definition put :: "nat \<Rightarrow> u8 list \<Rightarrow> buf \<Rightarrow> buf" where
  "put off bs b = (\<lambda>i. if off \<le> i \<and> i < off + length bs then bs ! (i - off) else b i)"

definition bytes :: "buf \<Rightarrow> nat \<Rightarrow> nat \<Rightarrow> u8 list" where
  "bytes b start len = map (\<lambda>i. b (start + i)) [0..<len]"

definition is_legal_read :: "sector_mode \<Rightarrow> u16 \<Rightarrow> u32" where
  "is_legal_read sector_mode read_mode =
    (let t = CDROM_READ_TYPE read_mode; fields = CDROM_READ_FIELDS read_mode;
         type_error =
           (if t = CDROM_READ_ANY then None
            else if t = CDROM_READ_CDDA then
              (if sector_mode \<noteq> SECTOR_CDDA \<and> sector_mode \<noteq> SECTOR_CDDA_SUBCHANNEL then Some CDROM_ERROR_BADREADMODE else None)
            else if t = CDROM_READ_MODE1 \<or> t = CDROM_READ_MODE2_FORM1 then
              (if sector_mode \<noteq> SECTOR_MODE1 \<and> sector_mode \<noteq> SECTOR_MODE2_FORM1 then Some CDROM_ERROR_BADREADMODE else None)
            else if t = CDROM_READ_MODE2_FORM2 then
              (if sector_mode \<noteq> SECTOR_MODE2_FORM2 then Some CDROM_ERROR_BADREADMODE else None)
            else if t = CDROM_READ_MODE2 then
              (if sector_mode \<noteq> SECTOR_MODE2_FORMLESS then Some CDROM_ERROR_BADREADMODE else None)
            else Some CDROM_ERROR_BADFIELD)
     in case type_error of
          Some e \<Rightarrow> e
        | None \<Rightarrow>
            if sector_mode = SECTOR_CDDA \<or> sector_mode = SECTOR_CDDA_SUBCHANNEL then CDROM_ERROR_OK
            else if sector_mode = SECTOR_MODE2_FORM1 \<or> sector_mode = SECTOR_MODE2_FORM2 then
              (if legal_xa_fields ! unat (drop_bit 11 fields) then CDROM_ERROR_OK else CDROM_ERROR_BADFIELD)
            else if sector_mode = SECTOR_MODE1 \<or> sector_mode = SECTOR_MODE2_FORMLESS then
              (if legal_nonxa_fields ! unat (drop_bit 11 fields) then CDROM_ERROR_OK else CDROM_ERROR_BADFIELD)
            else CDROM_ERROR_BADFIELD)"

text \<open>The mode byte of the header is at offset 15, the third byte of the subheader at 18.\<close>

definition identify_sector :: "sector_mode \<Rightarrow> buf \<Rightarrow> sector_mode" where
  "identify_sector raw_mode b =
    (case raw_mode of
       SECTOR_SEMIRAW_MODE2 \<Rightarrow>
         (if b 15 = 1 then SECTOR_MODE1
          else if b 15 = 2 then (if b 18 AND 0x20 = 0 then SECTOR_MODE2_FORM1 else SECTOR_MODE2_FORM2)
          else SECTOR_UNKNOWN)
     | SECTOR_RAW_XA \<Rightarrow>
         (if b 15 = 1 then SECTOR_MODE1
          else if b 15 = 2 then (if b 18 AND 0x20 = 0 then SECTOR_MODE2_FORM1 else SECTOR_MODE2_FORM2)
          else SECTOR_UNKNOWN)
     | SECTOR_RAW_NONXA \<Rightarrow>
         (if b 15 = 1 then SECTOR_MODE1 else if b 15 = 2 then SECTOR_MODE2_FORMLESS else SECTOR_UNKNOWN)
     | _ \<Rightarrow> raw_mode)"

text \<open>
  The loop of \<open>extract_sector_fields\<close> over the fields \<open>i\<close>, with the bounds found so far;
  \<open>None\<close> is the error \<open>CDROM_ERROR_BADFIELD\<close>.
\<close>

fun field_bounds :: "nat list \<Rightarrow> u16 \<Rightarrow> nat list \<Rightarrow> (nat \<times> nat) option \<Rightarrow> ((nat \<times> nat) option) option" where
  "field_bounds pos fields [] r = Some r"
| "field_bounds pos fields (i # is) r =
    (if fields AND drop_bit i 0x8000 \<noteq> 0 then
       (case r of
          None \<Rightarrow> field_bounds pos fields is (Some (pos ! i, pos ! (i + 1)))
        | Some (start, end) \<Rightarrow>
            if end \<noteq> pos ! i then None else field_bounds pos fields is (Some (start, pos ! (i + 1))))
     else field_bounds pos fields is r)"

text \<open>The bytes written to the buffer; their number is the length that the code returns.\<close>

definition extract_sector_fields :: "buf \<Rightarrow> sector_mode \<Rightarrow> u16 \<Rightarrow> u32 + u8 list" where
  "extract_sector_fields raw_sector mode fields =
    (case field_bounds (sector_field_positions mode) fields [0..<5] None of
       None \<Rightarrow> Inl CDROM_ERROR_BADFIELD
     | Some None \<Rightarrow> Inr []
     | Some (Some (start, end)) \<Rightarrow> Inr (bytes raw_sector start (end - start)))"

definition sector_extract_from_raw :: "buf \<Rightarrow> u16 \<Rightarrow> u32 + u8 list" where
  "sector_extract_from_raw raw_sector mode =
    (let sector_mode = identify_sector SECTOR_RAW_XA raw_sector
     in if sector_mode = SECTOR_UNKNOWN then Inl CDROM_ERROR_BADREAD
        else let status = is_legal_read sector_mode mode
             in if status \<noteq> CDROM_ERROR_OK then Inl status
                else extract_sector_fields raw_sector sector_mode (CDROM_READ_FIELDS mode))"

section \<open>Sources\<close>

text \<open>
  \<open>read_blocks\<close> is the callback of the source: the error code and the buffer after it has
  written the blocks from the given position on.
\<close>

record sector_source =
  ss_mode :: sector_mode
  ss_size :: u32
  ss_read_blocks :: "u32 \<Rightarrow> u32 \<Rightarrow> nat \<Rightarrow> buf \<Rightarrow> u32 \<times> buf"

record cd_codec =
  cd_build_address :: "sector_mode \<Rightarrow> u32 \<Rightarrow> buf \<Rightarrow> buf"
  do_encode_L2 :: "sector_mode \<Rightarrow> u32 \<Rightarrow> buf \<Rightarrow> buf"

text \<open>The macro \<open>CHECK_READ\<close>, for a pointer to a valid source.\<close>

definition CHECK_READ :: "sector_source \<Rightarrow> u32 \<Rightarrow> u32 \<Rightarrow> bool" where
  "CHECK_READ dev lba block_count \<longleftrightarrow>
    \<not> (ss_size dev \<noteq> 0 \<and> (ss_size dev \<le> lba \<or> ss_size dev < lba + block_count))"

definition sector_source_read :: "sector_source \<Rightarrow> u32 \<Rightarrow> u32 \<Rightarrow> buf \<Rightarrow> u32 \<times> buf" where
  "sector_source_read dev lba block_count b =
    (if \<not> CHECK_READ dev lba block_count then (CDROM_ERROR_BADREAD, b) else ss_read_blocks dev lba block_count 0 b)"

text \<open>What a function does to the sector that starts at an offset of a buffer.\<close>

definition at_offset :: "nat \<Rightarrow> (buf \<Rightarrow> buf) \<Rightarrow> buf \<Rightarrow> buf" where
  "at_offset off f b = (\<lambda>i. if off \<le> i then f (\<lambda>j. b (off + j)) (i - off) else b i)"

definition encode_if_ok :: "cd_codec \<Rightarrow> sector_source \<Rightarrow> u32 \<Rightarrow> nat \<Rightarrow> u32 \<times> buf \<Rightarrow> u32 \<times> buf" where
  "encode_if_ok codec dev lba off r =
    (fst r, if fst r = CDROM_ERROR_OK then at_offset off (do_encode_L2 codec (ss_mode dev) lba) (snd r) else snd r)"

text \<open>\<open>None\<close> is the call of \<open>abort\<close>.\<close>

definition read_raw_sector :: "cd_codec \<Rightarrow> sector_source \<Rightarrow> u32 \<Rightarrow> nat \<Rightarrow> buf \<Rightarrow> (u32 \<times> buf) option" where
  "read_raw_sector codec dev lba off b =
    (case ss_mode dev of
       SECTOR_RAW_XA \<Rightarrow> Some (ss_read_blocks dev lba 1 off b)
     | SECTOR_RAW_NONXA \<Rightarrow> Some (ss_read_blocks dev lba 1 off b)
     | SECTOR_SEMIRAW_MODE2 \<Rightarrow>
         Some (ss_read_blocks dev lba 1 (off + 16)
           (at_offset off (cd_build_address codec SECTOR_MODE2_FORMLESS lba) (put off cdrom_sync_data b)))
     | SECTOR_MODE1 \<Rightarrow> Some (encode_if_ok codec dev lba off (ss_read_blocks dev lba 1 (off + 16) b))
     | SECTOR_MODE2_FORMLESS \<Rightarrow> Some (encode_if_ok codec dev lba off (ss_read_blocks dev lba 1 (off + 16) b))
     | SECTOR_MODE2_FORM1 \<Rightarrow>
         Some (encode_if_ok codec dev lba off
           (ss_read_blocks dev lba 1 (off + 24) (put (off + 16) [0, 0, 0, 0, 0, 0, 0, 0] b)))
     | SECTOR_MODE2_FORM2 \<Rightarrow>
         Some (encode_if_ok codec dev lba off
           (ss_read_blocks dev lba 1 (off + 24) (put (off + 16) [0, 0, 0x20, 0, 0, 0, 0x20, 0] b)))
     | _ \<Rightarrow> None)"

section \<open>Reading in any mode\<close>

text \<open>
  The loops of \<open>default_sector_source_read_sectors\<close> from sector \<open>i\<close> on; \<open>k\<close> sectors are left,
  \<open>tmp\<close> is the local buffer and \<open>len\<close> the length so far. The result is the error code, the
  output buffer and the length.
\<close>

fun subchannel_loop :: "sector_source \<Rightarrow> u32 \<Rightarrow> nat \<Rightarrow> nat \<Rightarrow> buf \<Rightarrow> buf \<Rightarrow> buf" where
  "subchannel_loop dev lba 0 i tmp out = out"
| "subchannel_loop dev lba (Suc k) i tmp out =
    (let tmp' = snd (ss_read_blocks dev (lba + of_nat i) 1 0 tmp)
     in subchannel_loop dev lba k (Suc i) tmp' (put (2352 * i) (bytes tmp' 0 2352) out))"

fun extract_loop :: "cd_codec \<Rightarrow> sector_source \<Rightarrow> (buf \<Rightarrow> u32 + u8 list) \<Rightarrow> u32 \<Rightarrow> nat \<Rightarrow> nat \<Rightarrow> buf \<Rightarrow> nat \<Rightarrow> buf \<Rightarrow>
    (u32 \<times> buf \<times> nat) option" where
  "extract_loop codec dev extract lba 0 i tmp len out = Some (CDROM_ERROR_OK, out, len)"
| "extract_loop codec dev extract lba (Suc k) i tmp len out =
    (case read_raw_sector codec dev (lba + of_nat i) 0 tmp of
       None \<Rightarrow> None
     | Some (err, tmp') \<Rightarrow>
         if err \<noteq> CDROM_ERROR_OK then Some (err, out, len)
         else (case extract tmp' of
                 Inl err' \<Rightarrow> Some (err', out, len)
               | Inr bs \<Rightarrow> extract_loop codec dev extract lba k (Suc i) tmp' (len + length bs) (put len bs out)))"

fun raw_loop :: "cd_codec \<Rightarrow> sector_source \<Rightarrow> u32 \<Rightarrow> nat \<Rightarrow> nat \<Rightarrow> buf \<Rightarrow> (u32 \<times> buf) option" where
  "raw_loop codec dev lba 0 i out = Some (CDROM_ERROR_OK, out)"
| "raw_loop codec dev lba (Suc k) i out =
    (case read_raw_sector codec dev (lba + of_nat i) (2352 * i) out of
       None \<Rightarrow> None
     | Some (err, out') \<Rightarrow> if err \<noteq> CDROM_ERROR_OK then Some (err, out') else raw_loop codec dev lba k (Suc i) out')"

text \<open>The length is \<open>None\<close> where the code leaves the caller's variable alone.\<close>

definition default_sector_source_read_sectors ::
  "cd_codec \<Rightarrow> sector_source \<Rightarrow> u32 \<Rightarrow> u32 \<Rightarrow> u16 \<Rightarrow> buf \<Rightarrow> buf \<Rightarrow> (u32 \<times> buf \<times> nat option) option" where
  "default_sector_source_read_sectors codec dev lba block_count mode tmp out =
    (let t = CDROM_READ_TYPE mode; fields = CDROM_READ_FIELDS mode; n = unat block_count;
         with_len = map_option (\<lambda>(err, out', len). (err, out', if err = CDROM_ERROR_OK then Some len else None))
     in if \<not> CHECK_READ dev lba block_count then Some (CDROM_ERROR_BADREAD, out, None)
        else if ss_mode dev = SECTOR_CDDA \<or> ss_mode dev = SECTOR_CDDA_SUBCHANNEL then
          (if t \<noteq> CDROM_READ_ANY \<and> t \<noteq> CDROM_READ_CDDA then Some (CDROM_ERROR_BADREADMODE, out, None)
           else if fields = 0 then Some (CDROM_ERROR_OK, out, Some 0)
           else if ss_mode dev = SECTOR_CDDA
             then Some (CDROM_ERROR_OK, snd (ss_read_blocks dev lba block_count 0 out), Some (unat (block_count * 2352)))
           else Some (CDROM_ERROR_OK, subchannel_loop dev lba n 0 tmp out, Some (unat (block_count * 2352))))
        else if ss_mode dev \<in> {SECTOR_RAW_XA, SECTOR_RAW_NONXA, SECTOR_SEMIRAW_MODE2} then
          with_len (extract_loop codec dev (\<lambda>raw. sector_extract_from_raw raw mode) lba n 0 tmp 0 out)
        else if is_legal_read (ss_mode dev) mode \<noteq> CDROM_ERROR_OK then Some (is_legal_read (ss_mode dev) mode, out, None)
        else if fields = 0 then Some (CDROM_ERROR_OK, out, Some 0)
        else if fields = CDROM_READ_DATA then
          (let (err, out') = ss_read_blocks dev lba block_count 0 out
           in Some (err, out', Some (unat (block_count * of_nat (cdrom_sector_size (ss_mode dev))))))
        else if fields = CDROM_READ_RAW then
          with_len (map_option (\<lambda>(err, out'). (err, out', unat (block_count * 2352))) (raw_loop codec dev lba n 0 out))
        else with_len (extract_loop codec dev (\<lambda>raw. extract_sector_fields raw (ss_mode dev) fields) lba n 0 tmp 0 out))"

section \<open>Kinds of sources\<close>

definition null_sector_source_read :: "sector_mode \<Rightarrow> u32 \<Rightarrow> u32 \<Rightarrow> nat \<Rightarrow> buf \<Rightarrow> u32 \<times> buf" where
  "null_sector_source_read mode lba block_count off b =
    (CDROM_ERROR_OK, put off (replicate (unat (block_count * of_nat (cdrom_sector_size mode))) 0) b)"

definition null_sector_source_new :: "sector_mode \<Rightarrow> u32 \<Rightarrow> sector_source" where
  "null_sector_source_new mode cnt = \<lparr>ss_mode = mode, ss_size = cnt, ss_read_blocks = null_sector_source_read mode\<rparr>"

text \<open>The file is the list of its bytes; a read past its end gives fewer of them.\<close>

definition file_sector_source_read :: "u8 list \<Rightarrow> sector_mode \<Rightarrow> u32 \<Rightarrow> u32 \<Rightarrow> u32 \<Rightarrow> nat \<Rightarrow> buf \<Rightarrow> u32 \<times> buf" where
  "file_sector_source_read file mode offset lba block_count pos b =
    (let off = offset + lba * of_nat (cdrom_sector_size mode);
         n = unat (block_count * of_nat (cdrom_sector_size mode));
         got = take n (drop (unat off) file)
     in (CDROM_ERROR_OK, put pos (got @ replicate (n - length got) 0) b))"

definition FILE_SECTOR_FULL_FILE :: u32 where "FILE_SECTOR_FULL_FILE = - 1"

definition file_sector_source_new :: "u8 list \<Rightarrow> sector_mode \<Rightarrow> u32 \<Rightarrow> u32 \<Rightarrow> sector_source" where
  "file_sector_source_new file mode offset sector_count =
    (let sector_size = (if cdrom_sector_size mode = 0 then 2048 else cdrom_sector_size mode);
         count = (if sector_count = FILE_SECTOR_FULL_FILE
                  then of_nat ((length file + sector_size - 1) div sector_size) else sector_count)
     in \<lparr>ss_mode = mode, ss_size = count, ss_read_blocks = file_sector_source_read file mode offset\<rparr>)"

definition mem_sector_source_read :: "buf \<Rightarrow> sector_mode \<Rightarrow> u32 \<Rightarrow> u32 \<Rightarrow> u32 \<Rightarrow> nat \<Rightarrow> buf \<Rightarrow> u32 \<times> buf" where
  "mem_sector_source_read buffer mode dev_size lba block_count pos b =
    (if dev_size \<le> lba + block_count then (CDROM_ERROR_BADREAD, b)
     else let off = unat (lba * of_nat (cdrom_sector_size mode) :: u32);
              n = unat (block_count * of_nat (cdrom_sector_size mode) :: u32)
          in (CDROM_ERROR_OK, put pos (bytes buffer off n) b))"

definition mem_sector_source_new_buffer :: "buf \<Rightarrow> sector_mode \<Rightarrow> u32 \<Rightarrow> sector_source" where
  "mem_sector_source_new_buffer buffer mode sector_count =
    \<lparr>ss_mode = mode, ss_size = sector_count, ss_read_blocks = mem_sector_source_read buffer mode sector_count\<rparr>"

section \<open>A reference for the fields\<close>

text \<open>
  The fields of a raw sector in the order in which they lie on the disc, each with its bit in
  the read mode of the MMC standard: synchronisation, header, subheader, data, error
  correction. Empty fields are left out.
\<close>

definition mmc_fields :: "(nat \<times> nat) list" where
  "mmc_fields = [(0, 15), (1, 13), (2, 14), (3, 12), (4, 11)]"

definition mmc_regions :: "sector_mode \<Rightarrow> (nat \<Rightarrow> bool) \<Rightarrow> (nat \<times> nat) list" where
  "mmc_regions mode want =
    (let pos = sector_field_positions mode
     in map (\<lambda>(i, b). (pos ! i, pos ! (i + 1))) (filter (\<lambda>(i, b). want b \<and> pos ! i < pos ! (i + 1)) mmc_fields))"

definition mmc_bytes :: "buf \<Rightarrow> sector_mode \<Rightarrow> u16 \<Rightarrow> u8 list" where
  "mmc_bytes raw mode wanted = concat (map (\<lambda>(a, b). bytes raw a (b - a)) (mmc_regions mode (bit wanted)))"

fun contiguous :: "nat \<Rightarrow> (nat \<times> nat) list \<Rightarrow> nat \<Rightarrow> bool" where
  "contiguous s [] e \<longleftrightarrow> s = e"
| "contiguous s ((a, b) # rs) e \<longleftrightarrow> s = a \<and> a \<le> b \<and> contiguous b rs e"

lemma bytes_append: "bytes b s n @ bytes b (s + n) m = bytes b s (n + m)"
  by (intro nth_equalityI) (auto simp: bytes_def nth_append algebra_simps)

lemma contiguous_le: "contiguous s rs e \<Longrightarrow> s \<le> e"
  by (induction s rs e rule: contiguous.induct) auto

lemma contiguous_bytes: "contiguous s rs e \<Longrightarrow> concat (map (\<lambda>(a, b). bytes raw a (b - a)) rs) = bytes raw s (e - s)"
proof (induction s rs e rule: contiguous.induct)
  case (1 s e)
  then show ?case by (simp add: bytes_def)
next
  case (2 s a b rs e)
  then have "a \<le> b" "b \<le> e" "s = a" by (auto dest: contiguous_le)
  then show ?case using 2 bytes_append [of raw a "b - a" "e - b"] by simp
qed

lemma put_same [simp]: "bytes (put off bs b) off (length bs) = bs"
  by (intro nth_equalityI) (auto simp: bytes_def put_def)

text \<open>The loop again, on the set of the bits asked for.\<close>

fun bounds_of :: "nat list \<Rightarrow> (nat \<Rightarrow> bool) \<Rightarrow> nat list \<Rightarrow> (nat \<times> nat) option \<Rightarrow> ((nat \<times> nat) option) option" where
  "bounds_of pos want [] r = Some r"
| "bounds_of pos want (i # is) r =
    (if want (15 - i) then
       (case r of
          None \<Rightarrow> bounds_of pos want is (Some (pos ! i, pos ! (i + 1)))
        | Some (start, end) \<Rightarrow>
            if end \<noteq> pos ! i then None else bounds_of pos want is (Some (start, pos ! (i + 1))))
     else bounds_of pos want is r)"

lemma and_exp_nonzero: "w AND 2 ^ n \<noteq> 0 \<longleftrightarrow> bit w n" for w :: u16
  by (simp add: and_exp_eq_0_iff_not_bit)

lemma field_bit: "i < 5 \<Longrightarrow> fl AND drop_bit i 0x8000 \<noteq> 0 \<longleftrightarrow> bit fl (15 - i)" for fl :: u16
proof -
  assume "i < 5"
  then have "i = 0 \<or> i = 1 \<or> i = 2 \<or> i = 3 \<or> i = 4"
    by linarith
  then have "drop_bit i (0x8000 :: u16) = 2 ^ (15 - i)"
    by (elim disjE) simp_all
  then show ?thesis by (simp add: and_exp_nonzero)
qed

lemma field_bounds_of:
  "\<forall>i \<in> set is. i < 5 \<Longrightarrow> field_bounds pos fl is r = bounds_of pos (bit fl) is r"
  by (induction pos fl "is" r rule: field_bounds.induct) (simp_all only: field_bounds.simps bounds_of.simps field_bit
    list.set insert_iff simp_thms split: option.splits if_splits, auto)

definition legal_index :: "(nat \<Rightarrow> bool) \<Rightarrow> nat" where
  "legal_index want = 16 * of_bool (want 15) + 8 * of_bool (want 14) + 4 * of_bool (want 13)
     + 2 * of_bool (want 12) + of_bool (want 11)"

definition table_ok :: "sector_mode \<Rightarrow> (nat \<Rightarrow> bool) \<Rightarrow> bool" where
  "table_ok mode want \<longleftrightarrow>
      (case bounds_of (sector_field_positions mode) want [0, 1, 2, 3, 4] None of
         None \<Rightarrow> False
       | Some None \<Rightarrow> mmc_regions mode want = []
       | Some (Some (s, e)) \<Rightarrow> contiguous s (mmc_regions mode want) e \<or> (s = e \<and> mmc_regions mode want = []))"

lemmas table_defs = table_ok_def mmc_regions_def mmc_fields_def legal_index_def legal_nonxa_fields_def legal_xa_fields_def

lemma table_nonxa:
  "\<lbrakk>mode = SECTOR_MODE1 \<or> mode = SECTOR_MODE2_FORMLESS; legal_nonxa_fields ! legal_index want; want 13 = want 14\<rbrakk>
    \<Longrightarrow> table_ok mode want"
  by (cases "want 15"; cases "want 14"; cases "want 12"; cases "want 11") (auto simp: table_defs)

lemma table_xa:
  "\<lbrakk>mode = SECTOR_MODE2_FORM1 \<or> mode = SECTOR_MODE2_FORM2; legal_xa_fields ! legal_index want; want 13 = want 14\<rbrakk>
    \<Longrightarrow> table_ok mode want"
  by (cases "want 15"; cases "want 14"; cases "want 12"; cases "want 11") (auto simp: table_defs)

lemma take_bit_5:
  "take_bit 5 n = 16 * of_bool (bit n 4) + 8 * of_bool (bit n 3) + 4 * of_bool (bit n 2) + 2 * of_bool (bit n 1) + of_bool (bit n 0)"
  for n :: nat
  using take_bit_Suc_from_most [of 4 n] take_bit_Suc_from_most [of 3 n] take_bit_Suc_from_most [of 2 n]
    take_bit_Suc_from_most [of 1 n] take_bit_Suc_from_most [of 0 n] by (simp add: eval_nat_numeral)

lemma fields_bit: "bit (CDROM_READ_FIELDS m) i \<longleftrightarrow> 11 \<le> i \<and> bit m i"
proof -
  have "CDROM_READ_FIELDS m = m AND NOT (mask 11)"
  proof -
    have "(0xF800 :: u16) = NOT (mask 11)" by code_simp
    then show ?thesis by (simp only: CDROM_READ_FIELDS_def)
  qed
  then show ?thesis
    by (simp only: bit_and_iff bit_not_iff bit_mask_iff) (auto dest: bit_imp_le_length)
qed

lemma legal_index_word: "unat (drop_bit 11 (CDROM_READ_FIELDS m)) = legal_index (bit m)"
proof -
  have "drop_bit 11 (CDROM_READ_FIELDS m) = drop_bit 11 m"
    by (intro bit_eqI) (auto simp: bit_drop_bit_eq fields_bit dest: bit_imp_le_length)
  moreover have "unat m < 2 ^ LENGTH(16)"
    by (rule unsigned_less)
  then have "drop_bit 11 (unat m) < 32" by (simp add: drop_bit_eq_div less_mult_imp_div_less)
  then have "drop_bit 11 (unat m) = take_bit 5 (drop_bit 11 (unat m))"
    by (simp add: take_bit_nat_eq_self)
  ultimately show ?thesis
    by (simp only: unat_drop_bit_eq) (simp add: take_bit_5 legal_index_def bit_simps)
qed

lemma upt_five: "[0..<5] = [0, 1, 2, 3, 4]"
  by code_simp

lemma extract_reference:
  assumes "table_ok mode (bit wanted)"
  shows "extract_sector_fields raw mode wanted = Inr (mmc_bytes raw mode wanted)"
proof -
  have b: "field_bounds (sector_field_positions mode) wanted [0..<5] None =
      bounds_of (sector_field_positions mode) (bit wanted) [0, 1, 2, 3, 4] None"
    using field_bounds_of [of "[0, 1, 2, 3, 4]" "sector_field_positions mode" wanted None] upt_five by simp
  show ?thesis
  proof (cases "bounds_of (sector_field_positions mode) (bit wanted) [0, 1, 2, 3, 4] None")
    case None
    then show ?thesis using assms by (simp add: table_ok_def)
  next
    case (Some r)
    show ?thesis
    proof (cases r)
      case None
      with Some assms show ?thesis by (simp add: table_ok_def extract_sector_fields_def b mmc_bytes_def)
    next
      case (Some se)
      obtain s e where se: "se = (s, e)" by (cases se)
      have "contiguous s (mmc_regions mode (bit wanted)) e \<or> (s = e \<and> mmc_regions mode (bit wanted) = [])"
        using assms \<open>_ = Some r\<close> Some se by (simp add: table_ok_def)
      then have "mmc_bytes raw mode wanted = bytes raw s (e - s)"
        using contiguous_bytes [of s _ e raw] by (auto simp: mmc_bytes_def bytes_def)
      with \<open>_ = Some r\<close> Some se show ?thesis by (simp add: extract_sector_fields_def b)
    qed
  qed
qed

definition data_mode :: "sector_mode \<Rightarrow> bool" where
  "data_mode mode \<longleftrightarrow> mode \<in> {SECTOR_MODE1, SECTOR_MODE2_FORMLESS, SECTOR_MODE2_FORM1, SECTOR_MODE2_FORM2}"

lemma legal_read_table:
  assumes "data_mode mode" "is_legal_read mode m = CDROM_ERROR_OK" "bit m 13 = bit m 14"
  shows "table_ok mode (bit (CDROM_READ_FIELDS m))"
proof -
  have i: "unat (drop_bit 11 (CDROM_READ_FIELDS m)) = legal_index (bit (CDROM_READ_FIELDS m))"
    by (simp add: legal_index_word legal_index_def fields_bit)
  have w: "bit (CDROM_READ_FIELDS m) 13 = bit (CDROM_READ_FIELDS m) 14"
    by (simp add: fields_bit assms(3))
  have "CDROM_ERROR_BADFIELD \<noteq> CDROM_ERROR_OK" "CDROM_ERROR_BADREADMODE \<noteq> CDROM_ERROR_OK"
    by (simp_all add: cd_errors)
  then show ?thesis
    using assms(1,2) w table_xa [of mode "bit (CDROM_READ_FIELDS m)"] table_nonxa [of mode "bit (CDROM_READ_FIELDS m)"]
    unfolding data_mode_def is_legal_read_def Let_def i [symmetric]
    by (auto split: if_splits)
qed

lemma cd_extract:
  assumes "data_mode mode" "is_legal_read mode m = CDROM_ERROR_OK" "bit m 13 = bit m 14"
  shows "extract_sector_fields raw mode (CDROM_READ_FIELDS m) = Inr (mmc_bytes raw mode (CDROM_READ_FIELDS m))"
  by (rule extract_reference) (rule legal_read_table [OF assms])

text \<open>
  A legal read of a data sector that asks for the header and the subheader together, or for
  neither, gives exactly the bytes of the fields asked for, in the order of the disc.
\<close>

theorem cd_extract_reference:
  assumes "data_mode mode" "is_legal_read mode m = CDROM_ERROR_OK" "bit m 13 = bit m 14"
  shows "extract_sector_fields raw mode (CDROM_READ_FIELDS m) = Inr (mmc_bytes raw mode (CDROM_READ_FIELDS m))"
  using assms by (rule cd_extract)

theorem cd_extract_reference_witness:
  "extract_sector_fields (\<lambda>i. of_nat i) SECTOR_MODE1 (CDROM_READ_FIELDS 0xF808) =
    Inr (mmc_bytes (\<lambda>i. of_nat i) SECTOR_MODE1 (CDROM_READ_FIELDS 0xF808))"
  by (rule cd_extract_reference) (simp add: data_mode_def, code_simp, code_simp)

section \<open>The error paths\<close>

text \<open>
  The loop of \<open>extract_sector_fields\<close> takes bit 14 for the header and bit 13 for the subheader.
\<close>

lemma swapped_cases:
  "\<lbrakk>list_all (\<lambda>mode. P mode) [SECTOR_MODE2_FORM1, SECTOR_MODE2_FORM2]; mode = SECTOR_MODE2_FORM1 \<or> mode = SECTOR_MODE2_FORM2\<rbrakk>
    \<Longrightarrow> P mode"
  by auto

lemma swapped_legal:
  "list_all (\<lambda>mode. is_legal_read mode (CDROM_READ_SYNC OR CDROM_READ_HEADER) = CDROM_ERROR_OK)
    [SECTOR_MODE2_FORM1, SECTOR_MODE2_FORM2]"
  by code_simp

lemma swapped_bounds:
  "list_all (\<lambda>mode. field_bounds (sector_field_positions mode) CDROM_READ_HEADER [0..<5] None = Some (Some (16, 24)) \<and>
      field_bounds (sector_field_positions mode) CDROM_READ_SUBHEADER [0..<5] None = Some (Some (12, 16)) \<and>
      field_bounds (sector_field_positions mode) (CDROM_READ_SYNC OR CDROM_READ_HEADER) [0..<5] None = None)
    [SECTOR_MODE2_FORM1, SECTOR_MODE2_FORM2]"
  by code_simp

text \<open>
  C40: The bits of the header and the subheader are exchanged: asking for the header of a Mode 2 sector
  gives the subheader and the other way round, and the synchronisation with the header, a legal
  set, is refused.
\<close>

theorem cd_header_subheader_swapped:
  assumes "mode = SECTOR_MODE2_FORM1 \<or> mode = SECTOR_MODE2_FORM2"
  shows "extract_sector_fields raw mode CDROM_READ_HEADER = Inr (bytes raw 16 8) \<and>
    extract_sector_fields raw mode CDROM_READ_SUBHEADER = Inr (bytes raw 12 4) \<and>
    is_legal_read mode (CDROM_READ_SYNC OR CDROM_READ_HEADER) = CDROM_ERROR_OK \<and>
    extract_sector_fields raw mode (CDROM_READ_SYNC OR CDROM_READ_HEADER) = Inl CDROM_ERROR_BADFIELD"
  using swapped_cases [OF swapped_bounds assms] swapped_cases [OF swapped_legal assms]
  by (simp add: extract_sector_fields_def)

theorem cd_header_subheader_swapped_witness:
  "extract_sector_fields (\<lambda>i. of_nat i) SECTOR_MODE2_FORM1 CDROM_READ_SUBHEADER = Inr [12, 13, 14, 15]"
  using cd_header_subheader_swapped [of SECTOR_MODE2_FORM1 "\<lambda>i. of_nat i"] by (simp add: bytes_def upt_conv_Cons)

section \<open>Sectors one after the other\<close>

lemma mmc_regions_bound: "(a, b) \<in> set (mmc_regions mode want) \<Longrightarrow> b \<le> 2352"
  by (cases mode) (auto simp: mmc_regions_def mmc_fields_def Let_def split: if_splits)

lemma mmc_bytes_cong:
  assumes "\<forall>k<2352. raw k = raw' k"
  shows "mmc_bytes raw mode f = mmc_bytes raw' mode f"
  unfolding mmc_bytes_def
proof (rule arg_cong [of _ _ concat], rule map_cong [OF refl], clarify)
  fix a b assume "(a, b) \<in> set (mmc_regions mode (bit f))"
  then have "b \<le> 2352" by (rule mmc_regions_bound)
  then show "bytes raw a (b - a) = bytes raw' a (b - a)"
    using assms by (auto simp: bytes_def)
qed

definition reads_raw :: "cd_codec \<Rightarrow> sector_source \<Rightarrow> u32 \<Rightarrow> (nat \<Rightarrow> buf) \<Rightarrow> nat \<Rightarrow> bool" where
  "reads_raw codec dev lba raw i \<longleftrightarrow>
    (\<forall>t. \<exists>t'. read_raw_sector codec dev (lba + of_nat i) 0 t = Some (CDROM_ERROR_OK, t') \<and> (\<forall>k<2352. t' k = raw i k))"

lemma bytes_put_other: "off + n \<le> off' \<Longrightarrow> bytes (put off' bs b) off n = bytes b off n"
  by (auto simp: bytes_def put_def)

lemma bytes_put_end: "bytes (put len bs out) 0 (len + length bs) = bytes out 0 len @ bs"
  using bytes_append [of "put len bs out" 0 len "length bs"] by (simp add: bytes_put_other)

lemma extract_loop_reference:
  assumes "\<forall>j. i \<le> j \<and> j < i + k \<longrightarrow> reads_raw codec dev lba raw j"
    and "\<And>t. extract t = Inr (mmc_bytes t mode f)"
  shows "\<exists>out'. extract_loop codec dev extract lba k i tmp len out =
      Some (CDROM_ERROR_OK, out', len + length (concat (map (\<lambda>j. mmc_bytes (raw j) mode f) [i..<i + k]))) \<and>
    bytes out' 0 (len + length (concat (map (\<lambda>j. mmc_bytes (raw j) mode f) [i..<i + k]))) =
      bytes out 0 len @ concat (map (\<lambda>j. mmc_bytes (raw j) mode f) [i..<i + k])"
  using assms(1)
proof (induction k arbitrary: i tmp len out)
  case 0
  then show ?case by simp
next
  case (Suc k)
  have "reads_raw codec dev lba raw i" using Suc.prems by simp
  then obtain t' where t': "read_raw_sector codec dev (lba + of_nat i) 0 tmp = Some (CDROM_ERROR_OK, t')"
    and same: "\<forall>k<2352. t' k = raw i k" by (auto simp: reads_raw_def)
  have e: "extract t' = Inr (mmc_bytes (raw i) mode f)"
    by (simp add: assms(2) mmc_bytes_cong [OF same])
  have split: "[i..<i + Suc k] = i # [Suc i..<Suc i + k]" by (simp add: upt_conv_Cons)
  have "\<forall>j. Suc i \<le> j \<and> j < Suc i + k \<longrightarrow> reads_raw codec dev lba raw j" using Suc.prems by simp
  from Suc.IH [OF this, of t' "len + length (mmc_bytes (raw i) mode f)" "put len (mmc_bytes (raw i) mode f) out"]
  show ?case unfolding split
    by (simp add: t' e bytes_put_end add.assoc)
qed


text \<open>A source of empty sectors, with a codec that leaves them alone.\<close>

definition plain_codec :: cd_codec where
  "plain_codec = \<lparr>cd_build_address = (\<lambda>_ _ b. b), do_encode_L2 = (\<lambda>_ _ b i. if i < 16 \<or> 2064 \<le> i then 7 else b i)\<rparr>"

definition blank_sector :: buf where
  "blank_sector = (\<lambda>i. if i < 16 \<or> 2064 \<le> i then 7 else 0)"

lemma null_reads_raw: "reads_raw plain_codec (null_sector_source_new SECTOR_MODE1 9) lba (\<lambda>_. blank_sector) i"
  by (auto simp: reads_raw_def read_raw_sector_def null_sector_source_new_def null_sector_source_read_def encode_if_ok_def
    at_offset_def plain_codec_def blank_sector_def put_def nth_replicate)


section \<open>The sources themselves\<close>

text \<open>The bytes of a file that is extended with zeros.\<close>

definition file_byte :: "u8 list \<Rightarrow> nat \<Rightarrow> u8" where
  "file_byte file i = (if i < length file then file ! i else 0)"

lemma take_drop_fill:
  "take n (drop k xs) @ replicate (n - min (length xs - k) n) 0 = map (\<lambda>i. file_byte xs (k + i)) [0..<n]"
  by (rule nth_equalityI) (auto simp: file_byte_def nth_append)

lemma put_bytes: "length bs = n \<Longrightarrow> bytes (put off bs b) off n = bs"
  by auto

lemma unat_product:
  assumes "unat lba * k < 2 ^ 32"
  shows "unat (lba * of_nat k :: u32) = unat lba * k"
proof (cases "unat lba = 0")
  case True
  then have "lba = 0" by (simp add: unat_eq_zero)
  then show ?thesis by simp
next
  case False
  then have "k \<le> unat lba * k" by simp
  then have "k < 2 ^ 32" using assms by linarith
  then show ?thesis using assms by (simp add: unat_word_ariths unat_of_nat)
qed

text \<open>
  A source on a file reads the bytes of its sectors, and zeros beyond the end of the file, without
  an error.
\<close>

theorem cd_file_source_reads:
  assumes "unat offset + unat lba * cdrom_sector_size mode < 2 ^ 32" "unat n * cdrom_sector_size mode < 2 ^ 32"
    and "CHECK_READ (file_sector_source_new file mode offset count) lba n"
  shows "fst (sector_source_read (file_sector_source_new file mode offset count) lba n b) = CDROM_ERROR_OK \<and>
    bytes (snd (sector_source_read (file_sector_source_new file mode offset count) lba n b)) 0 (unat n * cdrom_sector_size mode) =
      map (\<lambda>i. file_byte file (unat offset + unat lba * cdrom_sector_size mode + i)) [0..<unat n * cdrom_sector_size mode]"
proof -
  have l: "unat (lba * of_nat (cdrom_sector_size mode) :: u32) = unat lba * cdrom_sector_size mode"
    by (rule unat_product) (use assms(1) in linarith)
  have o: "unat (offset + lba * of_nat (cdrom_sector_size mode)) = unat offset + unat lba * cdrom_sector_size mode"
    using assms(1) l by (simp add: unat_word_ariths(1))
  have k: "unat (n * of_nat (cdrom_sector_size mode) :: u32) = unat n * cdrom_sector_size mode"
    by (rule unat_product) (rule assms(2))
  show ?thesis
    using assms(3) by (simp add: sector_source_read_def file_sector_source_new_def file_sector_source_read_def Let_def o k
      take_drop_fill put_bytes)
qed

theorem cd_file_source_reads_witness:
  "bytes (snd (sector_source_read (file_sector_source_new (replicate 5000 9) SECTOR_MODE1 8 FILE_SECTOR_FULL_FILE) 2 1 (\<lambda>_. 0))) 0 2048 =
    map (\<lambda>i. file_byte (replicate 5000 9) (4104 + i)) [0..<2048]"
  using cd_file_source_reads [of 8 2 SECTOR_MODE1 1 "replicate 5000 9" FILE_SECTOR_FULL_FILE "\<lambda>_. 0"]
  by (simp add: CHECK_READ_def file_sector_source_new_def FILE_SECTOR_FULL_FILE_def)

text \<open>
  The last sector of a source in memory cannot be read, although the general check lets it pass.
\<close>

theorem cd_mem_last_sector:
  assumes "0 < cnt"
  shows "CHECK_READ (mem_sector_source_new_buffer buffer mode cnt) (cnt - 1) 1 \<and>
    sector_source_read (mem_sector_source_new_buffer buffer mode cnt) (cnt - 1) 1 b = (CDROM_ERROR_BADREAD, b)"
proof -
  have "unat (cnt - 1) = unat cnt - 1" using assms by (intro unat_minus_one) auto
  then have "cnt - 1 < cnt" using assms by (simp add: word_less_nat_alt)
  then show ?thesis
    by (auto simp: sector_source_read_def CHECK_READ_def mem_sector_source_new_buffer_def mem_sector_source_read_def)
qed

theorem cd_mem_last_sector_witness:
  "sector_source_read (mem_sector_source_new_buffer (\<lambda>_. 1) SECTOR_MODE1 4) 3 1 (\<lambda>_. 0) = (CDROM_ERROR_BADREAD, \<lambda>_. 0)"
  using cd_mem_last_sector [of 4 "\<lambda>_. 1" SECTOR_MODE1 "\<lambda>_. 0"] by simp

end
