(* ===== verification/CdDisc.thy ===== *)
theory CdDisc
  imports CdSector
begin

unbundle bit_operations_syntax

text \<open>
  Discs, \<open>drivers/cdrom/cdrom.c\<close>: the table of contents, the tracks and the reads that go
  across them. A disc is a record with the fields of \<open>struct cdrom_disc\<close>; the callbacks of a
  disc (reading the table, checking the medium) are arguments of the operations that call
  them. The table has 99 entries of which the first \<open>track_count\<close> are in use.
\<close>

section \<open>Devices, tracks and discs\<close>

text \<open>
  A source with its \<open>read_sectors\<close> callback: the error code, the buffer and the length.
  \<open>None\<close> is a call of \<open>abort\<close>.
\<close>

record cd_device = sector_source +
  ss_read_sectors :: "u32 \<Rightarrow> u32 \<Rightarrow> u16 \<Rightarrow> buf \<Rightarrow> (u32 \<times> buf \<times> nat) option"

text \<open>The callback that \<open>sector_source_init\<close> installs.\<close>

definition sector_source_init :: "cd_codec \<Rightarrow> buf \<Rightarrow> sector_source \<Rightarrow> cd_device" where
  "sector_source_init codec tmp dev = sector_source.extend dev
    \<lparr>ss_read_sectors = (\<lambda>lba cnt m b. map_option (\<lambda>(err, out, l). (err, out, case l of None \<Rightarrow> 0 | Some n \<Rightarrow> n))
       (default_sector_source_read_sectors codec dev lba cnt m tmp b))\<rparr>"

definition sector_source_read_sectors ::
  "cd_device \<Rightarrow> u32 \<Rightarrow> u32 \<Rightarrow> u16 \<Rightarrow> buf \<Rightarrow> (u32 \<times> buf \<times> nat) option" where
  "sector_source_read_sectors dev lba block_count m b =
    (if \<not> CHECK_READ (sector_source.truncate dev) lba block_count then Some (CDROM_ERROR_BADREAD, b, 0)
     else ss_read_sectors dev lba block_count m b)"

definition CDROM_DISC_NONE :: u8 where "CDROM_DISC_NONE = 0x06"
definition CDROM_DISC_AUDIO :: u8 where "CDROM_DISC_AUDIO = 0x00"
definition CDROM_DISC_NONXA :: u8 where "CDROM_DISC_NONXA = 0x10"
definition CDROM_DISC_XA :: u8 where "CDROM_DISC_XA = 0x20"
definition CDROM_DISC_GDROM :: u8 where "CDROM_DISC_GDROM = 0x80"
definition TRACK_FLAG_DATA :: u8 where "TRACK_FLAG_DATA = 0x40"
definition CDROM_MAX_TRACKS :: nat where "CDROM_MAX_TRACKS = 99"

lemmas cd_disc_types = CDROM_DISC_NONE_def CDROM_DISC_AUDIO_def CDROM_DISC_NONXA_def CDROM_DISC_XA_def CDROM_DISC_GDROM_def

record cdrom_track =
  trackno :: u8
  sessionno :: u8
  track_lba :: u32
  track_flags :: u8
  track_source :: "cd_device option"

record cdrom_disc =
  disc_type :: u8
  track_count :: u8
  session_count :: u8
  leadout :: u32
  tracks :: "cdrom_track list"

definition empty_track :: "nat \<Rightarrow> cdrom_track" where
  "empty_track i = \<lparr>trackno = of_nat i + 1, sessionno = 0, track_lba = 0, track_flags = 0, track_source = None\<rparr>"

text \<open>A disc that \<open>g_malloc0\<close> has allocated and \<open>cdrom_disc_init\<close> has set up.\<close>

definition cdrom_disc_new :: cdrom_disc where
  "cdrom_disc_new = \<lparr>disc_type = CDROM_DISC_NONE, track_count = 0, session_count = 0, leadout = 0,
     tracks = map empty_track [0..<CDROM_MAX_TRACKS]\<rparr>"

section \<open>Setting up a disc\<close>

definition last_track :: "cdrom_disc \<Rightarrow> cdrom_track" where
  "last_track disc = tracks disc ! (unat (track_count disc) - 1)"

definition cdrom_disc_compute_leadout :: "cdrom_disc \<Rightarrow> cdrom_disc" where
  "cdrom_disc_compute_leadout disc =
    (if track_count disc = 0 then disc\<lparr>leadout := 0\<rparr>
     else case track_source (last_track disc) of
            None \<Rightarrow> disc
          | Some src \<Rightarrow>
              let out = track_lba (last_track disc) + ss_size src
              in if leadout disc < out then disc\<lparr>leadout := out\<rparr> else disc)"

text \<open>
  The loop over the tracks. The condition of the code is \<open>flags & TRACK_FLAG_DATA == 0\<close>, where
  the comparison binds tighter than the conjunction.
\<close>

fun disc_type_loop :: "u8 \<Rightarrow> cdrom_track list \<Rightarrow> u8" where
  "disc_type_loop typ [] = typ"
| "disc_type_loop typ (t # ts) =
    (if track_flags t AND (if TRACK_FLAG_DATA = 0 then 1 else 0) \<noteq> 0 then
       disc_type_loop (if typ = CDROM_DISC_NONE then CDROM_DISC_AUDIO else typ) ts
     else if (case track_source t of None \<Rightarrow> False
              | Some src \<Rightarrow> ss_mode src = SECTOR_MODE1 \<or> ss_mode src = SECTOR_RAW_NONXA) then
       disc_type_loop (if typ \<noteq> CDROM_DISC_XA then CDROM_DISC_NONXA else typ) ts
     else CDROM_DISC_XA)"

definition used_tracks :: "cdrom_disc \<Rightarrow> cdrom_track list" where
  "used_tracks disc = take (unat (track_count disc)) (tracks disc)"

definition cdrom_disc_set_default_disc_type :: "cdrom_disc \<Rightarrow> cdrom_disc" where
  "cdrom_disc_set_default_disc_type disc = disc\<lparr>disc_type := disc_type_loop CDROM_DISC_NONE (used_tracks disc)\<rparr>"

definition cdrom_disc_clear_toc :: "cdrom_disc \<Rightarrow> cdrom_disc" where
  "cdrom_disc_clear_toc disc = disc\<lparr>disc_type := CDROM_DISC_NONE, leadout := 0, track_count := 0, session_count := 0,
     tracks := map (\<lambda>t. t\<lparr>track_source := None\<rparr>) (tracks disc)\<rparr>"

definition cdrom_disc_read_toc :: "(cdrom_disc \<Rightarrow> cdrom_disc \<times> bool) option \<Rightarrow> cdrom_disc \<Rightarrow> cdrom_disc \<times> bool" where
  "cdrom_disc_read_toc read_toc disc =
    (case read_toc of
       None \<Rightarrow> (disc, True)
     | Some rd \<Rightarrow>
         let (d, ok) = rd (cdrom_disc_clear_toc disc)
         in if ok then (cdrom_disc_compute_leadout (if disc_type d = CDROM_DISC_NONE
                          then cdrom_disc_set_default_disc_type d else d), True)
            else (cdrom_disc_clear_toc d, False))"

definition cdrom_disc_new_from_track :: "cd_codec \<Rightarrow> buf \<Rightarrow> u8 \<Rightarrow> cd_device \<Rightarrow> u32 \<Rightarrow> cdrom_disc" where
  "cdrom_disc_new_from_track codec tmp typ track lba =
    (let filler = \<lparr>trackno = 1, sessionno = 1, track_lba = 0, track_flags = 0,
           track_source = Some (sector_source_init codec tmp
             (null_sector_source_new SECTOR_CDDA (if lba < 150 then lba else lba - 150)))\<rparr>;
         n = (if lba \<noteq> 0 then 1 else 0);
         main = \<lparr>trackno = of_nat n + 1, sessionno = of_nat n + 1, track_lba = lba,
           track_flags = (if ss_mode track = SECTOR_CDDA then 0 else TRACK_FLAG_DATA), track_source = Some track\<rparr>;
         ts = (if lba \<noteq> 0 then (tracks cdrom_disc_new)[0 := filler] else tracks cdrom_disc_new)
     in cdrom_disc_compute_leadout
          (cdrom_disc_new\<lparr>disc_type := typ, tracks := ts[n := main], track_count := of_nat n + 1, session_count := of_nat n + 1\<rparr>))"

section \<open>Finding tracks\<close>

definition cdrom_disc_get_track :: "cdrom_disc \<Rightarrow> u8 \<Rightarrow> cdrom_track option" where
  "cdrom_disc_get_track disc track =
    (if track < 1 \<or> track_count disc \<le> track then None else Some (tracks disc ! (unat track - 1)))"

definition cdrom_disc_get_session :: "cdrom_disc \<Rightarrow> int \<Rightarrow> cdrom_track option" where
  "cdrom_disc_get_session disc session = find (\<lambda>t. uint (sessionno t) = session) (used_tracks disc)"

definition cdrom_disc_get_track_size :: "cdrom_disc \<Rightarrow> cdrom_track \<Rightarrow> u32" where
  "cdrom_disc_get_track_size disc track =
    (if trackno track = track_count disc then leadout disc - track_lba track
     else track_lba (tracks disc ! unat (trackno track)) - track_lba track)"

definition cdrom_disc_get_last_track :: "cdrom_disc \<Rightarrow> cdrom_track option" where
  "cdrom_disc_get_last_track disc = (if track_count disc = 0 then None else Some (last_track disc))"

definition cdrom_disc_get_last_data_track :: "cdrom_disc \<Rightarrow> cdrom_track option" where
  "cdrom_disc_get_last_data_track disc = find (\<lambda>t. track_flags t AND TRACK_FLAG_DATA \<noteq> 0) (rev (used_tracks disc))"

definition cdrom_disc_prev_track :: "cdrom_disc \<Rightarrow> cdrom_track \<Rightarrow> cdrom_track option" where
  "cdrom_disc_prev_track disc track = (if trackno track \<le> 1 then None else cdrom_disc_get_track disc (trackno track - 1))"

definition cdrom_disc_next_track :: "cdrom_disc \<Rightarrow> cdrom_track \<Rightarrow> cdrom_track option" where
  "cdrom_disc_next_track disc track =
    (if track_count disc \<le> trackno track then None else cdrom_disc_get_track disc (trackno track + 1))"

text \<open>The loop over the tracks after the first; \<open>prev\<close> is the track before them.\<close>

fun track_by_lba_loop :: "u32 \<Rightarrow> cdrom_track \<Rightarrow> cdrom_track list \<Rightarrow> cdrom_track" where
  "track_by_lba_loop lba prev [] = prev"
| "track_by_lba_loop lba prev (t # ts) = (if lba < track_lba t then prev else track_by_lba_loop lba t ts)"

definition cdrom_disc_get_track_by_lba :: "cdrom_disc \<Rightarrow> u32 \<Rightarrow> cdrom_track option" where
  "cdrom_disc_get_track_by_lba disc lba =
    (if track_count disc = 0 \<or> lba < track_lba (tracks disc ! 0) \<or> leadout disc \<le> lba then None
     else Some (track_by_lba_loop lba (tracks disc ! 0) (tl (used_tracks disc))))"

section \<open>Reading\<close>

text \<open>What a callback does to the part of a buffer from an offset on.\<close>

definition read_at :: "nat \<Rightarrow> (buf \<Rightarrow> (u32 \<times> buf \<times> nat) option) \<Rightarrow> buf \<Rightarrow> (u32 \<times> buf \<times> nat) option" where
  "read_at off f b = map_option (\<lambda>(err, b', n). (err, at_offset off (\<lambda>_. b') b, n)) (f (\<lambda>j. b (off + j)))"

text \<open>The number of sectors that one turn of the loop reads, and where they start in the track.\<close>

definition sub_count :: "cdrom_disc \<Rightarrow> cdrom_track \<Rightarrow> u32 \<Rightarrow> u32 \<Rightarrow> u32" where
  "sub_count disc track lba left =
    (let rest = cdrom_disc_get_track_size disc track - (lba - track_lba track)
     in if rest < left then rest else left)"

text \<open>The loop of \<open>default_image_read_sectors\<close>; a track without a source is a null pointer, \<open>None\<close>.\<close>

partial_function (option) image_loop ::
  "cdrom_disc \<Rightarrow> u32 \<Rightarrow> u32 \<Rightarrow> u16 \<Rightarrow> u32 \<Rightarrow> nat \<Rightarrow> buf \<Rightarrow> (u32 \<times> buf \<times> nat) option" where
  "image_loop disc lba count m current len b =
    (if current < count then
       (case cdrom_disc_get_track_by_lba disc (lba + current) of
          None \<Rightarrow> Some (CDROM_ERROR_BADREAD, b, len)
        | Some track \<Rightarrow>
            (case track_source track of
               None \<Rightarrow> None
             | Some src \<Rightarrow>
                 (case read_at len (ss_read_sectors src (lba + current - track_lba track)
                         (sub_count disc track (lba + current) (count - current)) m) b of
                    None \<Rightarrow> None
                  | Some r \<Rightarrow>
                      if fst r \<noteq> CDROM_ERROR_OK then Some (fst r, fst (snd r), len)
                      else image_loop disc lba count m (current + sub_count disc track (lba + current) (count - current))
                             (len + snd (snd r)) (fst (snd r)))))
     else Some (CDROM_ERROR_OK, b, len))"

definition default_image_read_sectors ::
  "cdrom_disc \<Rightarrow> u32 \<Rightarrow> u32 \<Rightarrow> u16 \<Rightarrow> buf \<Rightarrow> (u32 \<times> buf \<times> nat) option" where
  "default_image_read_sectors disc lba count m b = image_loop disc lba count m 0 0 b"

definition cdrom_disc_read_sectors ::
  "cdrom_disc \<Rightarrow> u32 \<Rightarrow> u32 \<Rightarrow> u16 \<Rightarrow> buf \<Rightarrow> (u32 \<times> buf \<times> nat) option" where
  "cdrom_disc_read_sectors disc lba count m b = default_image_read_sectors disc lba count m b"

definition cdrom_disc_check_media :: "(cdrom_disc \<Rightarrow> cdrom_disc) \<Rightarrow> cdrom_disc option \<Rightarrow> cdrom_disc option \<times> u32" where
  "cdrom_disc_check_media check disc =
    (case disc of
       None \<Rightarrow> (None, CDROM_ERROR_NODISC)
     | Some d \<Rightarrow> (Some (check d), if disc_type (check d) = CDROM_DISC_NONE then CDROM_ERROR_NODISC else CDROM_ERROR_OK))"

definition track_sector_source_read_sectors ::
  "cdrom_disc \<Rightarrow> u32 \<Rightarrow> u32 \<Rightarrow> u32 \<Rightarrow> u16 \<Rightarrow> buf \<Rightarrow> (u32 \<times> buf \<times> nat) option" where
  "track_sector_source_read_sectors disc start_lba lba count m b = cdrom_disc_read_sectors disc (lba + start_lba) count m b"

definition track_sector_source_read_blocks ::
  "cdrom_disc \<Rightarrow> sector_mode \<Rightarrow> u32 \<Rightarrow> u32 \<Rightarrow> u32 \<Rightarrow> buf \<Rightarrow> (u32 \<times> buf \<times> nat) option" where
  "track_sector_source_read_blocks disc mode start_lba lba count b =
    cdrom_disc_read_sectors disc (lba + start_lba) count (cdrom_sector_read_mode mode) b"

section \<open>Where a sector lies\<close>

definition numbered :: "cdrom_disc \<Rightarrow> bool" where
  "numbered disc \<longleftrightarrow> length (tracks disc) = CDROM_MAX_TRACKS \<and> 0 < unat (track_count disc) \<and>
    unat (track_count disc) \<le> CDROM_MAX_TRACKS \<and>
    (\<forall>i<unat (track_count disc). trackno (tracks disc ! i) = of_nat i + 1)"

definition track_end :: "cdrom_disc \<Rightarrow> nat \<Rightarrow> u32" where
  "track_end disc i = (if Suc i = unat (track_count disc) then leadout disc else track_lba (tracks disc ! Suc i))"

lemma used_tracks_nth: "\<lbrakk>numbered disc; i < unat (track_count disc)\<rbrakk> \<Longrightarrow> used_tracks disc ! i = tracks disc ! i"
  by (simp add: used_tracks_def)

lemma used_tracks_length: "numbered disc \<Longrightarrow> length (used_tracks disc) = unat (track_count disc)"
  by (auto simp: used_tracks_def numbered_def)

lemma track_number:
  assumes "numbered disc" "i < unat (track_count disc)"
  shows "unat (trackno (tracks disc ! i)) = Suc i"
proof -
  have "Suc i < 2 ^ LENGTH(8)" using assms by (auto simp: numbered_def CDROM_MAX_TRACKS_def)
  then have "unat (of_nat (Suc i) :: u8) = Suc i" by (simp only: unat_of_nat mod_less)
  then show ?thesis using assms by (simp add: numbered_def add.commute)
qed

lemma track_size_end:
  assumes "numbered disc" "i < unat (track_count disc)"
  shows "cdrom_disc_get_track_size disc (tracks disc ! i) = track_end disc i - track_lba (tracks disc ! i)"
proof -
  have "trackno (tracks disc ! i) = track_count disc \<longleftrightarrow> Suc i = unat (track_count disc)"
    using track_number [OF assms] by (metis word_unat_eq_iff)
  then show ?thesis
    by (simp add: cdrom_disc_get_track_size_def track_end_def track_number [OF assms])
qed

lemma track_loop_spec:
  "\<exists>i\<le>length ts. track_by_lba_loop lba p ts = (p # ts) ! i \<and> (i = 0 \<or> track_lba ((p # ts) ! i) \<le> lba) \<and>
    (i = length ts \<or> lba < track_lba ((p # ts) ! Suc i))"
proof (induction lba p ts rule: track_by_lba_loop.induct)
  case (1 lba prev)
  then show ?case by simp
next
  case (2 lba prev t ts)
  show ?case
  proof (cases "lba < track_lba t")
    case True
    then show ?thesis by (intro exI [of _ 0]) simp
  next
    case False
    from 2 [OF this] obtain i where i: "i \<le> length ts" "track_by_lba_loop lba t ts = (t # ts) ! i"
      "i = 0 \<or> track_lba ((t # ts) ! i) \<le> lba" "i = length ts \<or> lba < track_lba ((t # ts) ! Suc i)" by auto
    then show ?thesis using False by (intro exI [of _ "Suc i"]) (auto simp: nth_Cons')
  qed
qed

definition on_disc :: "cdrom_disc \<Rightarrow> u32 \<Rightarrow> bool" where
  "on_disc disc lba \<longleftrightarrow> track_lba (tracks disc ! 0) \<le> lba \<and> lba < leadout disc"

definition in_track :: "cdrom_disc \<Rightarrow> u32 \<Rightarrow> nat \<Rightarrow> bool" where
  "in_track disc lba i \<longleftrightarrow> i < unat (track_count disc) \<and> track_lba (tracks disc ! i) \<le> lba \<and> lba < track_end disc i"

lemma track_by_lba_found:
  assumes "numbered disc" "on_disc disc lba"
  shows "\<exists>i. in_track disc lba i \<and> cdrom_disc_get_track_by_lba disc lba = Some (tracks disc ! i)"
proof -
  have n: "0 < unat (track_count disc)" using assms by (simp add: numbered_def)
  then obtain ts where u: "used_tracks disc = tracks disc ! 0 # ts"
    using used_tracks_length [OF assms(1)] used_tracks_nth [OF assms(1), of 0] by (cases "used_tracks disc") auto
  obtain i where i: "i \<le> length ts" "track_by_lba_loop lba (tracks disc ! 0) ts = used_tracks disc ! i"
    "i = 0 \<or> track_lba (used_tracks disc ! i) \<le> lba" "i = length ts \<or> lba < track_lba (used_tracks disc ! Suc i)"
    using track_loop_spec [of ts lba "tracks disc ! 0"] unfolding u [symmetric] by auto
  have len: "Suc (length ts) = unat (track_count disc)"
    using used_tracks_length [OF assms(1)] u by simp
  have "in_track disc lba i"
    using i len assms by (auto simp: in_track_def track_end_def on_disc_def used_tracks_nth)
  moreover have "cdrom_disc_get_track_by_lba disc lba = Some (tracks disc ! i)"
    using i(1,2) len assms n u used_tracks_nth [OF assms(1), of i]
    by (auto simp: cdrom_disc_get_track_by_lba_def on_disc_def)
  ultimately show ?thesis by blast
qed

text \<open>
  C38: A sector between the first track and the lead-out is found in the track that it lies in; for
  every other sector no track is found.
\<close>

theorem cd_track_by_lba:
  assumes "numbered disc"
  shows "if on_disc disc lba then \<exists>i. in_track disc lba i \<and> cdrom_disc_get_track_by_lba disc lba = Some (tracks disc ! i)
    else cdrom_disc_get_track_by_lba disc lba = None"
  using track_by_lba_found [OF assms, of lba] by (auto simp: on_disc_def cdrom_disc_get_track_by_lba_def)

section \<open>Reading across tracks\<close>

text \<open>
  The tracks deliver the sectors \<open>content\<close> of the disc for the sectors from \<open>lo\<close> to \<open>hi\<close>.
\<close>

definition sectors :: "(nat \<Rightarrow> u8 list) \<Rightarrow> nat \<Rightarrow> nat \<Rightarrow> u8 list" where
  "sectors content start n = concat (map content [start..<start + n])"

definition delivers_at :: "cd_device \<Rightarrow> u16 \<Rightarrow> (nat \<Rightarrow> u8 list) \<Rightarrow> nat \<Rightarrow> u32 \<Rightarrow> u32 \<Rightarrow> bool" where
  "delivers_at src m content start off n \<longleftrightarrow>
    (\<forall>b. \<exists>b'. ss_read_sectors src off n m b = Some (CDROM_ERROR_OK, b', length (sectors content start (unat n))) \<and>
       bytes b' 0 (length (sectors content start (unat n))) = sectors content start (unat n))"

definition disc_delivers :: "cdrom_disc \<Rightarrow> u16 \<Rightarrow> (nat \<Rightarrow> u8 list) \<Rightarrow> u32 \<Rightarrow> u32 \<Rightarrow> bool" where
  "disc_delivers disc m content lo hi \<longleftrightarrow>
    (\<forall>l n i. lo \<le> l \<and> 0 < unat n \<and> unat l + unat n \<le> unat hi \<and> in_track disc l i \<and> unat l + unat n \<le> unat (track_end disc i) \<longrightarrow>
       (\<exists>src. track_source (tracks disc ! i) = Some src \<and>
          delivers_at src m content (unat l) (l - track_lba (tracks disc ! i)) n))"

lemma sectors_add: "sectors content start (a + b) = sectors content start a @ sectors content (start + a) b"
  using upt_add_eq_append [of start "start + a" b] by (simp add: sectors_def add.assoc)

lemma sub_count_in_track:
  assumes "numbered disc" "in_track disc l i" "0 < unat left"
  shows "0 < unat (sub_count disc (tracks disc ! i) l left)"
    and "unat (sub_count disc (tracks disc ! i) l left) \<le> unat left"
    and "unat l + unat (sub_count disc (tracks disc ! i) l left) \<le> unat (track_end disc i)"
proof -
  have i: "i < unat (track_count disc)" and le: "track_lba (tracks disc ! i) \<le> l" and lt: "l < track_end disc i"
    using assms(2) by (auto simp: in_track_def)
  have rest: "cdrom_disc_get_track_size disc (tracks disc ! i) - (l - track_lba (tracks disc ! i)) = track_end disc i - l"
    by (simp add: track_size_end [OF assms(1) i])
  have u: "unat (track_end disc i - l) = unat (track_end disc i) - unat l"
    using lt by (simp add: unat_sub)
  have lt': "unat l < unat (track_end disc i)" using lt by (simp add: word_less_nat_alt)
  show "0 < unat (sub_count disc (tracks disc ! i) l left)"
    and "unat (sub_count disc (tracks disc ! i) l left) \<le> unat left"
    and "unat l + unat (sub_count disc (tracks disc ! i) l left) \<le> unat (track_end disc i)"
    using assms(3) lt' by (auto simp: sub_count_def rest Let_def u word_less_nat_alt)
qed

lemma read_at_delivers:
  assumes "delivers_at src m content start off n"
  shows "\<exists>b'. read_at len (ss_read_sectors src off n m) b =
      Some (CDROM_ERROR_OK, b', length (sectors content start (unat n))) \<and>
    bytes b' 0 (len + length (sectors content start (unat n))) = bytes b 0 len @ sectors content start (unat n)"
proof -
  obtain c where c: "ss_read_sectors src off n m (\<lambda>j. b (len + j)) =
      Some (CDROM_ERROR_OK, c, length (sectors content start (unat n)))"
    and cb: "bytes c 0 (length (sectors content start (unat n))) = sectors content start (unat n)"
    using assms by (auto simp: delivers_at_def)
  have "bytes (at_offset len (\<lambda>_. c) b) 0 len = bytes b 0 len"
    by (auto simp: bytes_def at_offset_def)
  moreover have "bytes (at_offset len (\<lambda>_. c) b) len k = bytes c 0 k" for k
    by (auto simp: bytes_def at_offset_def)
  ultimately show ?thesis
    using bytes_append [of "at_offset len (\<lambda>_. c) b" 0 len "length (sectors content start (unat n))"] cb
    by (auto simp: read_at_def c)
qed

lemma image_loop_reads:
  assumes "numbered disc" "disc_delivers disc m content lba (lba + count)"
    and "track_lba (tracks disc ! 0) \<le> lba" "unat lba + unat count \<le> unat (leadout disc)" "current \<le> count"
  shows "\<exists>out. image_loop disc lba count m current len b = Some (CDROM_ERROR_OK, out,
      len + length (sectors content (unat lba + unat current) (unat count - unat current))) \<and>
    bytes out 0 (len + length (sectors content (unat lba + unat current) (unat count - unat current))) =
      bytes b 0 len @ sectors content (unat lba + unat current) (unat count - unat current)"
  using assms(5)
proof (induction "unat count - unat current" arbitrary: current len b rule: less_induct)
  case less
  show ?case
  proof (cases "current < count")
    case False
    then have "current = count" using less.prems by simp
    then show ?thesis by (simp add: image_loop.simps sectors_def)
  next
    case True
    let ?l = "lba + current" and ?left = "count - current"
    have lt: "unat current < unat count" using True by (simp add: word_less_nat_alt)
    have small: "unat lba + unat count < 2 ^ 32" using assms(4) unat_less_exp [of "leadout disc"] by linarith
    have hi: "unat (lba + count) = unat lba + unat count" using small by (simp add: unat_word_ariths(1))
    have l: "unat ?l = unat lba + unat current" using small lt by (simp add: unat_word_ariths(1))
    have left: "unat ?left = unat count - unat current" using True by (simp add: unat_sub)
    have "on_disc disc ?l"
      using assms(3,4) l lt by (simp add: on_disc_def word_less_nat_alt word_le_nat_alt)
    then obtain i where i: "in_track disc ?l i" and t: "cdrom_disc_get_track_by_lba disc ?l = Some (tracks disc ! i)"
      using track_by_lba_found [OF assms(1)] by blast
    define n where "n = sub_count disc (tracks disc ! i) ?l ?left"
    have n: "0 < unat n" "unat n \<le> unat count - unat current" "unat ?l + unat n \<le> unat (track_end disc i)"
      using sub_count_in_track [OF assms(1) i, of ?left] lt left by (simp_all add: n_def)
    have "lba \<le> ?l" using l by (simp add: word_le_nat_alt)
    moreover have "unat ?l + unat n \<le> unat (lba + count)" using n(2) l hi lt by linarith
    ultimately obtain src where src: "track_source (tracks disc ! i) = Some src"
      and d: "delivers_at src m content (unat ?l) (?l - track_lba (tracks disc ! i)) n"
      using assms(2) i n(1,3) unfolding disc_delivers_def by blast
    define bs where "bs = sectors content (unat ?l) (unat n)"
    obtain b' where b': "read_at len (ss_read_sectors src (?l - track_lba (tracks disc ! i)) n m) b =
        Some (CDROM_ERROR_OK, b', length bs)" "bytes b' 0 (len + length bs) = bytes b 0 len @ bs"
      using read_at_delivers [OF d, of len b] unfolding bs_def by blast
    have cn: "unat (current + n) = unat current + unat n"
      using n(2) lt unat_less_exp [of count] by (simp add: unat_word_ariths(1))
    have step: "image_loop disc lba count m current len b = image_loop disc lba count m (current + n) (len + length bs) b'"
      by (subst image_loop.simps) (simp add: True t src b'(1) n_def [symmetric])
    have "unat count - unat (current + n) < unat count - unat current" "current + n \<le> count"
      using cn n lt by (auto simp: word_le_nat_alt)
    from less.hyps [OF this, of "len + length bs" b']
    obtain out where out: "image_loop disc lba count m (current + n) (len + length bs) b' = Some (CDROM_ERROR_OK, out,
        len + length bs + length (sectors content (unat lba + unat (current + n)) (unat count - unat (current + n))))"
      "bytes out 0 (len + length bs + length (sectors content (unat lba + unat (current + n)) (unat count - unat (current + n)))) =
        bytes b' 0 (len + length bs) @ sectors content (unat lba + unat (current + n)) (unat count - unat (current + n))"
      by blast
    have "unat count - unat current = unat n + (unat count - unat (current + n))" using cn n(2) by linarith
    then have all: "sectors content (unat lba + unat current) (unat count - unat current) =
        bs @ sectors content (unat lba + unat (current + n)) (unat count - unat (current + n))"
      by (simp add: sectors_add bs_def l cn add.assoc)
    show ?thesis unfolding step all using out b'(2) by (simp add: add.assoc)
  qed
qed

text \<open>
  C37: A read anywhere on the disc, also across the borders of tracks, returns the contents of the
  sectors in order.
\<close>

theorem cd_read_across_tracks:
  assumes "numbered disc" "disc_delivers disc m content lba (lba + count)"
    and "track_lba (tracks disc ! 0) \<le> lba" "unat lba + unat count \<le> unat (leadout disc)"
  shows "\<exists>out. cdrom_disc_read_sectors disc lba count m b =
      Some (CDROM_ERROR_OK, out, length (sectors content (unat lba) (unat count))) \<and>
    bytes out 0 (length (sectors content (unat lba) (unat count))) = sectors content (unat lba) (unat count)"
  using image_loop_reads [OF assms, of 0 0 b]
  by (simp add: cdrom_disc_read_sectors_def default_image_read_sectors_def bytes_def)

section \<open>The loop returns\<close>

definition sources_return :: "cdrom_disc \<Rightarrow> bool" where
  "sources_return disc \<longleftrightarrow> (\<forall>i<unat (track_count disc). \<exists>src. track_source (tracks disc ! i) = Some src \<and>
     (\<forall>off n m b. ss_read_sectors src off n m b \<noteq> None))"

lemma image_loop_returns:
  assumes "numbered disc" "sources_return disc"
  shows "\<exists>r. image_loop disc lba count m current len b = Some r"
proof (induction "unat count - unat current" arbitrary: current len b rule: less_induct)
  case less
  let ?l = "lba + current" and ?left = "count - current"
  show ?case
  proof (cases "current < count \<and> on_disc disc ?l")
    case False
    then show ?thesis
      by (subst image_loop.simps) (auto simp: on_disc_def cdrom_disc_get_track_by_lba_def)
  next
    case True
    then obtain i where i: "in_track disc ?l i" and t: "cdrom_disc_get_track_by_lba disc ?l = Some (tracks disc ! i)"
      using track_by_lba_found [OF assms(1)] by blast
    have lt: "unat current < unat count" using True by (simp add: word_less_nat_alt)
    have left: "unat ?left = unat count - unat current" by (rule unat_sub) (use True in \<open>simp add: less_imp_le\<close>)
    define n where "n = sub_count disc (tracks disc ! i) ?l ?left"
    have n: "0 < unat n" "unat n \<le> unat count - unat current"
      using sub_count_in_track [OF assms(1) i, of ?left] lt left by (simp_all add: n_def)
    have cn: "unat (current + n) = unat current + unat n"
      using n(2) lt unat_less_exp [of count] by (simp add: unat_word_ariths(1))
    obtain src where src: "track_source (tracks disc ! i) = Some src" "\<forall>off n m b. ss_read_sectors src off n m b \<noteq> None"
      using assms(2) i unfolding sources_return_def in_track_def by blast
    then obtain r where r: "read_at len (ss_read_sectors src (?l - track_lba (tracks disc ! i)) n m) b = Some r"
      unfolding read_at_def by fastforce
    have "unat count - unat (current + n) < unat count - unat current" using cn n lt by linarith
    from less.hyps [OF this, of "len + snd (snd r)" "fst (snd r)"] show ?thesis
      using True t src(1) r by (subst image_loop.simps) (auto simp: n_def)
  qed
qed

text \<open>
  Reading from a disc returns, whatever the table of contents says, if every track has a source
  that returns.
\<close>

theorem cd_read_returns:
  assumes "numbered disc" "sources_return disc"
  shows "\<exists>err out n. cdrom_disc_read_sectors disc lba count m b = Some (err, out, n)"
  using image_loop_returns [OF assms, of lba count m 0 0 b]
  by (auto simp: cdrom_disc_read_sectors_def default_image_read_sectors_def)

section \<open>The last track and the type of a disc\<close>

text \<open>
  The last track cannot be reached by its number, nor as the next one of the track before it.
\<close>

theorem cd_last_track_unreachable:
  assumes "numbered disc"
  shows "cdrom_disc_get_track disc (track_count disc) = None \<and>
    (1 < unat (track_count disc) \<longrightarrow>
       cdrom_disc_next_track disc (tracks disc ! (unat (track_count disc) - 2)) = None) \<and>
    cdrom_disc_get_last_track disc = Some (tracks disc ! (unat (track_count disc) - 1))"
proof -
  let ?n = "unat (track_count disc)"
  have "trackno (tracks disc ! (?n - 2)) + 1 = track_count disc" if "1 < ?n"
  proof -
    have "trackno (tracks disc ! (?n - 2)) = of_nat (?n - 2) + 1" using assms that by (simp add: numbered_def)
    moreover have "of_nat (?n - 2) + 1 + 1 = (of_nat (Suc (Suc (?n - 2))) :: u8)" by simp
    moreover have "Suc (Suc (?n - 2)) = ?n" using that by simp
    ultimately show ?thesis by simp
  qed
  then show ?thesis
    using assms by (auto simp: cdrom_disc_get_track_def cdrom_disc_next_track_def cdrom_disc_get_last_track_def
      last_track_def numbered_def)
qed

text \<open>
  A disc of audio tracks is classified as an XA data disc, because of the precedence of the
  operators in the test of the data flag.
\<close>

theorem cd_audio_disc_type:
  assumes "0 < unat (track_count disc)" "unat (track_count disc) \<le> length (tracks disc)"
    and "\<forall>t \<in> set (used_tracks disc). track_flags t = 0 \<and> (\<exists>src. track_source t = Some src \<and> ss_mode src = SECTOR_CDDA)"
  shows "disc_type (cdrom_disc_set_default_disc_type disc) = CDROM_DISC_XA"
proof -
  obtain t ts where "used_tracks disc = t # ts"
    using assms(1,2) by (cases "used_tracks disc") (auto simp: used_tracks_def)
  then show ?thesis
    using assms(3) by (auto simp: cdrom_disc_set_default_disc_type_def TRACK_FLAG_DATA_def)
qed

section \<open>A disc of two tracks\<close>

definition audio_device :: "u32 \<Rightarrow> cd_device" where
  "audio_device n = sector_source_init plain_codec (\<lambda>_. 0) (null_sector_source_new SECTOR_CDDA n)"

definition audio_disc :: cdrom_disc where
  "audio_disc = cdrom_disc_new\<lparr>track_count := 2, session_count := 1, leadout := 200, tracks :=
     [\<lparr>trackno = 1, sessionno = 1, track_lba = 0, track_flags = 0, track_source = Some (audio_device 100)\<rparr>,
      \<lparr>trackno = 2, sessionno = 1, track_lba = 100, track_flags = 0, track_source = Some (audio_device 100)\<rparr>] @
     map empty_track [2..<99]\<rparr>"

lemma audio_disc_tracks:
  "i < 2 \<Longrightarrow> tracks audio_disc ! i = \<lparr>trackno = of_nat i + 1, sessionno = 1, track_lba = of_nat (100 * i), track_flags = 0,
    track_source = Some (audio_device 100)\<rparr>"
  by (cases "i = 0"; cases "i = 1") (auto simp: audio_disc_def)

lemma audio_disc_simps [simp]:
  "track_count audio_disc = 2" "leadout audio_disc = 200" "length (tracks audio_disc) = 99"
  by (simp_all add: audio_disc_def)

lemma audio_disc_numbered: "numbered audio_disc"
  by (simp add: numbered_def audio_disc_tracks CDROM_MAX_TRACKS_def)

lemma zeros: "concat (map (\<lambda>_. replicate k x) xs) = replicate (length xs * k) x"
  by (induction xs) (simp_all add: replicate_add)

lemma audio_device_delivers:
  assumes "unat off + unat n \<le> 100" "0 < unat n"
  shows "delivers_at (audio_device 100) 0x1004 (\<lambda>_. replicate 2352 0) start off n"
proof -
  have k: "unat (n * 2352) = unat n * 2352"
    using assms unat_product [of n 2352] by simp
  have "unat (off + n) = unat off + unat n" using assms by (simp add: unat_word_ariths(1))
  then have c: "CHECK_READ (null_sector_source_new SECTOR_CDDA 100) off n"
    using assms by (auto simp: CHECK_READ_def null_sector_source_new_def word_less_nat_alt word_le_nat_alt)
  have "default_sector_source_read_sectors plain_codec (null_sector_source_new SECTOR_CDDA 100) off n 0x1004 (\<lambda>_. 0) b =
      Some (CDROM_ERROR_OK, put 0 (replicate (unat n * 2352) 0) b, Some (unat n * 2352))" for b
    using c by (simp add: default_sector_source_read_sectors_def Let_def null_sector_source_new_def
      null_sector_source_read_def cd_read_defs k)
  moreover have "bytes (put 0 (replicate (unat n * 2352) 0) b) 0 (unat n * 2352) = replicate (unat n * 2352) 0" for b
    by (rule put_bytes) simp
  ultimately show ?thesis
    by (simp add: delivers_at_def audio_device_def sector_source_init_def sector_source.defs sectors_def zeros)
qed

lemma audio_disc_delivers: "disc_delivers audio_disc 0x1004 (\<lambda>_. replicate 2352 0) lo hi"
proof (unfold disc_delivers_def, intro allI impI, elim conjE)
  fix l n :: u32 and i
  assume n: "0 < unat n" and i: "in_track audio_disc l i" and e: "unat l + unat n \<le> unat (track_end audio_disc i)"
  have i2: "i < 2" "track_lba (tracks audio_disc ! i) \<le> l" using i by (simp_all add: in_track_def)
  then have "i = 0 \<or> i = 1" by auto
  then have b: "unat (track_end audio_disc i) = 100 * i + 100" "unat (of_nat (100 * i) :: u32) = 100 * i"
    by (auto simp: track_end_def audio_disc_tracks)
  have "of_nat (100 * i) \<le> l" using i2 by (simp add: audio_disc_tracks)
  moreover from this have "100 * i \<le> unat l" using b(2) by (simp only: word_le_nat_alt)
  ultimately have "unat (l - of_nat (100 * i)) = unat l - 100 * i" "100 * i \<le> unat l" using b(2) by (simp_all add: unat_sub)
  then have "unat (l - of_nat (100 * i)) + unat n \<le> 100" using e b(1) n by linarith
  then show "\<exists>src. track_source (tracks audio_disc ! i) = Some src \<and>
      delivers_at src 0x1004 (\<lambda>_. replicate 2352 0) (unat l) (l - track_lba (tracks audio_disc ! i)) n"
    using n i2(1) by (auto simp: audio_disc_tracks intro: audio_device_delivers)
qed

theorem cd_read_across_tracks_witness:
  "\<exists>out. cdrom_disc_read_sectors audio_disc 90 20 0x1004 (\<lambda>_. 5) =
      Some (CDROM_ERROR_OK, out, length (sectors (\<lambda>_. replicate 2352 0) 90 20)) \<and>
    bytes out 0 (length (sectors (\<lambda>_. replicate 2352 0) 90 20)) = sectors (\<lambda>_. replicate 2352 0) 90 20"
  using cd_read_across_tracks [OF audio_disc_numbered audio_disc_delivers, of 90 20 "\<lambda>_. 5"]
  by (simp add: audio_disc_tracks)

theorem cd_track_by_lba_witness:
  "\<exists>i. in_track audio_disc 150 i \<and> cdrom_disc_get_track_by_lba audio_disc 150 = Some (tracks audio_disc ! i)"
  using cd_track_by_lba [OF audio_disc_numbered, of 150] by (simp add: on_disc_def audio_disc_tracks)

lemma audio_disc_returns: "sources_return audio_disc"
proof -
  have "default_sector_source_read_sectors codec (null_sector_source_new SECTOR_CDDA c) off n m t b \<noteq> None" for codec c off n m t b
    by (simp add: default_sector_source_read_sectors_def Let_def null_sector_source_new_def)
  then show ?thesis
    by (auto simp: sources_return_def audio_disc_tracks audio_device_def sector_source_init_def sector_source.defs)
qed

theorem cd_read_returns_witness:
  "\<exists>err out n. cdrom_disc_read_sectors audio_disc 190 20 0x1004 (\<lambda>_. 0) = Some (err, out, n)"
  by (rule cd_read_returns [OF audio_disc_numbered audio_disc_returns])

theorem cd_last_track_unreachable_witness:
  "cdrom_disc_get_track audio_disc 2 = None"
  using cd_last_track_unreachable [OF audio_disc_numbered] by simp

theorem cd_audio_disc_type_witness:
  "disc_type (cdrom_disc_set_default_disc_type audio_disc) = CDROM_DISC_XA"
proof (rule cd_audio_disc_type)
  have "used_tracks audio_disc = map (\<lambda>i. tracks audio_disc ! i) [0, 1]"
    by (auto simp: used_tracks_def audio_disc_def)
  then show "\<forall>t \<in> set (used_tracks audio_disc). track_flags t = 0 \<and> (\<exists>src. track_source t = Some src \<and> ss_mode src = SECTOR_CDDA)"
    by (auto simp: audio_disc_tracks audio_device_def sector_source_init_def sector_source.defs null_sector_source_new_def)
qed simp_all

end
