(* ===== verification/Gdrom.thy ===== *)
theory Gdrom
  imports CdDisc
begin

unbundle bit_operations_syntax

text \<open>
  The GD-ROM drive, \<open>gdrom/gdrom.c\<close>: the answers that the drive gives about the mounted disc,
  in the layout of the drive's packets, and the read command. The drive is the disc that is
  mounted, if any. The callbacks of the disc (media check, audio) are arguments. Reference
  counts, the disc-change hooks and the title of the disc are left out.
\<close>

section \<open>Byte order\<close>

definition byte_of :: "nat \<Rightarrow> u32 \<Rightarrow> u8" where
  "byte_of i w = ucast (drop_bit (8 * i) w)"

definition htonl :: "u32 \<Rightarrow> u32" where
  "htonl w = push_bit 24 (ucast (byte_of 0 w)) OR push_bit 16 (ucast (byte_of 1 w)) OR
     push_bit 8 (ucast (byte_of 2 w)) OR ucast (byte_of 3 w)"

text \<open>A 32-bit word in the memory of a little-endian host.\<close>

definition le32 :: "u32 \<Rightarrow> u8 list" where
  "le32 w = map (\<lambda>i. byte_of i w) [0, 1, 2, 3]"

section \<open>The drive\<close>

definition GDROM_LBA_OFFSET :: u32 where "GDROM_LBA_OFFSET = 150"
definition IDE_DISC_READY :: u8 where "IDE_DISC_READY = 0x01"

text \<open>The macro \<open>CHECK_DISC\<close>: \<open>None\<close> where it returns \<open>CDROM_ERROR_NODISC\<close>.\<close>

definition CHECK_DISC :: "cdrom_disc option \<Rightarrow> cdrom_disc option" where
  "CHECK_DISC drive = (case drive of None \<Rightarrow> None | Some d \<Rightarrow> if disc_type d = CDROM_DISC_NONE then None else Some d)"

definition gdrom_check_media :: "cdrom_disc option \<Rightarrow> u32" where
  "gdrom_check_media drive = (if CHECK_DISC drive = None then CDROM_ERROR_NODISC else CDROM_ERROR_OK)"

definition toc_entry :: "u32 \<Rightarrow> u8 \<Rightarrow> u32" where
  "toc_entry lba flags = htonl (lba + GDROM_LBA_OFFSET) OR ucast flags"

text \<open>
  The table: 99 entries, then the words \<open>first\<close>, \<open>last\<close> and \<open>leadout\<close>. \<open>None\<close> is the access
  to \<open>track[-1]\<close> of a disc without tracks.
\<close>

definition gdrom_toc :: "cdrom_disc \<Rightarrow> u32 list" where
  "gdrom_toc disc =
    (let n = unat (track_count disc)
     in map (\<lambda>t. toc_entry (track_lba t) (track_flags t)) (used_tracks disc) @ replicate (99 - n) 0xFFFFFFFF @
        [0x0100 OR ucast (track_flags (tracks disc ! 0)),
         push_bit 8 (ucast (track_count disc)) OR ucast (track_flags (last_track disc)),
         toc_entry (leadout disc) (track_flags (last_track disc))])"

definition gdrom_read_toc :: "cdrom_disc option \<Rightarrow> buf \<Rightarrow> (u32 \<times> buf) option" where
  "gdrom_read_toc drive b =
    (case CHECK_DISC drive of
       None \<Rightarrow> Some (CDROM_ERROR_NODISC, b)
     | Some disc \<Rightarrow>
         if track_count disc = 0 then None
         else Some (CDROM_ERROR_OK, put 0 (concat (map le32 (gdrom_toc disc))) b))"

text \<open>The 24 low bits of an address, the high byte first.\<close>

definition lba_bytes :: "u32 \<Rightarrow> u8 list" where
  "lba_bytes lba = [byte_of 2 lba, byte_of 1 lba, byte_of 0 lba]"

definition gdrom_read_session :: "cdrom_disc option \<Rightarrow> int \<Rightarrow> buf \<Rightarrow> u32 \<times> buf" where
  "gdrom_read_session drive session b =
    (case CHECK_DISC drive of
       None \<Rightarrow> (CDROM_ERROR_NODISC, b)
     | Some disc \<Rightarrow>
         if session = 0 then
           (CDROM_ERROR_OK, put 0 ([0x01, 0, session_count disc] @ lba_bytes (leadout disc + GDROM_LBA_OFFSET)) b)
         else case cdrom_disc_get_session disc session of
                None \<Rightarrow> (CDROM_ERROR_BADFIELD, put 0 [0x01, 0] b)
              | Some track \<Rightarrow>
                  (CDROM_ERROR_OK, put 0 ([0x01, 0, trackno track] @ lba_bytes (track_lba track + GDROM_LBA_OFFSET)) b))"

definition short_status_bytes :: "cdrom_track \<Rightarrow> u32 \<Rightarrow> u32 \<Rightarrow> u8 list" where
  "short_status_bytes track real_lba lba =
    [0x00, 0x15, 0x00, 0x0E, track_flags track, trackno track, 0x01] @ lba_bytes (real_lba - track_lba track) @
    [0] @ lba_bytes lba"

definition gdrom_read_short_status :: "cdrom_disc option \<Rightarrow> u32 \<Rightarrow> buf \<Rightarrow> u32 \<times> buf" where
  "gdrom_read_short_status drive lba b =
    (case CHECK_DISC drive of
       None \<Rightarrow> (CDROM_ERROR_NODISC, b)
     | Some disc \<Rightarrow>
         let real_lba = lba - GDROM_LBA_OFFSET
         in case cdrom_disc_get_track_by_lba disc real_lba of
              Some track \<Rightarrow> (CDROM_ERROR_OK, put 0 (short_status_bytes track real_lba lba) b)
            | None \<Rightarrow>
                (case cdrom_disc_get_track disc 1 of
                   None \<Rightarrow> (CDROM_ERROR_NODISC, b)
                 | Some track \<Rightarrow> (CDROM_ERROR_OK, put 0 (short_status_bytes track real_lba 150) b)))"

text \<open>The drive after the media check, and the status. The code compares an error code with a disc type.\<close>

definition gdrom_get_drive_status :: "(cdrom_disc \<Rightarrow> cdrom_disc) \<Rightarrow> cdrom_disc option \<Rightarrow> cdrom_disc option \<times> u8" where
  "gdrom_get_drive_status check drive =
    (case drive of
       None \<Rightarrow> (None, CDROM_DISC_NONE)
     | Some d \<Rightarrow>
         if snd (cdrom_disc_check_media check drive) = ucast CDROM_DISC_NONE then (Some (check d), CDROM_DISC_NONE)
         else (Some (check d), disc_type (check d) OR IDE_DISC_READY))"

definition gdrom_play_audio :: "(u32 \<Rightarrow> u32 \<Rightarrow> u32) option \<Rightarrow> cdrom_disc option \<Rightarrow> u32 \<Rightarrow> u32 \<Rightarrow> u32" where
  "gdrom_play_audio play drive lba count =
    (case CHECK_DISC drive of
       None \<Rightarrow> CDROM_ERROR_NODISC
     | Some _ \<Rightarrow> (case play of Some f \<Rightarrow> f (lba - GDROM_LBA_OFFSET) count | None \<Rightarrow> CDROM_ERROR_BADFIELD))"

section \<open>The read command\<close>

text \<open>The read mode of the drive in the terms of the MMC standard.\<close>

definition gdrom_real_mode :: "u32 \<Rightarrow> u16" where
  "gdrom_real_mode m =
    (let fields = (if m AND 0x10 \<noteq> 0 then CDROM_READ_RAW
                   else (if m AND 0x80 \<noteq> 0 then CDROM_READ_HEADER OR CDROM_READ_SYNC else 0) OR
                        (if m AND 0x40 \<noteq> 0 then CDROM_READ_SUBHEADER else 0) OR
                        (if m AND 0x20 \<noteq> 0 then CDROM_READ_DATA else 0))
     in fields OR (if m AND 0x0E = 0x0C then CDROM_READ_MODE2 else ucast (push_bit 1 (m AND 0x0E))))"

text \<open>The length is only meant where the error code is 0.\<close>

definition gdrom_read_cd :: "cdrom_disc option \<Rightarrow> u32 \<Rightarrow> u32 \<Rightarrow> u32 \<Rightarrow> buf \<Rightarrow> (u32 \<times> buf \<times> nat) option" where
  "gdrom_read_cd drive lba count m b =
    (case CHECK_DISC drive of
       None \<Rightarrow> Some (CDROM_ERROR_NODISC, b, 0)
     | Some disc \<Rightarrow> cdrom_disc_read_sectors disc (lba - 150) count (gdrom_real_mode m) b)"

section \<open>The boot track\<close>

text \<open>The loop with \<open>i + 1\<close> tracks left.\<close>

fun boot_loop :: "cdrom_track list \<Rightarrow> u8 \<Rightarrow> nat \<Rightarrow> int \<Rightarrow> int" where
  "boot_loop ts session 0 boot = boot"
| "boot_loop ts session (Suc i) boot =
    (if sessionno (ts ! i) = session
     then boot_loop ts session i (if track_flags (ts ! i) AND TRACK_FLAG_DATA \<noteq> 0 then int i else boot)
     else boot)"

text \<open>The index of the track; \<open>None\<close> is the null pointer, \<open>Some (-1)\<close> the address of \<open>track[-1]\<close>.\<close>

definition gdrom_disc_get_boot_track :: "cdrom_disc option \<Rightarrow> int option" where
  "gdrom_disc_get_boot_track drive =
    (case drive of
       None \<Rightarrow> Some (- 1)
     | Some disc \<Rightarrow>
         if track_count disc = 0 then Some (- 1)
         else if sessionno (last_track disc) = 1 then None
         else Some (boot_loop (tracks disc) (sessionno (last_track disc)) (unat (track_count disc)) (- 1)))"

section \<open>The table of contents, read back\<close>

lemma byte_of_htonl: "i < 4 \<Longrightarrow> byte_of i (htonl w) = byte_of (3 - i) w"
proof -
  assume "i < 4"
  then have "i = 0 \<or> i = 1 \<or> i = 2 \<or> i = 3" by linarith
  then show ?thesis
    by (elim disjE) (auto intro!: bit_eqI simp: byte_of_def htonl_def bit_simps)
qed

text \<open>What a program reads from four bytes of the table: the flags and the address.\<close>

definition read_entry :: "u8 list \<Rightarrow> u8 \<times> u32" where
  "read_entry bs = (bs ! 0, (push_bit 16 (ucast (bs ! 1)) OR push_bit 8 (ucast (bs ! 2)) OR ucast (bs ! 3)) - 150)"

lemma byte_of_or: "byte_of i (v OR w) = byte_of i v OR byte_of i w"
  by (rule bit_eqI) (auto simp: byte_of_def bit_simps)

lemma u8_high: "8 \<le> n \<Longrightarrow> \<not> bit f n" for f :: u8
  using bit_imp_le_length [of f n] by auto

lemma byte_of_u8: "byte_of i (ucast (f :: u8)) = (if i = 0 then f else 0)"
  by (rule bit_eqI) (auto simp: byte_of_def bit_simps u8_high)

lemma byte_of_push: "i < 4 \<Longrightarrow> byte_of i (push_bit 8 (ucast (f :: u8))) = (if i = 1 then f else 0)"
proof -
  assume "i < 4"
  then have "i = 0 \<or> i = 1 \<or> i = 2 \<or> i = 3" by linarith
  then show ?thesis
    by (elim disjE) (auto intro!: bit_eqI simp: byte_of_def bit_simps u8_high)
qed

lemma small_drop:
  assumes "unat w < 2 ^ 24"
  shows "drop_bit 24 w = (0 :: u32)"
proof -
  have "drop_bit 24 (unat w) = 0" using assms by (simp add: drop_bit_eq_div)
  then have "unat (drop_bit 24 w) = 0" by (simp only: unat_drop_bit_eq)
  then show ?thesis by (simp only: unat_eq_zero)
qed

lemma byte_of_small: "unat w < 2 ^ 24 \<Longrightarrow> byte_of 3 w = 0"
  by (simp add: byte_of_def small_drop)

lemma toc_entry_bytes:
  assumes "unat lba + 150 < 2 ^ 24"
  shows "le32 (toc_entry lba flags) = flags # lba_bytes (lba + 150)"
proof -
  have "unat (lba + 150) < 2 ^ 24" using assms by (simp add: unat_word_ariths(1))
  then show ?thesis
    by (simp add: le32_def toc_entry_def byte_of_or byte_of_u8 byte_of_htonl byte_of_small lba_bytes_def GDROM_LBA_OFFSET_def)
qed

lemma lba_bytes_back:
  assumes "unat w < 2 ^ 24"
  shows "push_bit 16 (ucast (byte_of 2 w)) OR push_bit 8 (ucast (byte_of 1 w)) OR ucast (byte_of 0 w) = w" (is "?v = w")
proof -
  have "bit (drop_bit 24 w) (n - 24) \<longleftrightarrow> bit w n" if "24 \<le> n" for n
    using that by (simp add: bit_drop_bit_eq)
  then have high: "\<not> bit w n" if "24 \<le> n" for n
    using that small_drop [OF assms] by simp
  show ?thesis
  proof (rule bit_eqI)
    fix n :: nat
    consider "n < 8" | "8 \<le> n" "n < 16" | "16 \<le> n" "n < 24" | "24 \<le> n" by linarith
    then show "bit ?v n = bit w n"
      by cases (auto simp: byte_of_def bit_simps high)
  qed
qed

lemma read_entry_bytes:
  assumes "unat lba + 150 < 2 ^ 24"
  shows "read_entry (le32 (toc_entry lba flags)) = (flags, lba)"
proof -
  have "unat (lba + 150) < 2 ^ 24" using assms by (simp add: unat_word_ariths(1))
  from lba_bytes_back [OF this] show ?thesis
    by (simp add: toc_entry_bytes [OF assms] read_entry_def lba_bytes_def)
qed

lemma gdrom_toc_length: "numbered disc \<Longrightarrow> length (gdrom_toc disc) = 102"
  by (simp add: gdrom_toc_def Let_def used_tracks_length) (simp add: numbered_def CDROM_MAX_TRACKS_def)

lemma gdrom_toc_tail:
  assumes "numbered disc"
  shows "drop 99 (gdrom_toc disc) = [0x0100 OR ucast (track_flags (tracks disc ! 0)),
         push_bit 8 (ucast (track_count disc)) OR ucast (track_flags (last_track disc)),
         toc_entry (leadout disc) (track_flags (last_track disc))]"
proof -
  have "unat (track_count disc) \<le> 99" using assms by (simp add: numbered_def CDROM_MAX_TRACKS_def)
  then show ?thesis by (simp add: gdrom_toc_def Let_def used_tracks_length [OF assms])
qed

lemma gdrom_toc_last:
  assumes "numbered disc"
  shows "gdrom_toc disc ! 100 = push_bit 8 (ucast (track_count disc)) OR ucast (track_flags (last_track disc))"
    and "gdrom_toc disc ! 101 = toc_entry (leadout disc) (track_flags (last_track disc))"
  using gdrom_toc_length [OF assms] nth_drop [of 99 "gdrom_toc disc" 1] nth_drop [of 99 "gdrom_toc disc" 2]
  by (simp_all add: gdrom_toc_tail [OF assms])

lemma le32_length [simp]: "length (le32 w) = 4"
  by (simp add: le32_def)

lemma bytes_concat_le32:
  assumes "i < length ws"
  shows "bytes (put 0 (concat (map le32 ws)) b) (4 * i) 4 = le32 (ws ! i)"
proof -
  have "take 4 (drop (4 * i) (concat (map le32 ws))) = le32 (ws ! i)"
    using assms
  proof (induction ws arbitrary: i)
    case Nil
    then show ?case by simp
  next
    case (Cons w ws)
    then show ?case by (cases i) simp_all
  qed
  moreover have len: "length (concat (map le32 ws)) = 4 * length ws"
    by (induction ws) simp_all
  then have "bytes (put 0 (concat (map le32 ws)) b) (4 * i) 4 = take 4 (drop (4 * i) (concat (map le32 ws)))"
    using assms by (intro nth_equalityI) (auto simp: bytes_def put_def)
  ultimately show ?thesis by simp
qed

text \<open>
  C39: A program that reads the table of contents back gets the flags and the address of every track
  and of the lead-out, the number of tracks, and entries of ones for the other tracks.
\<close>

theorem gdrom_toc_roundtrip:
  assumes "numbered disc" "disc_type disc \<noteq> CDROM_DISC_NONE"
    and "\<forall>i<unat (track_count disc). unat (track_lba (tracks disc ! i)) + 150 < 2 ^ 24"
    and "unat (leadout disc) + 150 < 2 ^ 24"
  shows "\<exists>out. gdrom_read_toc (Some disc) b = Some (CDROM_ERROR_OK, out) \<and>
    (\<forall>i<unat (track_count disc).
       read_entry (bytes out (4 * i) 4) = (track_flags (tracks disc ! i), track_lba (tracks disc ! i))) \<and>
    (\<forall>i. unat (track_count disc) \<le> i \<and> i < 99 \<longrightarrow> bytes out (4 * i) 4 = [0xFF, 0xFF, 0xFF, 0xFF]) \<and>
    bytes out 400 4 = [track_flags (last_track disc), track_count disc, 0, 0] \<and>
    read_entry (bytes out 404 4) = (track_flags (last_track disc), leadout disc)"
proof (intro exI conjI allI impI)
  let ?out = "put 0 (concat (map le32 (gdrom_toc disc))) b"
  have n: "0 < unat (track_count disc)" "unat (track_count disc) \<le> 99"
    using assms(1) by (simp_all add: numbered_def CDROM_MAX_TRACKS_def)
  have "track_count disc \<noteq> 0" using n by auto
  then show "gdrom_read_toc (Some disc) b = Some (CDROM_ERROR_OK, ?out)"
    using assms(2) by (simp add: gdrom_read_toc_def CHECK_DISC_def)
  have at: "i < 102 \<Longrightarrow> bytes ?out (4 * i) 4 = le32 (gdrom_toc disc ! i)" for i
    by (rule bytes_concat_le32) (simp add: gdrom_toc_length [OF assms(1)])
  have len: "length (used_tracks disc) = unat (track_count disc)" by (rule used_tracks_length [OF assms(1)])
  show "read_entry (bytes ?out (4 * i) 4) = (track_flags (tracks disc ! i), track_lba (tracks disc ! i))"
    if "i < unat (track_count disc)" for i
    using that n at [of i] assms(3)
    by (simp add: gdrom_toc_def Let_def nth_append len used_tracks_nth [OF assms(1)] read_entry_bytes)
  show "bytes ?out (4 * i) 4 = [0xFF, 0xFF, 0xFF, 0xFF]" if "unat (track_count disc) \<le> i \<and> i < 99" for i
  proof -
    have "i - unat (track_count disc) < 99 - unat (track_count disc)" using that by linarith
    then have "gdrom_toc disc ! i = 0xFFFFFFFF"
      using that by (simp add: gdrom_toc_def Let_def nth_append len)
    then show ?thesis using that at [of i] by (simp add: le32_def byte_of_def)
  qed
  show "read_entry (bytes ?out 404 4) = (track_flags (last_track disc), leadout disc)"
    using at [of 101] by (simp add: gdrom_toc_last [OF assms(1)] read_entry_bytes [OF assms(4)])
  show "bytes ?out 400 4 = [track_flags (last_track disc), track_count disc, 0, 0]"
    using at [of 100] by (simp add: gdrom_toc_last [OF assms(1)] le32_def byte_of_or byte_of_u8 byte_of_push)
qed

theorem gdrom_toc_roundtrip_witness:
  "\<exists>out. gdrom_read_toc (Some (audio_disc\<lparr>disc_type := CDROM_DISC_XA\<rparr>)) (\<lambda>_. 0) = Some (CDROM_ERROR_OK, out) \<and>
    read_entry (bytes out 4 4) = (0, 100)"
proof -
  let ?d = "audio_disc\<lparr>disc_type := CDROM_DISC_XA\<rparr>"
  have d: "numbered ?d" using audio_disc_numbered by (simp add: numbered_def)
  have t: "disc_type ?d \<noteq> CDROM_DISC_NONE" by (simp add: cd_disc_types)
  have s: "\<forall>i<unat (track_count ?d). unat (track_lba (tracks ?d ! i)) + 150 < 2 ^ 24"
  proof (intro allI impI)
    fix i assume "i < unat (track_count ?d)"
    then have "i = 0 \<or> i = 1" by auto
    then show "unat (track_lba (tracks ?d ! i)) + 150 < 2 ^ 24" by (auto simp: audio_disc_tracks)
  qed
  obtain out where out: "gdrom_read_toc (Some ?d) (\<lambda>_. 0) = Some (CDROM_ERROR_OK, out)"
    "\<forall>i<unat (track_count ?d). read_entry (bytes out (4 * i) 4) = (track_flags (tracks ?d ! i), track_lba (tracks ?d ! i))"
    using gdrom_toc_roundtrip [OF d t s, of "\<lambda>_. 0"] by auto
  then show ?thesis using spec [OF out(2), of 1] by (auto simp: audio_disc_tracks)
qed

section \<open>Session, position and status\<close>

text \<open>
  The answer about a session names its first track and where it starts; a session that does not
  exist is an error.
\<close>

theorem gdrom_session_answer:
  assumes "disc_type disc \<noteq> CDROM_DISC_NONE" "session \<noteq> 0"
  shows "if session \<in> (\<lambda>t. uint (sessionno t)) ` set (used_tracks disc)
    then \<exists>i<length (used_tracks disc). uint (sessionno (used_tracks disc ! i)) = session \<and>
      (\<forall>j<i. uint (sessionno (used_tracks disc ! j)) \<noteq> session) \<and>
      gdrom_read_session (Some disc) session b = (CDROM_ERROR_OK, put 0 ([1, 0, trackno (used_tracks disc ! i)] @
        lba_bytes (track_lba (used_tracks disc ! i) + 150)) b)
    else fst (gdrom_read_session (Some disc) session b) = CDROM_ERROR_BADFIELD"
proof (cases "cdrom_disc_get_session disc session")
  case None
  then have "\<forall>t \<in> set (used_tracks disc). uint (sessionno t) \<noteq> session"
    by (auto simp: cdrom_disc_get_session_def find_None_iff)
  then show ?thesis using None assms by (auto simp: gdrom_read_session_def CHECK_DISC_def)
next
  case (Some t)
  then obtain i where i: "i < length (used_tracks disc)" "uint (sessionno (used_tracks disc ! i)) = session"
    "t = used_tracks disc ! i" "\<forall>j<i. uint (sessionno (used_tracks disc ! j)) \<noteq> session"
    by (auto simp: cdrom_disc_get_session_def find_Some_iff)
  then have "session \<in> (\<lambda>t. uint (sessionno t)) ` set (used_tracks disc)" by (auto simp: set_conv_nth)
  then show ?thesis
    using i Some assms by (auto simp: gdrom_read_session_def CHECK_DISC_def GDROM_LBA_OFFSET_def)
qed

theorem gdrom_session_answer_witness:
  "fst (gdrom_read_session (Some (audio_disc\<lparr>disc_type := CDROM_DISC_XA\<rparr>)) 7 (\<lambda>_. 0)) = CDROM_ERROR_BADFIELD"
proof -
  have "set (used_tracks (audio_disc\<lparr>disc_type := CDROM_DISC_XA\<rparr>)) = {tracks audio_disc ! 0, tracks audio_disc ! 1}"
    by (auto simp: used_tracks_def audio_disc_def)
  then show ?thesis
    using gdrom_session_answer [of "audio_disc\<lparr>disc_type := CDROM_DISC_XA\<rparr>" 7 "\<lambda>_. 0"]
    by (simp add: cd_disc_types audio_disc_tracks)
qed

text \<open>
  The short status names the track that holds a sector, and the distance from the start of the
  track.
\<close>

theorem gdrom_position:
  assumes "numbered disc" "disc_type disc \<noteq> CDROM_DISC_NONE" "on_disc disc (lba - 150)"
  shows "\<exists>i. in_track disc (lba - 150) i \<and>
    gdrom_read_short_status (Some disc) lba b = (CDROM_ERROR_OK, put 0 ([0, 0x15, 0, 0x0E, track_flags (tracks disc ! i),
      of_nat i + 1, 1] @ lba_bytes (lba - 150 - track_lba (tracks disc ! i)) @ [0] @ lba_bytes lba) b)"
proof -
  obtain i where i: "in_track disc (lba - 150) i" "cdrom_disc_get_track_by_lba disc (lba - 150) = Some (tracks disc ! i)"
    using track_by_lba_found [OF assms(1,3)] by blast
  then have "trackno (tracks disc ! i) = of_nat i + 1" using assms(1) by (simp add: numbered_def in_track_def)
  then show ?thesis
    using i assms(2) by (intro exI [of _ i]) (simp add: gdrom_read_short_status_def CHECK_DISC_def GDROM_LBA_OFFSET_def
      short_status_bytes_def Let_def)
qed

theorem gdrom_position_witness:
  "fst (gdrom_read_short_status (Some (audio_disc\<lparr>disc_type := CDROM_DISC_XA\<rparr>)) 200 (\<lambda>_. 0)) = CDROM_ERROR_OK"
  using gdrom_position [of "audio_disc\<lparr>disc_type := CDROM_DISC_XA\<rparr>" 200 "\<lambda>_. 0"] audio_disc_numbered
  by (auto simp: numbered_def cd_disc_types on_disc_def audio_disc_tracks)

text \<open>
  A drive whose disc has no media reports itself ready: the code compares an error code with a
  disc type.
\<close>

theorem gdrom_empty_disc_ready:
  assumes "disc_type (check d) = CDROM_DISC_NONE"
  shows "snd (gdrom_get_drive_status check (Some d)) = 7 \<and> snd (gdrom_get_drive_status check None) = 6 \<and>
    gdrom_check_media (Some (check d)) = CDROM_ERROR_NODISC"
  using assms by (simp add: gdrom_get_drive_status_def cdrom_disc_check_media_def cd_errors cd_disc_types IDE_DISC_READY_def
    gdrom_check_media_def CHECK_DISC_def)

theorem gdrom_empty_disc_ready_witness:
  "snd (gdrom_get_drive_status cdrom_disc_clear_toc (Some audio_disc)) = 7"
  using gdrom_empty_disc_ready [of cdrom_disc_clear_toc audio_disc] by (simp add: cdrom_disc_clear_toc_def)

section \<open>The read mode\<close>

text \<open>The 8 sets of fields that a program can ask for without the raw bit.\<close>

lemma gdrom_header_mode:
  "gdrom_real_mode 0x80 = CDROM_READ_SYNC OR CDROM_READ_HEADER"
  by code_simp

text \<open>
  A program that asks for the headers of Mode 2 sectors gets an error, though the combination is
  legal.
\<close>

theorem gdrom_header_refused:
  assumes "mode = SECTOR_MODE2_FORM1 \<or> mode = SECTOR_MODE2_FORM2"
  shows "is_legal_read mode (gdrom_real_mode 0x80) = CDROM_ERROR_OK \<and>
    extract_sector_fields raw mode (CDROM_READ_FIELDS (gdrom_real_mode 0x80)) = Inl CDROM_ERROR_BADFIELD"
proof -
  have "CDROM_READ_FIELDS (gdrom_real_mode 0x80) = CDROM_READ_SYNC OR CDROM_READ_HEADER" by code_simp
  then show ?thesis
    using swapped_cases [OF swapped_bounds assms] swapped_cases [OF swapped_legal assms]
    by (simp add: extract_sector_fields_def gdrom_header_mode)
qed

section \<open>The boot track\<close>

definition is_data :: "cdrom_track \<Rightarrow> bool" where
  "is_data t \<longleftrightarrow> track_flags t AND TRACK_FLAG_DATA \<noteq> 0"

lemma boot_loop_spec:
  assumes "\<forall>j<lo. sessionno (ts ! j) \<noteq> s" "\<forall>j. lo \<le> j \<and> j < n \<longrightarrow> sessionno (ts ! j) = s" "lo \<le> n"
  shows "(\<exists>i. lo \<le> i \<and> i < n \<and> is_data (ts ! i) \<and> (\<forall>j. lo \<le> j \<and> j < i \<longrightarrow> \<not> is_data (ts ! j)) \<and>
      boot_loop ts s n boot = int i) \<or>
    ((\<forall>j. lo \<le> j \<and> j < n \<longrightarrow> \<not> is_data (ts ! j)) \<and> boot_loop ts s n boot = boot)"
  using assms(2,3)
proof (induction n arbitrary: boot)
  case 0
  then show ?case by simp
next
  case (Suc n)
  show ?case
  proof (cases "lo = Suc n")
    case True
    then have "sessionno (ts ! n) \<noteq> s" using assms(1) by simp
    then show ?thesis using True by auto
  next
    case False
    then have le: "lo \<le> n" and s: "sessionno (ts ! n) = s" using Suc.prems by auto
    have "\<forall>j. lo \<le> j \<and> j < n \<longrightarrow> sessionno (ts ! j) = s" using Suc.prems by simp
    from Suc.IH [OF this le, of "if is_data (ts ! n) then int n else boot"]
    show ?thesis
      using s le by (auto simp: is_data_def [symmetric] less_Suc_eq)
  qed
qed

text \<open>
  The boot track is the first data track of the last session; without one the result is the
  address before the table, not the null pointer that the header promises.
\<close>

theorem gdrom_boot_track_first_data:
  assumes "lo < unat (track_count disc)" "sessionno (last_track disc) \<noteq> 1"
    and "\<forall>j<lo. sessionno (tracks disc ! j) \<noteq> sessionno (last_track disc)"
    and "\<forall>j. lo \<le> j \<and> j < unat (track_count disc) \<longrightarrow> sessionno (tracks disc ! j) = sessionno (last_track disc)"
  shows "if \<exists>j. lo \<le> j \<and> j < unat (track_count disc) \<and> is_data (tracks disc ! j)
    then \<exists>i. gdrom_disc_get_boot_track (Some disc) = Some (int i) \<and> lo \<le> i \<and> i < unat (track_count disc) \<and>
      is_data (tracks disc ! i) \<and> (\<forall>j. lo \<le> j \<and> j < i \<longrightarrow> \<not> is_data (tracks disc ! j))
    else gdrom_disc_get_boot_track (Some disc) = Some (- 1)"
proof -
  have "track_count disc \<noteq> 0" using assms(1) by auto
  then have b: "gdrom_disc_get_boot_track (Some disc) =
      Some (boot_loop (tracks disc) (sessionno (last_track disc)) (unat (track_count disc)) (- 1))"
    using assms(2) by (simp add: gdrom_disc_get_boot_track_def)
  show ?thesis
    using boot_loop_spec [OF assms(3,4) less_imp_le [OF assms(1)], of "- 1"] unfolding b by auto
qed

definition boot_disc :: cdrom_disc where
  "boot_disc = cdrom_disc_new\<lparr>track_count := 2, session_count := 2, leadout := 12000, tracks :=
     [(empty_track 0)\<lparr>sessionno := 1\<rparr>, (empty_track 1)\<lparr>sessionno := 2, track_lba := 11702, track_flags := TRACK_FLAG_DATA\<rparr>]\<rparr>"

theorem gdrom_boot_track_first_data_witness:
  "\<exists>i. gdrom_disc_get_boot_track (Some boot_disc) = Some (int i) \<and> 1 \<le> i"
proof -
  have t: "track_count boot_disc = 2" "tracks boot_disc ! 1 = (empty_track 1)\<lparr>sessionno := 2, track_lba := 11702, track_flags := TRACK_FLAG_DATA\<rparr>"
    "sessionno (tracks boot_disc ! 0) = 1" "last_track boot_disc = tracks boot_disc ! 1"
    by (simp_all add: boot_disc_def last_track_def)
  have one: "1 \<le> j \<and> j < 2 \<longleftrightarrow> j = (1 :: nat)" for j by auto
  have d: "is_data (tracks boot_disc ! 1)" unfolding is_data_def t(2) by (simp add: TRACK_FLAG_DATA_def)
  have "\<exists>j. 1 \<le> j \<and> j < unat (track_count boot_disc) \<and> is_data (tracks boot_disc ! j)"
    using d by (intro exI [of _ 1]) (simp add: t)
  moreover have "\<forall>j. 1 \<le> j \<and> j < unat (track_count boot_disc) \<longrightarrow> sessionno (tracks boot_disc ! j) = sessionno (last_track boot_disc)"
    by (auto simp: t(1) t(4) one simp del: One_nat_def)
  moreover have "sessionno (last_track boot_disc) \<noteq> 1" "\<forall>j<1. sessionno (tracks boot_disc ! j) \<noteq> sessionno (last_track boot_disc)"
    using t by simp_all
  moreover have "1 < unat (track_count boot_disc)" by (simp add: t)
  ultimately have "\<exists>i. gdrom_disc_get_boot_track (Some boot_disc) = Some (int i) \<and> 1 \<le> i \<and> i < unat (track_count boot_disc) \<and>
      is_data (tracks boot_disc ! i) \<and> (\<forall>j. 1 \<le> j \<and> j < i \<longrightarrow> \<not> is_data (tracks boot_disc ! j))"
    using gdrom_boot_track_first_data [of 1 boot_disc] by presburger
  then show ?thesis by blast
qed

end
