(* ===== verification/Ide.thy ===== *)
theory Ide
  imports Asic Gdrom
begin

unbundle bit_operations_syntax

text \<open>
  The IDE interface of the drive, \<open>gdrom/ide.c\<close>: the registers, the transfer states, the
  packet commands and the transfers by programmed reads and by DMA. The state extends the
  one of the system chip, whose event \<open>EVENT_IDE\<close> is the interrupt line of the drive, and
  holds the mounted disc. Debugging output is left out.
\<close>

section \<open>State\<close>

datatype ide_phase = IDE_STATE_IDLE | IDE_STATE_CMD_WRITE | IDE_STATE_PIO_READ | IDE_STATE_PIO_WRITE
  | IDE_STATE_DMA_READ | IDE_STATE_DMA_WRITE | IDE_STATE_BUSY

text \<open>
  The fields of \<open>struct ide_registers\<close>, the sector buffer and the mounted disc. Offset and
  length are C integers that stay between \<open>-1\<close> and the size of the buffer.
\<close>

record ide_state = asic_state +
  ide_status :: u8
  ide_control :: u8
  ide_error :: u8
  ide_feature :: u8
  ide_count :: u8
  ide_lba0 :: u8
  ide_lba1 :: u8
  ide_lba2 :: u8
  ide_device :: u8
  ide_command :: u8
  intrq_pending :: u8
  interface_enabled :: bool
  was_reset :: bool
  ide_phase :: ide_phase
  last_packet_command :: u32
  gdrom_sense :: "u8 list"
  gdrom_mode :: "u8 list"
  data_offset :: int
  data_length :: int
  last_read_track :: u8
  current_lba :: u32
  current_mode :: u32
  sectors_left :: u32
  data_buffer :: buf
  gdrom_drive :: "cdrom_disc option"

text \<open>
  What the drive calls: the copy to memory is part of \<open>asic_env\<close>; \<open>env_tmp\<close> is the contents of
  an uninitialised local buffer.
\<close>

record 's ide_env = "'s asic_env" +
  env_check_media :: "cdrom_disc \<Rightarrow> cdrom_disc"
  env_play_audio :: "(u32 \<Rightarrow> u32 \<Rightarrow> u32) option"
  env_tmp :: buf

definition MAX_SECTOR_SIZE :: int where "MAX_SECTOR_SIZE = 2352"
definition GDROM_DRIVE_STATUS_LENGTH :: u32 where "GDROM_DRIVE_STATUS_LENGTH = 10"
definition GDROM_MODE_LENGTH :: u32 where "GDROM_MODE_LENGTH = 32"
definition GDROM_TOC_SIZE :: u32 where "GDROM_TOC_SIZE = 408"
definition IDE_DISC_NONE :: u8 where "IDE_DISC_NONE = 0x06"
definition IDE_STATUS_BSY :: u8 where "IDE_STATUS_BSY = 0x80"
definition IDE_STATUS_DRQ :: u8 where "IDE_STATUS_DRQ = 0x08"
definition IDE_STATUS_CHK :: u8 where "IDE_STATUS_CHK = 0x01"
definition IDE_FEAT_DMA :: u8 where "IDE_FEAT_DMA = 0x01"
definition IDE_COUNT_CD :: u8 where "IDE_COUNT_CD = 0x01"
definition IDE_COUNT_IO :: u8 where "IDE_COUNT_IO = 0x02"
definition IDE_CMD_NOP :: u8 where "IDE_CMD_NOP = 0x00"
definition IDE_CMD_RESET_DEVICE :: u8 where "IDE_CMD_RESET_DEVICE = 0x08"
definition IDE_CMD_PACKET :: u8 where "IDE_CMD_PACKET = 0xA0"
definition IDE_CMD_SET_FEATURE :: u8 where "IDE_CMD_SET_FEATURE = 0xEF"
definition EVENT_IDE :: nat where "EVENT_IDE = 32"

definition PKT_CMD_TEST_READY :: u8 where "PKT_CMD_TEST_READY = 0x00"
definition PKT_CMD_DRIVE_STATUS :: u8 where "PKT_CMD_DRIVE_STATUS = 0x10"
definition PKT_CMD_MODE_SENSE :: u8 where "PKT_CMD_MODE_SENSE = 0x11"
definition PKT_CMD_MODE_SELECT :: u8 where "PKT_CMD_MODE_SELECT = 0x12"
definition PKT_CMD_SENSE :: u8 where "PKT_CMD_SENSE = 0x13"
definition PKT_CMD_READ_TOC :: u8 where "PKT_CMD_READ_TOC = 0x14"
definition PKT_CMD_SESSION_INFO :: u8 where "PKT_CMD_SESSION_INFO = 0x15"
definition PKT_CMD_READ_SECTOR :: u8 where "PKT_CMD_READ_SECTOR = 0x30"
definition PKT_CMD_PLAY_AUDIO :: u8 where "PKT_CMD_PLAY_AUDIO = 0x20"
definition PKT_CMD_STATUS :: u8 where "PKT_CMD_STATUS = 0x40"
definition PKT_CMD_SPIN_UP :: u8 where "PKT_CMD_SPIN_UP = 0x70"
definition PKT_CMD_71 :: u8 where "PKT_CMD_71 = 0x71"
definition PKT_ERR_OK :: u16 where "PKT_ERR_OK = 0"
definition PKT_ERR_NODISC :: u16 where "PKT_ERR_NODISC = 0x3A02"
definition PKT_ERR_BADCMD :: u16 where "PKT_ERR_BADCMD = 0x2005"
definition PKT_ERR_BADFIELD :: u16 where "PKT_ERR_BADFIELD = 0x2405"
definition PKT_ERR_RESET :: u16 where "PKT_ERR_RESET = 0x2906"

lemmas pkt_cmds = PKT_CMD_TEST_READY_def PKT_CMD_DRIVE_STATUS_def PKT_CMD_MODE_SENSE_def PKT_CMD_MODE_SELECT_def
  PKT_CMD_SENSE_def PKT_CMD_READ_TOC_def PKT_CMD_SESSION_INFO_def PKT_CMD_READ_SECTOR_def PKT_CMD_PLAY_AUDIO_def
  PKT_CMD_STATUS_def PKT_CMD_SPIN_UP_def PKT_CMD_71_def
lemmas pkt_errs = PKT_ERR_OK_def PKT_ERR_NODISC_def PKT_ERR_BADCMD_def PKT_ERR_BADFIELD_def PKT_ERR_RESET_def
lemmas ide_bits = IDE_STATUS_BSY_def IDE_STATUS_DRQ_def IDE_STATUS_CHK_def IDE_FEAT_DMA_def IDE_COUNT_CD_def IDE_COUNT_IO_def

definition default_gdrom_mode :: "u8 list" where
  "default_gdrom_mode =
    [0, 0, 0, 0, 0, 180, 25, 0, 0, 8, 83, 69, 32, 32, 32, 32,
     32, 32, 82, 101, 118, 32, 54, 46, 52, 50, 57, 57, 48, 51, 49, 54]"

text \<open>The answer of command \<open>71\<close>, recorded from a real drive, and the long status.\<close>

definition gdrom_71 :: "u8 list" where
  "gdrom_71 =
    [62, 15, 144, 190, 29, 217, 137, 4, 40, 58, 142, 38, 92, 149, 16, 90,
     10, 153, 238, 251, 105, 206, 217, 99, 0, 245, 10, 188, 44, 13, 248, 226,
     5, 2, 0, 124, 3, 0, 61, 8, 216, 141, 8, 122, 109, 0, 53, 6,
     186, 102, 16, 0, 145, 8, 16, 41, 208, 69, 218, 0, 45, 5, 105, 9,
     0, 94, 15, 112, 134, 18, 108, 119, 90, 251, 205, 86, 251, 247, 183, 0,
     93, 7, 25, 153, 242, 175, 0, 99, 3, 0, 240, 16, 190, 215, 160, 99,
     250, 132, 167, 116, 148, 239, 173, 194, 172, 0, 120, 7, 159, 87, 11, 98,
     0, 254, 8, 8, 93, 90, 106, 84, 0, 226, 9, 147, 126, 98, 42, 94,
     218, 0, 126, 15, 240, 7, 1, 109, 80, 134, 221, 74, 21, 84, 199, 236,
     0, 242, 11, 7, 248, 26, 176, 153, 59, 241, 54, 0, 148, 7, 52, 227,
     188, 110, 0, 52, 13, 111, 218, 189, 238, 247, 204, 206, 57, 126, 227, 0,
     20, 8, 220, 210, 185, 249, 49, 0, 176, 12, 16, 163, 69, 18, 199, 205,
     191, 5, 55, 0, 196, 13, 95, 224, 89, 187, 1, 89, 3, 214, 41, 156,
     0, 1, 10, 9, 170, 168, 168, 36, 11, 102, 0, 92, 5, 165, 206, 0,
     193, 11, 183, 160, 111, 233, 43, 204, 181, 252, 0, 141, 5, 244, 172, 0,
     87, 4, 182, 0, 252, 3, 0, 195, 16, 67, 59, 190, 162, 150, 195, 101,
     159, 154, 136, 213, 73, 104, 0, 220, 17, 86, 35, 45, 249, 252, 245, 139,
     27, 177, 183, 16, 33, 28, 18, 0, 13, 13, 235, 134, 162, 73, 141, 141,
     190, 161, 109, 83, 0, 225, 10, 142, 103, 170, 22, 121, 57, 89, 0, 54,
     11, 42, 78, 174, 81, 75, 208, 102, 51, 0, 138, 7, 205, 111, 186, 146,
     0, 26, 14, 223, 74, 179, 119, 31, 165, 144, 25, 250, 89, 215, 0, 4,
     15, 172, 202, 159, 164, 252, 109, 144, 134, 158, 31, 68, 64, 0, 159, 4,
     86, 0, 34, 3, 0, 184, 16, 44, 122, 83, 164, 191, 163, 144, 144, 20,
     157, 70, 108, 150, 0, 198, 11, 155, 187, 176, 174, 96, 146, 142, 12, 0,
     20, 6, 75, 174, 127, 0, 92, 11, 35, 250, 231, 81, 218, 97, 73, 94,
     0, 215, 11, 1, 252, 85, 49, 132, 197, 12, 152, 0, 151, 80, 110, 249,
     238, 117, 146, 83, 211, 102, 164, 175, 59, 254, 123, 39, 48, 187, 182, 242,
     118, 34, 69, 66, 202, 249, 240, 222, 159, 69, 22, 104, 34, 185, 132, 40,
     143, 43, 181, 92, 210, 245, 69, 54, 62, 118, 198, 191, 50, 92, 65, 166,
     38, 199, 130, 47, 46, 181, 117, 198, 230, 103, 158, 119, 148, 175, 106, 5,
     192, 5, 97, 113, 137, 90, 177, 208, 252, 126, 192, 155, 203, 59, 105, 217,
     95, 175, 202, 171, 37, 213, 190, 138, 107, 176, 251, 97, 108, 235, 133, 110,
     122, 72, 255, 151, 145, 6, 61, 77, 104, 211, 101, 131, 144, 160, 8, 92,
     252, 238, 124, 51, 67, 127, 128, 82, 139, 25, 114, 242, 201, 171, 147, 175,
     22, 237, 54, 72, 171, 201, 209, 3, 179, 220, 47, 242, 146, 63, 10, 25,
     37, 226, 239, 122, 34, 218, 219, 203, 50, 18, 97, 73, 91, 116, 124, 101,
     32, 137, 84, 158, 14, 201, 82, 227, 201, 154, 68, 201, 93, 166, 119, 192,
     231, 96, 145, 128, 80, 31, 51, 177, 205, 173, 244, 13, 187, 8, 177, 208,
     19, 149, 174, 201, 226, 100, 162, 101, 251, 143, 233, 162, 138, 188, 152, 129,
     69, 180, 85, 78, 185, 116, 180, 80, 118, 191, 240, 69, 231, 238, 65, 100,
     159, 181, 224, 187, 28, 187, 40, 102, 27, 221, 43, 2, 102, 191, 253, 125,
     55, 53, 29, 118, 33, 195, 143, 175, 246, 249, 233, 39, 72, 231, 61, 149,
     116, 12, 119, 136, 86, 217, 132, 200, 125, 32, 49, 67, 83, 241, 193, 199,
     201, 247, 92, 192, 166, 90, 39, 10, 65, 212, 68, 148, 101, 79, 226, 83,
     96, 11, 209, 35, 108, 12, 188, 112, 108, 38, 26, 97, 29, 53, 136, 236,
     184, 21, 227, 180, 130, 238, 179, 33, 172, 108, 183, 51, 109, 120, 12, 13,
     180, 11, 41, 242, 212, 140, 63, 221, 63, 71, 221, 242, 216, 57, 87, 32,
     40, 216, 221, 50, 226, 106, 71, 83, 87, 198, 250, 122, 56, 48, 49, 143,
     231, 211, 132, 43, 93, 79, 149, 152, 237, 11, 215, 80, 12, 73, 218, 89,
     21, 241, 57, 243, 64, 220, 220, 37, 36, 86, 110, 169, 47, 240, 0, 0]"

definition gdrom_status :: "u8 list" where
  "gdrom_status =
    [0, 21, 0, 100, 0, 64, 0, 0, 0, 0, 0, 64, 0, 0, 0, 0,
     0, 0, 64, 0, 0, 0, 0, 0, 0, 0, 0, 64, 0, 0, 0, 0,
     0, 0, 0, 0, 0, 0, 0, 0, 0, 0, 0, 0, 0, 64, 0, 0,
     0, 64, 0, 0, 0, 0, 0, 0, 0, 0, 0, 0, 0, 0, 0, 0,
     0, 0, 64, 0, 0, 0, 64, 64, 64, 0, 0, 0, 0, 64, 0, 0,
     0, 64, 64, 0, 0, 0, 64, 64, 0, 0, 0, 64, 0, 0, 64, 0,
     0, 64, 0, 0]"

section \<open>Interrupt line\<close>

definition IS_IDE_IRQ_ENABLED :: "('a) ide_state_scheme \<Rightarrow> bool" where
  "IS_IDE_IRQ_ENABLED s \<longleftrightarrow> ide_control s AND 0x02 = 0"

definition ide_can_write_regs :: "('a) ide_state_scheme \<Rightarrow> bool" where
  "ide_can_write_regs s \<longleftrightarrow> ide_status s AND 0x80 = 0"

definition ide_raise_interrupt :: "('a) ide_state_scheme \<Rightarrow> ('a) ide_state_scheme" where
  "ide_raise_interrupt s =
    (if intrq_pending s = 0 then
       (let s1 = s\<lparr>intrq_pending := 1\<rparr> in if IS_IDE_IRQ_ENABLED s1 then asic_event EVENT_IDE s1 else s1)
     else s)"

definition ide_clear_interrupt :: "('a) ide_state_scheme \<Rightarrow> ('a) ide_state_scheme" where
  "ide_clear_interrupt s =
    (if intrq_pending s \<noteq> 0 then
       (let s1 = s\<lparr>intrq_pending := 0\<rparr> in if IS_IDE_IRQ_ENABLED s1 then asic_clear_event EVENT_IDE s1 else s1)
     else s)"

definition ide_reset :: "('a) ide_state_scheme \<Rightarrow> ('a) ide_state_scheme" where
  "ide_reset s = (ide_clear_interrupt s)\<lparr>ide_error := 0x01, ide_count := 0x01, ide_lba0 := 0x81, ide_lba1 := 0x14,
     ide_lba2 := 0xEB, ide_feature := 0, ide_status := 0x00, ide_device := 0x00, ide_phase := IDE_STATE_IDLE,
     gdrom_sense := replicate 10 0, gdrom_mode := default_gdrom_mode, data_offset := - 1, data_length := - 1,
     last_read_track := 1, current_lba := 150, current_mode := 0x28, sectors_left := 0, was_reset := True\<rparr>"

section \<open>State transitions\<close>

definition ide_set_packet_result :: "u16 \<Rightarrow> ('a) ide_state_scheme \<Rightarrow> ('a) ide_state_scheme" where
  "ide_set_packet_result result s =
    (let s1 = s\<lparr>gdrom_sense := (gdrom_sense s)[0 := 0xF0, 2 := ucast (result AND 0xFF), 8 := ucast (drop_bit 8 result AND 0xFF)],
                ide_error := push_bit 4 (ucast (result AND 0x0F)), ide_count := 3\<rparr>
     in if result \<noteq> 0 then ide_raise_interrupt (s1\<lparr>ide_status := 0x51, ide_phase := IDE_STATE_IDLE\<rparr>)
        else s1\<lparr>ide_status := ide_status s AND NOT (IDE_STATUS_BSY OR IDE_STATUS_CHK)\<rparr>)"

definition ide_start_command_packet_write :: "('a) ide_state_scheme \<Rightarrow> ('a) ide_state_scheme" where
  "ide_start_command_packet_write s = s\<lparr>ide_phase := IDE_STATE_CMD_WRITE, ide_status := 0x58,
     ide_error := ide_feature s AND 0x03, ide_count := IDE_COUNT_CD, data_offset := 0, data_length := 12\<rparr>"

definition ide_start_read :: "int \<Rightarrow> bool \<Rightarrow> ('a) ide_state_scheme \<Rightarrow> ('a) ide_state_scheme" where
  "ide_start_read len dma s =
    (let s1 = s\<lparr>ide_count := IDE_COUNT_IO, data_length := len, data_offset := 0\<rparr>
     in if dma then s1\<lparr>ide_phase := IDE_STATE_DMA_READ, ide_status := 0xD0\<rparr>
        else ide_raise_interrupt (s1\<lparr>ide_phase := IDE_STATE_PIO_READ, ide_status := 0x58,
               ide_lba1 := word_of_int len, ide_lba2 := word_of_int (len div 256)\<rparr>))"

definition ide_start_write :: "int \<Rightarrow> bool \<Rightarrow> ('a) ide_state_scheme \<Rightarrow> ('a) ide_state_scheme" where
  "ide_start_write len dma s =
    (let s1 = s\<lparr>ide_count := 0, data_length := len, data_offset := 0\<rparr>
     in if dma then s1\<lparr>ide_phase := IDE_STATE_DMA_WRITE, ide_status := 0xD0\<rparr>
        else ide_raise_interrupt (s1\<lparr>ide_phase := IDE_STATE_PIO_WRITE, ide_status := 0x58,
               ide_lba1 := word_of_int len, ide_lba2 := word_of_int (len div 256)\<rparr>))"

definition feature_dma :: "('a) ide_state_scheme \<Rightarrow> bool" where
  "feature_dma s \<longleftrightarrow> ide_feature s AND IDE_FEAT_DMA \<noteq> 0"

definition ide_start_packet_read :: "u32 \<Rightarrow> u32 \<Rightarrow> ('a) ide_state_scheme \<Rightarrow> ('a) ide_state_scheme" where
  "ide_start_packet_read len sector_count s =
    ide_start_read (uint len) (feature_dma s) (ide_set_packet_result PKT_ERR_OK (s\<lparr>sectors_left := sector_count\<rparr>))"

definition ide_start_packet_write :: "u32 \<Rightarrow> u32 \<Rightarrow> ('a) ide_state_scheme \<Rightarrow> ('a) ide_state_scheme" where
  "ide_start_packet_write len sector_count s =
    ide_start_write (uint len) (feature_dma s) (ide_set_packet_result PKT_ERR_OK (s\<lparr>sectors_left := sector_count\<rparr>))"

definition ide_set_error :: "u16 \<Rightarrow> ('a) ide_state_scheme \<Rightarrow> ('a) ide_state_scheme" where
  "ide_set_error error_code s = s\<lparr>ide_status := 0x51, ide_error := ucast error_code\<rparr>"

definition ide_read_status :: "('a) ide_state_scheme \<Rightarrow> u8 \<times> ('a) ide_state_scheme" where
  "ide_read_status s =
    (let s1 = (if ide_status s AND IDE_STATUS_BSY = 0 then ide_clear_interrupt s else s) in (ide_status s1, s1))"

definition ide_get_drive_status ::
  "(('a) ide_state_scheme) ide_env \<Rightarrow> ('a) ide_state_scheme \<Rightarrow> u8 \<times> ('a) ide_state_scheme" where
  "ide_get_drive_status env s =
    (let (drive, st) = gdrom_get_drive_status (env_check_media env) (gdrom_drive s) in (st, s\<lparr>gdrom_drive := drive\<rparr>))"

section \<open>Transfers\<close>

definition set_sense_lba :: "('a) ide_state_scheme \<Rightarrow> ('a) ide_state_scheme" where
  "set_sense_lba s = s\<lparr>gdrom_sense := (gdrom_sense s)[5 := byte_of 2 (current_lba s), 6 := byte_of 1 (current_lba s),
     7 := byte_of 0 (current_lba s)]\<rparr>"

text \<open>\<open>None\<close> is a call of \<open>abort\<close> in a sector source.\<close>

definition ide_read_next_sector :: "('a) ide_state_scheme \<Rightarrow> (('a) ide_state_scheme) option" where
  "ide_read_next_sector s =
    (case gdrom_read_cd (gdrom_drive s) (current_lba s) 1 (current_mode s) (data_buffer s) of
       None \<Rightarrow> None
     | Some (err, buf, sector_size) \<Rightarrow>
         let s1 = s\<lparr>data_buffer := buf\<rparr>
         in if err \<noteq> CDROM_ERROR_OK then Some (set_sense_lba (ide_set_packet_result (ucast err) s1))
            else Some (ide_start_read (int sector_size) (feature_dma s1)
                   (s1\<lparr>current_lba := current_lba s1 + 1, sectors_left := sectors_left s1 - 1\<rparr>)))"

definition READ_BUFFER :: "('a) ide_state_scheme \<Rightarrow> u16" where
  "READ_BUFFER s = ucast (data_buffer s (nat (data_offset s))) OR push_bit 8 (ucast (data_buffer s (nat (data_offset s) + 1)))"

definition WRITE_BUFFER :: "u16 \<Rightarrow> ('a) ide_state_scheme \<Rightarrow> ('a) ide_state_scheme" where
  "WRITE_BUFFER v s = s\<lparr>data_buffer := put (nat (data_offset s)) [ucast v, ucast (drop_bit 8 v)] (data_buffer s)\<rparr>"

text \<open>The end of a transfer by programmed reads or writes.\<close>

definition pio_complete :: "('a) ide_state_scheme \<Rightarrow> ('a) ide_state_scheme" where
  "pio_complete s = ide_raise_interrupt (s\<lparr>ide_phase := IDE_STATE_IDLE, ide_status := ide_status s AND NOT IDE_STATUS_DRQ,
     data_offset := - 1, ide_count := 3\<rparr>)"

definition ide_read_data_pio :: "('a) ide_state_scheme \<Rightarrow> (u16 \<times> ('a) ide_state_scheme) option" where
  "ide_read_data_pio s =
    (if ide_phase s = IDE_STATE_PIO_READ then
       (let rv = READ_BUFFER s; s1 = s\<lparr>data_offset := data_offset s + 2\<rparr>
        in if data_length s1 \<le> data_offset s1 then
             (let s2 = pio_complete s1
              in map_option (Pair rv) (if 0 < sectors_left s2 then ide_read_next_sector s2 else Some s2))
           else Some (rv, s1))
     else Some (0xFFFF, s))"

text \<open>
  One turn of the loop of \<open>ide_read_data_dma\<close>: the number of bytes, the state after copying
  them, and the turn as a whole with whether the loop is left.
\<close>

definition dma_xferlen :: "u32 \<Rightarrow> ('a) ide_state_scheme \<Rightarrow> int" where
  "dma_xferlen wanted s =
    (let remaining = data_length s - data_offset s in if remaining < sint wanted then remaining else sint wanted)"

definition dma_copied :: "(('a) ide_state_scheme) ide_env \<Rightarrow> u32 \<Rightarrow> int \<Rightarrow> ('a) ide_state_scheme \<Rightarrow> ('a) ide_state_scheme" where
  "dma_copied env addr xferlen s =
    (let s1 = env_mem_copy_to_sh4 env addr (bytes (data_buffer s) (nat (data_offset s)) (nat xferlen)) s
     in s1\<lparr>data_offset := data_offset s1 + xferlen\<rparr>)"

definition dma_block :: "(('a) ide_state_scheme) ide_env \<Rightarrow> u32 \<Rightarrow> u32 \<Rightarrow> ('a) ide_state_scheme \<Rightarrow>
    (int \<times> bool \<times> ('a) ide_state_scheme) option" where
  "dma_block env addr wanted s =
    (let xferlen = dma_xferlen wanted s; s2 = dma_copied env addr xferlen s
     in if data_length s2 \<le> data_offset s2 then
          (if 0 < sectors_left s2 then map_option (\<lambda>s3. (xferlen, False, s3)) (ide_read_next_sector s2)
           else Some (xferlen, True, ide_raise_interrupt (s2\<lparr>data_offset := - 1, ide_phase := IDE_STATE_IDLE,
                  ide_status := 0x50, ide_count := 0x03\<rparr>)))
        else Some (xferlen, False, s2))"

text \<open>The loop goes on while bytes are wanted and the drive is in a transfer by DMA.\<close>

definition dma_open :: "u32 \<Rightarrow> u32 \<Rightarrow> ('a) ide_state_scheme \<Rightarrow> bool" where
  "dma_open xfercount len s \<longleftrightarrow> xfercount < len \<and> ide_phase s = IDE_STATE_DMA_READ"

partial_function (option) dma_loop :: "(('a) ide_state_scheme) ide_env \<Rightarrow> u32 \<Rightarrow> u32 \<Rightarrow> u32 \<Rightarrow> ('a) ide_state_scheme \<Rightarrow>
    (u32 \<times> ('a) ide_state_scheme) option" where
  "dma_loop env addr xfercount len s =
    (if dma_open xfercount len s then
       (case dma_block env addr (len - xfercount) s of
          None \<Rightarrow> None
        | Some r \<Rightarrow>
            if fst (snd r) then Some (xfercount + of_int (fst r), snd (snd r))
            else dma_loop env (addr + of_int (fst r)) (xfercount + of_int (fst r)) len (snd (snd r)))
     else Some (xfercount, s))"

definition ide_read_data_dma :: "(('a) ide_state_scheme) ide_env \<Rightarrow> u32 \<Rightarrow> u32 \<Rightarrow> ('a) ide_state_scheme \<Rightarrow>
    (u32 \<times> ('a) ide_state_scheme) option" where
  "ide_read_data_dma env addr len s = dma_loop env addr 0 len s"

section \<open>Packet commands\<close>

text \<open>The command is read from the start of the sector buffer.\<close>

definition cmd :: "('a) ide_state_scheme \<Rightarrow> nat \<Rightarrow> u8" where
  "cmd s i = data_buffer s i"

definition cmd24 :: "('a) ide_state_scheme \<Rightarrow> nat \<Rightarrow> u32" where
  "cmd24 s i = push_bit 16 (ucast (cmd s i)) OR push_bit 8 (ucast (cmd s (i + 1))) OR ucast (cmd s (i + 2))"

definition fill_buffer :: "u8 list \<Rightarrow> ('a) ide_state_scheme \<Rightarrow> ('a) ide_state_scheme" where
  "fill_buffer bs s = s\<lparr>data_buffer := put 0 bs (data_buffer s)\<rparr>"

text \<open>The part of a table of \<open>size\<close> bytes from \<open>lba\<close> on, at most \<open>length\<close> bytes.\<close>

definition clip :: "u32 \<Rightarrow> u32 \<Rightarrow> u32 \<Rightarrow> u32" where
  "clip tsize lba len = (if tsize < lba + len then tsize - lba else len)"

definition part :: "u8 list \<Rightarrow> u32 \<Rightarrow> u32 \<Rightarrow> u8 list" where
  "part bs lba len = take (unat len) (drop (unat lba) bs)"

definition drive_status_bytes :: "u8 \<Rightarrow> buf \<Rightarrow> u8 list" where
  "drive_status_bytes status tmp =
    [status AND 0x0F, status AND 0xF0, tmp 4, tmp 5, tmp 6, tmp 11, tmp 12, tmp 13, 0, 0]"

definition packet_drive_status :: "(('a) ide_state_scheme) ide_env \<Rightarrow> ('a) ide_state_scheme \<Rightarrow> ('a) ide_state_scheme" where
  "packet_drive_status env s =
    (let lba = ucast (cmd s 2)
     in if GDROM_DRIVE_STATUS_LENGTH \<le> lba then ide_set_error PKT_ERR_BADFIELD s
        else let (status, s1) = ide_get_drive_status env s;
                 tmp = snd (gdrom_read_short_status (gdrom_drive s1) (current_lba s1) (env_tmp env));
                 len = clip GDROM_DRIVE_STATUS_LENGTH lba (ucast (cmd s1 4))
             in ide_start_packet_read len 0 (fill_buffer (part (drive_status_bytes status tmp) lba len) s1))"

definition packet_mode_sense :: "('a) ide_state_scheme \<Rightarrow> ('a) ide_state_scheme" where
  "packet_mode_sense s =
    (let lba = ucast (cmd s 2); len = clip GDROM_MODE_LENGTH lba (ucast (cmd s 4))
     in if GDROM_MODE_LENGTH \<le> lba then ide_set_error PKT_ERR_BADFIELD s
        else ide_start_packet_read len 0 (fill_buffer (part (gdrom_mode s) lba len) s))"

definition packet_mode_select :: "('a) ide_state_scheme \<Rightarrow> ('a) ide_state_scheme" where
  "packet_mode_select s =
    (let lba = ucast (cmd s 2); len = clip GDROM_MODE_LENGTH lba (ucast (cmd s 4))
     in if GDROM_MODE_LENGTH \<le> lba then ide_set_error PKT_ERR_BADFIELD s
        else ide_start_packet_write len 0 (s\<lparr>current_lba := lba\<rparr>))"

definition packet_sense :: "('a) ide_state_scheme \<Rightarrow> ('a) ide_state_scheme" where
  "packet_sense s =
    (let len = (if 10 < (ucast (cmd s 4) :: u32) then 10 else ucast (cmd s 4))
     in ide_start_packet_read len 0 (fill_buffer (take (unat len) (gdrom_sense s)) s))"

definition packet_read_toc :: "('a) ide_state_scheme \<Rightarrow> (('a) ide_state_scheme) option" where
  "packet_read_toc s =
    (let want = push_bit 8 (ucast (cmd s 3)) OR ucast (cmd s 4);
         len = (if GDROM_TOC_SIZE < want then GDROM_TOC_SIZE else want)
     in case gdrom_read_toc (gdrom_drive s) (data_buffer s) of
          None \<Rightarrow> None
        | Some (status, b) \<Rightarrow>
            Some (if status \<noteq> CDROM_ERROR_OK then ide_set_packet_result (ucast status) (s\<lparr>data_buffer := b\<rparr>)
                  else ide_start_packet_read len 0 (s\<lparr>data_buffer := b\<rparr>)))"

definition packet_session_info :: "('a) ide_state_scheme \<Rightarrow> ('a) ide_state_scheme" where
  "packet_session_info s =
    (let len = (if 6 < (ucast (cmd s 4) :: u32) then 6 else ucast (cmd s 4));
         (status, b) = gdrom_read_session (gdrom_drive s) (uint (cmd s 2)) (data_buffer s)
     in if status \<noteq> CDROM_ERROR_OK then ide_set_packet_result (ucast status) (s\<lparr>data_buffer := b\<rparr>)
        else ide_start_packet_read len 0 (s\<lparr>data_buffer := b\<rparr>))"

definition packet_play_audio :: "(('a) ide_state_scheme) ide_env \<Rightarrow> ('a) ide_state_scheme \<Rightarrow> ('a) ide_state_scheme" where
  "packet_play_audio env s =
    (let lba = cmd24 s 2; len = cmd24 s 8 - lba;
         status = gdrom_play_audio (env_play_audio env) (gdrom_drive s) lba len
     in (ide_raise_interrupt (ide_set_packet_result (ucast status) s))\<lparr>ide_status := 0x50\<rparr>)"

definition packet_read_sector :: "('a) ide_state_scheme \<Rightarrow> (('a) ide_state_scheme) option" where
  "packet_read_sector s = ide_read_next_sector (s\<lparr>current_lba := cmd24 s 2, sectors_left := cmd24 s 8,
     current_mode := ucast (cmd s 1)\<rparr>)"

definition packet_status :: "('a) ide_state_scheme \<Rightarrow> ('a) ide_state_scheme" where
  "packet_status s =
    (let len = ucast (cmd s 4)
     in if cmd s 1 = 0 then
          (let n = (if 100 < len then 100 else len)
           in ide_start_packet_read n 0 (fill_buffer (take (unat n) gdrom_status) s))
        else if cmd s 1 = 1 then
          (let n = (if 14 < len then 14 else len)
           in ide_start_packet_read n 0
                (s\<lparr>data_buffer := snd (gdrom_read_short_status (gdrom_drive s) (current_lba s) (data_buffer s))\<rparr>))
        else s)"

text \<open>The commands that need a disc: the macro \<open>REQUIRE_DISC\<close> returns from the whole function.\<close>

definition REQUIRE_DISC :: "(('a) ide_state_scheme) ide_env \<Rightarrow> (('a) ide_state_scheme \<Rightarrow> (('a) ide_state_scheme) option) \<Rightarrow>
    ('a) ide_state_scheme \<Rightarrow> (bool \<times> ('a) ide_state_scheme) option" where
  "REQUIRE_DISC env body s =
    (let (status, s1) = ide_get_drive_status env s
     in if status = IDE_DISC_NONE then Some (False, ide_set_packet_result PKT_ERR_NODISC s1)
        else map_option (Pair True) (body s1))"

text \<open>The commands; the first component tells whether the end of the function is reached.\<close>

definition packet_dispatch :: "(('a) ide_state_scheme) ide_env \<Rightarrow> ('a) ide_state_scheme \<Rightarrow>
    (bool \<times> ('a) ide_state_scheme) option" where
  "packet_dispatch env s =
    (let c = cmd s 0
     in if c = PKT_CMD_TEST_READY then
          REQUIRE_DISC env (\<lambda>s. Some ((ide_raise_interrupt (ide_set_packet_result 0 s))\<lparr>ide_status := 0x50\<rparr>)) s
        else if c = PKT_CMD_DRIVE_STATUS then Some (True, packet_drive_status env s)
        else if c = PKT_CMD_MODE_SENSE then Some (True, packet_mode_sense s)
        else if c = PKT_CMD_MODE_SELECT then Some (True, packet_mode_select s)
        else if c = PKT_CMD_SENSE then Some (True, packet_sense s)
        else if c = PKT_CMD_READ_TOC then map_option (Pair True) (packet_read_toc s)
        else if c = PKT_CMD_SESSION_INFO then Some (True, packet_session_info s)
        else if c = PKT_CMD_PLAY_AUDIO then Some (True, packet_play_audio env s)
        else if c = PKT_CMD_READ_SECTOR then REQUIRE_DISC env packet_read_sector s
        else if c = PKT_CMD_SPIN_UP then
          REQUIRE_DISC env (\<lambda>s. Some (ide_raise_interrupt (ide_set_packet_result PKT_ERR_OK s))) s
        else if c = PKT_CMD_STATUS then REQUIRE_DISC env (\<lambda>s. Some (packet_status s)) s
        else if c = PKT_CMD_71 then
          REQUIRE_DISC env (\<lambda>s. Some (ide_start_packet_read (of_nat (length gdrom_71)) 0 (fill_buffer gdrom_71 s))) s
        else Some (False, ide_set_packet_result PKT_ERR_BADCMD s))"

text \<open>The command byte is read again at the end, from the buffer that the answer may have replaced.\<close>

definition ide_packet_command :: "(('a) ide_state_scheme) ide_env \<Rightarrow> ('a) ide_state_scheme \<Rightarrow> (('a) ide_state_scheme) option" where
  "ide_packet_command env s =
    (if cmd s 0 \<noteq> PKT_CMD_SENSE \<and> was_reset s then
       Some ((ide_set_packet_result PKT_ERR_RESET s)\<lparr>was_reset := False\<rparr>)
     else map_option (\<lambda>(done, s'). if done then s'\<lparr>last_packet_command := ucast (cmd s' 0)\<rparr> else s') (packet_dispatch env s))"

definition ide_write_buffer :: "buf \<Rightarrow> u32 \<Rightarrow> ('a) ide_state_scheme \<Rightarrow> ('a) ide_state_scheme" where
  "ide_write_buffer data len s =
    (if last_packet_command s = ucast PKT_CMD_MODE_SELECT \<and> current_lba s < 10 then
       (let n = unat (if 10 < current_lba s + len then 10 - current_lba s else len); k = unat (current_lba s)
        in s\<lparr>gdrom_mode := take k (gdrom_mode s) @ bytes data 0 n @ drop (k + n) (gdrom_mode s)\<rparr>)
     else s)"

definition ide_write_data_pio :: "(('a) ide_state_scheme) ide_env \<Rightarrow> u16 \<Rightarrow> ('a) ide_state_scheme \<Rightarrow>
    (('a) ide_state_scheme) option" where
  "ide_write_data_pio env v s =
    (if ide_phase s = IDE_STATE_CMD_WRITE then
       (let s1 = WRITE_BUFFER v s; s2 = s1\<lparr>data_offset := data_offset s1 + 2\<rparr>
        in if data_length s2 \<le> data_offset s2 then
             ide_packet_command env (s2\<lparr>ide_phase := IDE_STATE_BUSY,
               ide_status := (ide_status s2 AND NOT IDE_STATUS_DRQ) OR IDE_STATUS_BSY, data_offset := - 1\<rparr>)
           else Some s2)
     else if ide_phase s = IDE_STATE_PIO_WRITE then
       (let s1 = WRITE_BUFFER v s; s2 = s1\<lparr>data_offset := data_offset s1 + 2\<rparr>
        in if data_length s2 \<le> data_offset s2 then
             (let s3 = pio_complete s2 in Some (ide_write_buffer (data_buffer s3) (word_of_int (data_length s3)) s3))
           else Some s2)
     else Some s)"

section \<open>The registers\<close>

definition ide_write_control :: "u8 \<Rightarrow> ('a) ide_state_scheme \<Rightarrow> ('a) ide_state_scheme" where
  "ide_write_control v s =
    (let s1 = (if IS_IDE_IRQ_ENABLED s then
                 (if v AND 0x02 \<noteq> 0 \<and> intrq_pending s \<noteq> 0 then asic_clear_event EVENT_IDE s else s)
               else (if v AND 0x02 = 0 \<and> intrq_pending s \<noteq> 0 then asic_event EVENT_IDE s else s))
     in s1\<lparr>ide_control := v\<rparr>)"

definition ide_write_command :: "u8 \<Rightarrow> ('a) ide_state_scheme \<Rightarrow> ('a) ide_state_scheme" where
  "ide_write_command v s0 =
    (let s = (ide_clear_interrupt s0)\<lparr>ide_command := v\<rparr>
     in if v = IDE_CMD_NOP then
          ide_raise_interrupt (s\<lparr>ide_phase := IDE_STATE_IDLE, ide_status := 0x51, ide_error := 0x04, data_offset := - 1\<rparr>)
        else if v = IDE_CMD_RESET_DEVICE then ide_reset s
        else if v = IDE_CMD_PACKET then ide_start_command_packet_write s
        else if v = IDE_CMD_SET_FEATURE then
          ide_raise_interrupt (s\<lparr>ide_status := 0x50, ide_error := 0x00, ide_lba1 := 0x00, ide_lba2 := 0x00\<rparr>)
        else s)"

end
