(* ===== verification/IdeInvariant.thy ===== *)
theory IdeInvariant
  imports Ide AsicIrq
begin

unbundle bit_operations_syntax

text \<open>
  Invariants of the drive: its interrupt line among the events of the system chip, and the
  bounds of its sector buffer.
\<close>

section \<open>What the system chip leaves alone\<close>

lemma intc_more [simp]:
  "asic_state.more (intc_raise_interrupt w s) = asic_state.more s"
  "asic_state.more (intc_clear_interrupt w s) = asic_state.more s"
  by (simp_all add: intc_raise_interrupt_def intc_clear_interrupt_def intc_mask_changed_def Let_def
      sh4_set_event_pending_def split: option.split)

lemma ASIC_write_more [simp]: "asic_state.more (ASIC_write r v s) = asic_state.more s"
  by (simp add: ASIC_write_def)

lemma asic_post_more [simp]: "asic_state.more (asic_post e s) = asic_state.more s"
proof -
  obtain a b c where "asic_post e s = three intc_raise_interrupt a b c
      (ASIC_write (PIRQ0 + event_offset e) (pirq (event_offset e) s OR event_bit e) s)"
    unfolding asic_post_def three_def Let_def pirq_def by fast
  then show ?thesis by (simp add: three_def Let_def)
qed

lemma check_cleared_more [simp]: "asic_state.more (asic_check_cleared_events s) = asic_state.more s"
  by (simp add: asic_check_cleared_events_def Let_def)

lemma asic_more [simp]:
  "asic_state.more (asic_event e s) = asic_state.more s"
  "asic_state.more (asic_clear_event e s) = asic_state.more s"
  by (simp_all add: asic_event_unfold asic_clear_event_def Let_def if_distrib [of asic_state.more])

lemma ide_more_cong:
  assumes "asic_state.more s = asic_state.more t"
  shows "ide_status s = ide_status t" "ide_control s = ide_control t" "ide_error s = ide_error t"
    "ide_feature s = ide_feature t" "ide_count s = ide_count t" "ide_lba0 s = ide_lba0 t" "ide_lba1 s = ide_lba1 t"
    "ide_lba2 s = ide_lba2 t" "ide_device s = ide_device t" "ide_command s = ide_command t" "intrq_pending s = intrq_pending t"
    "interface_enabled s = interface_enabled t" "was_reset s = was_reset t" "ide_phase s = ide_phase t"
    "last_packet_command s = last_packet_command t" "gdrom_sense s = gdrom_sense t" "gdrom_mode s = gdrom_mode t"
    "data_offset s = data_offset t" "data_length s = data_length t" "last_read_track s = last_read_track t"
    "current_lba s = current_lba t" "current_mode s = current_mode t" "sectors_left s = sectors_left t"
    "data_buffer s = data_buffer t" "gdrom_drive s = gdrom_drive t" "ide_state.more s = ide_state.more t"
  using assms by (cases s; cases t; simp)+

lemmas asic_event_ide [simp] = ide_more_cong [OF asic_more(1)]
lemmas asic_clear_ide [simp] = ide_more_cong [OF asic_more(2)]

lemma lines_ok_truncate:
  assumes "asic_state.truncate s = asic_state.truncate t"
  shows "asic_lines_ok s \<longleftrightarrow> asic_lines_ok t" "pirq i s = pirq i t"
proof -
  show "pirq i s = pirq i t"
    using assms by (cases s; cases t) (simp add: asic_state.truncate_def pirq_def ASIC_read_def)
  show "asic_lines_ok s \<longleftrightarrow> asic_lines_ok t"
    using assms
    by (cases s; cases t) (simp add: asic_state.truncate_def asic_lines_ok_def pend_set_def set_of_def ASIC_read_def
      intc_inv_def intc_ordered_def beats_def irq_ok_def irq_wanted_def pending_ok_def event_get_next_time_def SH4_INTMASK_def
      split: option.split)
qed

section \<open>The interrupt line\<close>

text \<open>
  The event of the drive is pending exactly while the drive requests an interrupt and the
  program has not switched its line off.
\<close>

definition ide_line_ok :: "('a) ide_state_scheme \<Rightarrow> bool" where
  "ide_line_ok s \<longleftrightarrow> (bit (pirq 4 s) 0 \<longleftrightarrow> intrq_pending s \<noteq> 0 \<and> IS_IDE_IRQ_ENABLED s)"

definition ide_irq_ok :: "('a) ide_state_scheme \<Rightarrow> bool" where
  "ide_irq_ok s \<longleftrightarrow> asic_lines_ok s \<and> asic_cascade_ok s \<and> ide_line_ok s"

lemma ide_irq_cong:
  assumes "asic_state.truncate s = asic_state.truncate t" "intrq_pending s = intrq_pending t" "ide_control s = ide_control t"
  shows "ide_irq_ok s \<longleftrightarrow> ide_irq_ok t"
  using assms lines_ok_truncate [OF assms(1)]
  by (simp add: ide_irq_ok_def ide_line_ok_def cascade_ok_alt IS_IDE_IRQ_ENABLED_def)

text \<open>Updates of the other fields of the drive.\<close>

lemma ide_irq_upd [simp]:
  "ide_irq_ok (s\<lparr>ide_status := x1\<rparr>) = ide_irq_ok s" "ide_irq_ok (s\<lparr>ide_error := x1\<rparr>) = ide_irq_ok s"
  "ide_irq_ok (s\<lparr>ide_feature := x1\<rparr>) = ide_irq_ok s" "ide_irq_ok (s\<lparr>ide_count := x1\<rparr>) = ide_irq_ok s"
  "ide_irq_ok (s\<lparr>ide_lba0 := x1\<rparr>) = ide_irq_ok s" "ide_irq_ok (s\<lparr>ide_lba1 := x1\<rparr>) = ide_irq_ok s"
  "ide_irq_ok (s\<lparr>ide_lba2 := x1\<rparr>) = ide_irq_ok s" "ide_irq_ok (s\<lparr>ide_device := x1\<rparr>) = ide_irq_ok s"
  "ide_irq_ok (s\<lparr>ide_command := x1\<rparr>) = ide_irq_ok s" "ide_irq_ok (s\<lparr>interface_enabled := x2\<rparr>) = ide_irq_ok s"
  "ide_irq_ok (s\<lparr>was_reset := x2\<rparr>) = ide_irq_ok s" "ide_irq_ok (s\<lparr>ide_phase := x3\<rparr>) = ide_irq_ok s"
  "ide_irq_ok (s\<lparr>last_packet_command := x4\<rparr>) = ide_irq_ok s" "ide_irq_ok (s\<lparr>gdrom_sense := x5\<rparr>) = ide_irq_ok s"
  "ide_irq_ok (s\<lparr>gdrom_mode := x5\<rparr>) = ide_irq_ok s" "ide_irq_ok (s\<lparr>data_offset := x6\<rparr>) = ide_irq_ok s"
  "ide_irq_ok (s\<lparr>data_length := x6\<rparr>) = ide_irq_ok s" "ide_irq_ok (s\<lparr>last_read_track := x1\<rparr>) = ide_irq_ok s"
  "ide_irq_ok (s\<lparr>current_lba := x4\<rparr>) = ide_irq_ok s" "ide_irq_ok (s\<lparr>current_mode := x4\<rparr>) = ide_irq_ok s"
  "ide_irq_ok (s\<lparr>sectors_left := x4\<rparr>) = ide_irq_ok s" "ide_irq_ok (s\<lparr>data_buffer := x7\<rparr>) = ide_irq_ok s"
  "ide_irq_ok (s\<lparr>gdrom_drive := x8\<rparr>) = ide_irq_ok s"
  by (rule ide_irq_cong; simp add: asic_state.truncate_def)+

lemma mmio_extdma_irq [simp]: "ide_irq_ok (s\<lparr>mmio_EXTDMA := m\<rparr>) = ide_irq_ok s"
  by (simp add: ide_irq_ok_def ide_line_ok_def asic_lines_ok_def asic_cascade_ok_def pend_set_def set_of_def ASIC_read_def
      pirq_def intc_inv_def intc_ordered_def beats_def irq_ok_def irq_wanted_def pending_ok_def event_get_next_time_def
      SH4_INTMASK_def IS_IDE_IRQ_ENABLED_def split: option.split)

lemma event_4: "event_offset EVENT_IDE = 4" "event_bit EVENT_IDE = 1"
  by (simp_all add: event_offset_cases EVENT_IDE_def event_bit_def)

lemma event_ide_pirq [simp]: "pirq 4 (asic_event EVENT_IDE s) = pirq 4 s OR 1"
  by (simp add: asic_event_unfold asic_post_pirq pirq_offsets_def event_4 event_offset_cases) (simp add: EVENT_IDE_def
    asic_post_pirq pirq_offsets_def event_4 [unfolded EVENT_IDE_def] event_offset_cases)

lemma clear_ide_pirq [simp]: "pirq 4 (asic_clear_event EVENT_IDE s) = pirq 4 s AND NOT 1"
proof -
  have in3: "0 \<in> pirq_offsets" "4 \<in> pirq_offsets" by (simp_all add: pirq_offsets_def)
  have w0: "pirq 4 (ASIC_write PIRQ0 v t) = pirq 4 t" for v and t :: "'a asic_state_scheme"
    using pirq_write [OF in3, of v t] by simp
  have "EVENT_IDE < 96" by (simp add: EVENT_IDE_def)
  from asic_clear_event_parts(1) [OF this, of s] show ?thesis
    by (simp add: event_4 w0 pirq_write in3)
qed

lemma ide_bits_01: "bit (w OR 1) 0" "\<not> bit (w AND - 2) 0" for w :: u32
  by (simp_all add: bit_0 even_or_iff even_and_iff)

lemma intrq_control_lines [simp]:
  "asic_lines_ok (s\<lparr>intrq_pending := v\<rparr>) = asic_lines_ok s" "asic_lines_ok (s\<lparr>ide_control := v\<rparr>) = asic_lines_ok s"
  "pirq i (s\<lparr>intrq_pending := v\<rparr>) = pirq i s" "pirq i (s\<lparr>ide_control := v\<rparr>) = pirq i s"
  using lines_ok_truncate [of "s\<lparr>intrq_pending := v\<rparr>" s] lines_ok_truncate [of "s\<lparr>ide_control := v\<rparr>" s]
  by (simp_all add: asic_state.truncate_def)

lemma intrq_control_cascade [simp]:
  "asic_cascade_ok (s\<lparr>intrq_pending := v\<rparr>) = asic_cascade_ok s" "asic_cascade_ok (s\<lparr>ide_control := v\<rparr>) = asic_cascade_ok s"
  by (simp_all add: cascade_ok_alt)

lemma event_ide_ok:
  "\<lbrakk>asic_lines_ok s; asic_cascade_ok s\<rbrakk> \<Longrightarrow> asic_lines_ok (asic_event EVENT_IDE s) \<and> asic_cascade_ok (asic_event EVENT_IDE s)"
  "\<lbrakk>asic_lines_ok s; asic_cascade_ok s\<rbrakk> \<Longrightarrow> asic_lines_ok (asic_clear_event EVENT_IDE s) \<and> asic_cascade_ok (asic_clear_event EVENT_IDE s)"
  by (simp_all add: EVENT_IDE_def asic_event_lines asic_event_cascade asic_clear_event_lines asic_clear_event_cascade)

lemma raise_irq: "ide_irq_ok s \<Longrightarrow> ide_irq_ok (ide_raise_interrupt s)"
  by (auto simp: ide_irq_ok_def ide_raise_interrupt_def Let_def event_ide_ok ide_line_ok_def ide_bits_01 IS_IDE_IRQ_ENABLED_def)

lemma clear_irq: "ide_irq_ok s \<Longrightarrow> ide_irq_ok (ide_clear_interrupt s)"
  by (auto simp: ide_irq_ok_def ide_clear_interrupt_def Let_def event_ide_ok ide_line_ok_def ide_bits_01 IS_IDE_IRQ_ENABLED_def)

lemma control_irq: "ide_irq_ok s \<Longrightarrow> ide_irq_ok (ide_write_control v s)"
  by (auto simp: ide_irq_ok_def ide_write_control_def Let_def event_ide_ok ide_line_ok_def ide_bits_01 IS_IDE_IRQ_ENABLED_def)

lemma raise_sel [simp]:
  "ide_status (ide_raise_interrupt s) = ide_status s" "ide_control (ide_raise_interrupt s) = ide_control s"
  "ide_phase (ide_raise_interrupt s) = ide_phase s" "data_offset (ide_raise_interrupt s) = data_offset s"
  "data_length (ide_raise_interrupt s) = data_length s" "gdrom_mode (ide_raise_interrupt s) = gdrom_mode s"
  "gdrom_sense (ide_raise_interrupt s) = gdrom_sense s" "gdrom_drive (ide_raise_interrupt s) = gdrom_drive s"
  "sectors_left (ide_raise_interrupt s) = sectors_left s" "data_buffer (ide_raise_interrupt s) = data_buffer s"
  "current_lba (ide_raise_interrupt s) = current_lba s" "current_mode (ide_raise_interrupt s) = current_mode s"
  "ide_feature (ide_raise_interrupt s) = ide_feature s" "ide_count (ide_raise_interrupt s) = ide_count s"
  "last_packet_command (ide_raise_interrupt s) = last_packet_command s" "was_reset (ide_raise_interrupt s) = was_reset s"
  "ide_error (ide_raise_interrupt s) = ide_error s"
  "intrq_pending (ide_raise_interrupt s) = (if intrq_pending s = 0 then 1 else intrq_pending s)"
  by (simp_all add: ide_raise_interrupt_def Let_def)

lemma clear_sel [simp]:
  "ide_status (ide_clear_interrupt s) = ide_status s" "ide_control (ide_clear_interrupt s) = ide_control s"
  "ide_phase (ide_clear_interrupt s) = ide_phase s" "data_offset (ide_clear_interrupt s) = data_offset s"
  "data_length (ide_clear_interrupt s) = data_length s" "gdrom_mode (ide_clear_interrupt s) = gdrom_mode s"
  "gdrom_sense (ide_clear_interrupt s) = gdrom_sense s" "gdrom_drive (ide_clear_interrupt s) = gdrom_drive s"
  "sectors_left (ide_clear_interrupt s) = sectors_left s" "data_buffer (ide_clear_interrupt s) = data_buffer s"
  "ide_feature (ide_clear_interrupt s) = ide_feature s" "was_reset (ide_clear_interrupt s) = was_reset s"
  "intrq_pending (ide_clear_interrupt s) = 0"
  by (simp_all add: ide_clear_interrupt_def Let_def)

section \<open>Steps of the drive\<close>

text \<open>What a program and the system chip can do to the drive.\<close>

inductive ide_step :: "(('a) ide_state_scheme) ide_env \<Rightarrow> ('a) ide_state_scheme \<Rightarrow> ('a) ide_state_scheme \<Rightarrow> bool"
  for env where
  step_status: "ide_step env s (snd (ide_read_status s))"
| step_read: "ide_read_data_pio s = Some (v, t) \<Longrightarrow> ide_step env s t"
| step_write: "ide_write_data_pio env v s = Some t \<Longrightarrow> ide_step env s t"
| step_dma: "unat len < 2 ^ 31 \<Longrightarrow> ide_read_data_dma env addr len s = Some (n, t) \<Longrightarrow> ide_step env s t"
| step_control: "ide_step env s (ide_write_control v s)"
| step_command: "ide_step env s (ide_write_command v s)"
| step_drive: "ide_step env s (snd (ide_get_drive_status env s))"
| step_registers: "ide_step env s (s\<lparr>ide_feature := f, ide_count := n, ide_lba0 := x, ide_lba1 := y, ide_lba2 := z,
    ide_device := d, interface_enabled := e\<rparr>)"

section \<open>The operations, for any invariant of the drive\<close>

text \<open>
  What a program can do to the drive is built from a few transitions. The locale names what
  an invariant \<open>I\<close> has to guarantee for them, under a condition \<open>E\<close> on the environment; the
  lemmas follow the functions of the code.
\<close>

lemma unat_byte: "unat (ucast (c :: u8) :: u32) < 256"
proof -
  have "unat c < 2 ^ LENGTH(8)" by (rule unsigned_less)
  then show ?thesis by (simp add: unsigned_ucast_eq take_bit_nat_eq_self)
qed

lemma sint_small:
  fixes w :: u32
  assumes "unat w < 2 ^ 31"
  shows "sint w = int (unat w)"
proof -
  have u: "uint w = int (unat w)" by simp
  have "signed_take_bit 31 (uint w) = uint w"
  proof (rule signed_take_bit_int_eq_self)
    have "int (unat w) < int (2 ^ 31)" using assms by (simp only: of_nat_less_iff)
    then show "uint w < 2 ^ 31" unfolding u by simp
    have "- (2 ^ 31) \<le> (0 :: int)" "0 \<le> uint w" by simp_all
    then show "- (2 ^ 31) \<le> uint w" by (rule order_trans)
  qed
  then show ?thesis by (simp add: sint_uint)
qed

locale ide_invariant =
  fixes I :: "('a) ide_state_scheme \<Rightarrow> bool" and E :: "(('a) ide_state_scheme) ide_env \<Rightarrow> bool"
  assumes raise: "I s \<Longrightarrow> I (ide_raise_interrupt s)"
    and clear: "I s \<Longrightarrow> I (ide_clear_interrupt s)"
    and result: "I s \<Longrightarrow> I (ide_set_packet_result code s)"
    and fields: "I s \<Longrightarrow> I (s\<lparr>ide_status := v, ide_error := e, ide_lba1 := x, ide_lba2 := y, ide_command := c, was_reset := r,
          last_packet_command := k, current_lba := l, current_mode := m, sectors_left := n, data_buffer := b\<rparr>)"
    and registers: "I s \<Longrightarrow> I (s\<lparr>ide_feature := f, ide_count := w, ide_lba0 := z, ide_lba1 := x, ide_lba2 := y,
          ide_device := d, interface_enabled := i\<rparr>)"
    and packet_read: "I s \<Longrightarrow> unat len \<le> 2352 \<Longrightarrow> I (ide_start_packet_read len cnt s)"
    and packet_write: "I s \<Longrightarrow> unat len \<le> 2352 \<Longrightarrow> I (ide_start_packet_write len cnt s)"
    and next_sector: "I s \<Longrightarrow> ide_read_next_sector s = Some t \<Longrightarrow> I t"
    and halt: "I s \<Longrightarrow> p = IDE_STATE_IDLE \<or> p = IDE_STATE_BUSY \<Longrightarrow> I (s\<lparr>ide_phase := p, ide_count := w, data_offset := off\<rparr>)"
    and advance: "\<lbrakk>I s; ide_phase s \<in> {IDE_STATE_CMD_WRITE, IDE_STATE_PIO_READ, IDE_STATE_PIO_WRITE};
          data_offset s + 2 < data_length s\<rbrakk> \<Longrightarrow> I (s\<lparr>data_offset := data_offset s + 2\<rparr>)"
    and write_mode: "\<lbrakk>I s; ide_phase s = IDE_STATE_PIO_WRITE; I u\<rbrakk> \<Longrightarrow> I (ide_write_buffer data (word_of_int (data_length s)) u)"
    and reset: "I s \<Longrightarrow> I (ide_reset s)"
    and packet_start: "I s \<Longrightarrow> I (ide_start_command_packet_write s)"
    and control: "I s \<Longrightarrow> I (ide_write_control ctl s)"
    and drive: "E env \<Longrightarrow> I s \<Longrightarrow> I (snd (ide_get_drive_status env s))"
    and block: "\<lbrakk>E env; I s; ide_phase s = IDE_STATE_DMA_READ; 0 < sint want; dma_block env addr want s = Some (xfer, fin, t)\<rbrakk> \<Longrightarrow> I t"
begin

lemma field:
  assumes "I s"
  shows "I (s\<lparr>ide_status := v\<rparr>)" "I (s\<lparr>data_buffer := b\<rparr>)" "I (s\<lparr>current_lba := l\<rparr>)" "I (s\<lparr>last_packet_command := k\<rparr>)"
    "I (s\<lparr>was_reset := r\<rparr>)" "I (s\<lparr>ide_command := c\<rparr>)" "I (s\<lparr>ide_status := v, ide_error := e\<rparr>)"
    "I (s\<lparr>current_lba := l, current_mode := m, sectors_left := n\<rparr>)"
    "I (s\<lparr>ide_status := v, ide_error := e, ide_lba1 := x, ide_lba2 := y\<rparr>)"
  using fields [OF assms, where v = v and e = "ide_error s" and x = "ide_lba1 s" and y = "ide_lba2 s" and c = "ide_command s"
        and r = "was_reset s" and k = "last_packet_command s" and l = "current_lba s" and m = "current_mode s" and n = "sectors_left s" and b = "data_buffer s"]
    fields [OF assms, where v = "ide_status s" and e = "ide_error s" and x = "ide_lba1 s" and y = "ide_lba2 s" and c = "ide_command s"
        and r = "was_reset s" and k = "last_packet_command s" and l = "current_lba s" and m = "current_mode s" and n = "sectors_left s" and b = b]
    fields [OF assms, where v = "ide_status s" and e = "ide_error s" and x = "ide_lba1 s" and y = "ide_lba2 s" and c = "ide_command s"
        and r = "was_reset s" and k = "last_packet_command s" and l = l and m = "current_mode s" and n = "sectors_left s" and b = "data_buffer s"]
    fields [OF assms, where v = "ide_status s" and e = "ide_error s" and x = "ide_lba1 s" and y = "ide_lba2 s" and c = "ide_command s"
        and r = "was_reset s" and k = k and l = "current_lba s" and m = "current_mode s" and n = "sectors_left s" and b = "data_buffer s"]
    fields [OF assms, where v = "ide_status s" and e = "ide_error s" and x = "ide_lba1 s" and y = "ide_lba2 s" and c = "ide_command s"
        and r = r and k = "last_packet_command s" and l = "current_lba s" and m = "current_mode s" and n = "sectors_left s" and b = "data_buffer s"]
    fields [OF assms, where v = "ide_status s" and e = "ide_error s" and x = "ide_lba1 s" and y = "ide_lba2 s" and c = c
        and r = "was_reset s" and k = "last_packet_command s" and l = "current_lba s" and m = "current_mode s" and n = "sectors_left s" and b = "data_buffer s"]
    fields [OF assms, where v = v and e = e and x = "ide_lba1 s" and y = "ide_lba2 s" and c = "ide_command s"
        and r = "was_reset s" and k = "last_packet_command s" and l = "current_lba s" and m = "current_mode s" and n = "sectors_left s" and b = "data_buffer s"]
    fields [OF assms, where v = "ide_status s" and e = "ide_error s" and x = "ide_lba1 s" and y = "ide_lba2 s" and c = "ide_command s"
        and r = "was_reset s" and k = "last_packet_command s" and l = l and m = m and n = n and b = "data_buffer s"]
    fields [OF assms, where v = v and e = e and x = x and y = y and c = "ide_command s"
        and r = "was_reset s" and k = "last_packet_command s" and l = "current_lba s" and m = "current_mode s" and n = "sectors_left s" and b = "data_buffer s"]
  by simp_all

lemma fill: "I s \<Longrightarrow> I (fill_buffer bs s)"
  by (simp add: fill_buffer_def field)

lemma set_error: "I s \<Longrightarrow> I (ide_set_error e s)"
  by (simp add: ide_set_error_def field)

lemma read_status: "I s \<Longrightarrow> I (snd (ide_read_status s))"
  by (simp add: ide_read_status_def Let_def clear)

lemma clip_small: "\<lbrakk>\<not> n \<le> lba; unat n \<le> 2352\<rbrakk> \<Longrightarrow> unat (clip n lba (ucast (c :: u8))) \<le> 2352"
proof -
  assume a: "\<not> n \<le> lba" "unat n \<le> 2352"
  have "unat (ucast c :: u32) < 256" by (rule unat_byte)
  moreover have "unat (n - lba) \<le> unat n" using a by (simp add: unat_sub)
  ultimately show ?thesis using a(2) by (auto simp: clip_def)
qed

lemma drive_status: "E env \<Longrightarrow> I s \<Longrightarrow> I (packet_drive_status env s)"
  using drive [of env s]
  by (auto simp: packet_drive_status_def Let_def set_error fill clip_small GDROM_DRIVE_STATUS_LENGTH_def
      intro!: packet_read split: prod.split)

lemma mode_sense: "I s \<Longrightarrow> I (packet_mode_sense s)" "I s \<Longrightarrow> I (packet_mode_select s)"
  by (auto simp: packet_mode_sense_def packet_mode_select_def Let_def set_error fill clip_small GDROM_MODE_LENGTH_def field
      intro!: packet_read packet_write)

lemma sense: "I s \<Longrightarrow> I (packet_sense s)"
  by (auto simp: packet_sense_def Let_def word_less_nat_alt intro!: packet_read fill)

lemma read_toc: "I s \<Longrightarrow> packet_read_toc s = Some t \<Longrightarrow> I t"
  by (auto simp: packet_read_toc_def Let_def word_less_nat_alt GDROM_TOC_SIZE_def intro!: packet_read result field
      split: option.splits if_splits)

lemma session_info: "I s \<Longrightarrow> I (packet_session_info s)"
  by (auto simp: packet_session_info_def Let_def word_less_nat_alt intro!: packet_read result field split: prod.split)

lemma play_audio: "I s \<Longrightarrow> I (packet_play_audio env s)"
  by (auto simp: packet_play_audio_def Let_def intro!: raise result field)

lemma status_cmd: "I s \<Longrightarrow> I (packet_status s)"
  by (auto simp: packet_status_def Let_def word_less_nat_alt intro!: packet_read fill field)

lemma read_sector: "I s \<Longrightarrow> packet_read_sector s = Some t \<Longrightarrow> I t"
proof -
  assume s: "I s" "packet_read_sector s = Some t"
  have "s\<lparr>current_lba := cmd24 s 2, sectors_left := cmd24 s 8, current_mode := ucast (cmd s 1)\<rparr> =
      s\<lparr>current_lba := cmd24 s 2, current_mode := ucast (cmd s 1), sectors_left := cmd24 s 8\<rparr>" by simp
  then have "I (s\<lparr>current_lba := cmd24 s 2, sectors_left := cmd24 s 8, current_mode := ucast (cmd s 1)\<rparr>)"
    using s(1) by (simp only: field)
  then show ?thesis using s(2) unfolding packet_read_sector_def by (rule next_sector)
qed

lemma length_71: "unat (of_nat (length gdrom_71) :: u32) \<le> 2352"
  by (simp add: gdrom_71_def)

lemma require_disc:
  assumes "E env" "I s" "\<And>s t. I s \<Longrightarrow> body s = Some t \<Longrightarrow> I t" "REQUIRE_DISC env body s = Some (b, t)"
  shows "I t"
proof -
  obtain st u where u: "ide_get_drive_status env s = (st, u)" by fastforce
  then have "I u" using drive [OF assms(1,2)] by simp
  then show ?thesis
    using assms(3) [of u] assms(4) u by (auto simp: REQUIRE_DISC_def result split: if_splits)
qed

lemma require_disc_total:
  assumes "E env" "I s" "\<And>s. I s \<Longrightarrow> I (body s)" "REQUIRE_DISC env (\<lambda>s. Some (body s)) s = Some (b, t)"
  shows "I t"
  by (rule require_disc [OF assms(1,2) _ assms(4)]) (use assms(3) in auto)

lemma dispatch:
  assumes "E env" "I s" "packet_dispatch env s = Some (b, t)"
  shows "I t"
proof -
  note d = assms(3) [unfolded packet_dispatch_def Let_def]
  consider (ready) "REQUIRE_DISC env (\<lambda>s. Some ((ide_raise_interrupt (ide_set_packet_result 0 s))\<lparr>ide_status := 0x50\<rparr>)) s = Some (b, t)"
    | (simple) "t \<in> {packet_drive_status env s, packet_mode_sense s, packet_mode_select s, packet_sense s, packet_session_info s,
        packet_play_audio env s, ide_set_packet_result PKT_ERR_BADCMD s}"
    | (toc) "packet_read_toc s = Some t"
    | (sector) "REQUIRE_DISC env packet_read_sector s = Some (b, t)"
    | (spin) "REQUIRE_DISC env (\<lambda>s. Some (ide_raise_interrupt (ide_set_packet_result PKT_ERR_OK s))) s = Some (b, t)"
    | (stat) "REQUIRE_DISC env (\<lambda>s. Some (packet_status s)) s = Some (b, t)"
    | (c71) "REQUIRE_DISC env (\<lambda>s. Some (ide_start_packet_read (of_nat (length gdrom_71)) 0 (fill_buffer gdrom_71 s))) s = Some (b, t)"
    using d by (auto split: if_splits)
  then show ?thesis
  proof cases
    case ready
    then show ?thesis by (rule require_disc_total [OF assms(1,2), rotated]) (auto intro!: field raise result)
  next
    case simple
    then show ?thesis using assms(1,2) by (auto intro: drive_status mode_sense sense session_info play_audio result)
  next
    case toc
    then show ?thesis by (rule read_toc [OF assms(2)])
  next
    case sector
    then show ?thesis by (rule require_disc [OF assms(1,2), rotated]) (rule read_sector)
  next
    case spin
    then show ?thesis by (rule require_disc_total [OF assms(1,2), rotated]) (auto intro!: raise result)
  next
    case stat
    then show ?thesis by (rule require_disc_total [OF assms(1,2), rotated]) (rule status_cmd)
  next
    case c71
    then show ?thesis by (rule require_disc_total [OF assms(1,2), rotated]) (intro packet_read fill length_71)
  qed
qed

lemma packet_command: "\<lbrakk>E env; I s; ide_packet_command env s = Some t\<rbrakk> \<Longrightarrow> I t"
  by (auto simp: ide_packet_command_def intro: field result dispatch split: if_splits)

lemma complete: "I s \<Longrightarrow> I (pio_complete (s\<lparr>data_offset := k\<rparr>))"
proof -
  assume "I s"
  then have "I ((s\<lparr>ide_status := ide_status s AND NOT IDE_STATUS_DRQ\<rparr>)\<lparr>ide_phase := IDE_STATE_IDLE, ide_count := 3, data_offset := - 1\<rparr>)"
    by (intro halt field) simp_all
  moreover have "(s\<lparr>ide_status := ide_status s AND NOT IDE_STATUS_DRQ\<rparr>)\<lparr>ide_phase := IDE_STATE_IDLE, ide_count := 3, data_offset := - 1\<rparr> =
      (s\<lparr>data_offset := k\<rparr>)\<lparr>ide_phase := IDE_STATE_IDLE, ide_status := ide_status s AND NOT IDE_STATUS_DRQ,
     data_offset := - 1, ide_count := 3\<rparr>" by simp
  ultimately show ?thesis unfolding pio_complete_def by (simp add: raise)
qed

lemma read_pio: "\<lbrakk>I s; ide_read_data_pio s = Some (v, t)\<rbrakk> \<Longrightarrow> I t"
  by (auto simp: ide_read_data_pio_def Let_def intro: complete advance next_sector split: if_splits)

lemma write_pio:
  assumes "E env" "I s" "ide_write_data_pio env v s = Some t"
  shows "I t"
proof -
  define b where "b = put (nat (data_offset s)) [ucast v, ucast (drop_bit 8 v)] (data_buffer s)"
  have b: "WRITE_BUFFER v s = s\<lparr>data_buffer := b\<rparr>" by (simp add: WRITE_BUFFER_def b_def)
  have i: "I (s\<lparr>data_buffer := b\<rparr>)" by (rule field(2) [OF assms(2)])
  let ?s2 = "s\<lparr>data_buffer := b, data_offset := data_offset s + 2\<rparr>"
  have cmd: "I (?s2\<lparr>ide_phase := IDE_STATE_BUSY, ide_status := x, data_offset := - 1\<rparr>)" for x
  proof -
    have "I ((s\<lparr>data_buffer := b\<rparr>)\<lparr>ide_status := x\<rparr>\<lparr>ide_phase := IDE_STATE_BUSY, ide_count := ide_count s, data_offset := - 1\<rparr>)"
      by (intro halt field(1) i) simp
    moreover have "s\<lparr>data_buffer := b\<rparr>\<lparr>ide_status := x\<rparr>\<lparr>ide_phase := IDE_STATE_BUSY, ide_count := ide_count s, data_offset := - 1\<rparr> =
        ?s2\<lparr>ide_phase := IDE_STATE_BUSY, ide_status := x, data_offset := - 1\<rparr>" by simp
    ultimately show ?thesis by (simp only:)
  qed
  have pio: "I (pio_complete ?s2)" using complete [OF i, of "data_offset s + 2"] by simp
  have len: "data_length (pio_complete ?s2) = data_length s" by (simp add: pio_complete_def)
  have mode: "ide_phase s = IDE_STATE_PIO_WRITE \<Longrightarrow> I (ide_write_buffer data (word_of_int (data_length s)) (pio_complete ?s2))" for data
    by (rule write_mode [OF assms(2) _ pio])
  have step: "ide_phase s \<in> {IDE_STATE_CMD_WRITE, IDE_STATE_PIO_WRITE} \<Longrightarrow> data_offset s + 2 < data_length s \<Longrightarrow> I ?s2"
    using advance [OF i] by auto
  show ?thesis
    using assms(2,3) unfolding ide_write_data_pio_def b Let_def
    by (auto simp: len intro: mode packet_command [OF assms(1) cmd] step split: if_splits)
qed

lemma write_command: "I s \<Longrightarrow> I (ide_write_command v s)"
proof -
  assume "I s"
  then have i: "I ((ide_clear_interrupt s)\<lparr>ide_command := v\<rparr>)" by (intro field(6) clear)
  let ?s = "(ide_clear_interrupt s)\<lparr>ide_command := v\<rparr>"
  have "I (?s\<lparr>ide_status := 0x51, ide_error := 0x04\<rparr>\<lparr>ide_phase := IDE_STATE_IDLE, ide_count := ide_count ?s, data_offset := - 1\<rparr>)"
    by (intro halt field(7) i) simp
  moreover have "?s\<lparr>ide_status := 0x51, ide_error := 0x04\<rparr>\<lparr>ide_phase := IDE_STATE_IDLE, ide_count := ide_count ?s, data_offset := - 1\<rparr> =
      ?s\<lparr>ide_phase := IDE_STATE_IDLE, ide_status := 0x51, ide_error := 0x04, data_offset := - 1\<rparr>" by simp
  ultimately have nop: "I (ide_raise_interrupt (?s\<lparr>ide_phase := IDE_STATE_IDLE, ide_status := 0x51, ide_error := 0x04, data_offset := - 1\<rparr>))"
    by (intro raise) (simp only:)
  have branch: "I a \<Longrightarrow> I b \<Longrightarrow> I (if c then a else b)" for a b c by simp
  show ?thesis
    unfolding ide_write_command_def Let_def
    by (rule branch [OF nop branch [OF reset [OF i] branch [OF packet_start [OF i] branch [OF raise [OF field(9) [OF i]] i]]]])
qed

lemma loop:
  assumes "E env" "unat len < 2 ^ 31" "I s" "dma_loop env addr xf len s = Some (n, t)"
  shows "I t"
proof -
  have "e = env \<longrightarrow> unat l < 2 ^ 31 \<longrightarrow> I s \<longrightarrow> I (snd r)" if "dma_loop e a x l s = Some r" for e a x l s r
  proof (rule dma_loop.raw_induct [where P = "\<lambda>e a x l s r. e = env \<longrightarrow> unat l < 2 ^ 31 \<longrightarrow> I s \<longrightarrow> I (snd r)", OF _ that], intro impI)
    fix f e a x l s r
    assume IH: "\<And>e a x l s r. f e a x l s = Some r \<Longrightarrow> e = env \<longrightarrow> unat l < 2 ^ 31 \<longrightarrow> I s \<longrightarrow> I (snd r)"
      and step: "(if dma_open x l s then case dma_block e a (l - x) s of None \<Rightarrow> None
        | Some ra \<Rightarrow> if fst (snd ra) then Some (x + of_int (fst ra), snd (snd ra))
            else f e (a + of_int (fst ra)) (x + of_int (fst ra)) l (snd (snd ra))
       else Some (x, s)) = Some r"
      and e: "e = env" and l: "unat l < 2 ^ 31" and s: "I s"
    show "I (snd r)"
    proof (cases "dma_open x l s")
      case False
      with step s show ?thesis by auto
    next
      case True
      then have x: "x < l" "ide_phase s = IDE_STATE_DMA_READ" by (simp_all add: dma_open_def)
      then have "unat (l - x) = unat l - unat x" by (intro unat_sub) simp
      then have "0 < unat (l - x)" "unat (l - x) < 2 ^ 31" using x(1) l by (simp_all add: word_less_nat_alt)
      then have pos: "0 < sint (l - x)" using sint_small [of "l - x"] by linarith
      obtain k fin u where u: "dma_block e a (l - x) s = Some (k, fin, u)"
        using step True by (auto split: option.splits)
      have "I u" using block [OF assms(1) s x(2) pos] u e by blast
      then show ?thesis using step True u IH [of e _ _ l u] e l by (auto split: if_splits)
    qed
  qed
  from this [OF assms(4)] assms(2,3) show ?thesis by simp
qed

lemma step: "\<lbrakk>ide_step env s t; E env; I s\<rbrakk> \<Longrightarrow> I t"
  by (cases rule: ide_step.cases) (auto intro: read_status read_pio write_pio control write_command loop drive registers
      simp: ide_read_data_dma_def)

lemma steps: "(ide_step env)\<^sup>*\<^sup>* s t \<Longrightarrow> E env \<Longrightarrow> I s \<Longrightarrow> I t"
  by (induction rule: rtranclp_induct) (auto intro: step)

end

section \<open>The interrupt line\<close>

lemma set_result_irq: "ide_irq_ok s \<Longrightarrow> ide_irq_ok (ide_set_packet_result e s)"
  by (simp add: ide_set_packet_result_def Let_def raise_irq)

lemma start_irq: "ide_irq_ok s \<Longrightarrow> ide_irq_ok (ide_start_read n dma s)" "ide_irq_ok s \<Longrightarrow> ide_irq_ok (ide_start_write n dma s)"
  by (simp_all add: ide_start_read_def ide_start_write_def Let_def raise_irq)

lemma next_sector_irq: "ide_irq_ok s \<Longrightarrow> ide_read_next_sector s = Some t \<Longrightarrow> ide_irq_ok t"
  by (auto simp: ide_read_next_sector_def Let_def start_irq set_result_irq set_sense_lba_def split: option.splits if_splits)

text \<open>The copy to memory does not reach the drive or the system chip.\<close>

definition copy_ok :: "(('a) ide_state_scheme) ide_env \<Rightarrow> bool" where
  "copy_ok env \<longleftrightarrow> (\<forall>addr bs s. ide_state.truncate (env_mem_copy_to_sh4 env addr bs s) = ide_state.truncate s)"

lemma copy_sel:
  assumes "copy_ok env"
  shows "asic_state.truncate (env_mem_copy_to_sh4 env a bs s) = asic_state.truncate s"
    "intrq_pending (env_mem_copy_to_sh4 env a bs s) = intrq_pending s" "ide_control (env_mem_copy_to_sh4 env a bs s) = ide_control s"
    "ide_phase (env_mem_copy_to_sh4 env a bs s) = ide_phase s" "data_offset (env_mem_copy_to_sh4 env a bs s) = data_offset s"
    "data_length (env_mem_copy_to_sh4 env a bs s) = data_length s" "sectors_left (env_mem_copy_to_sh4 env a bs s) = sectors_left s"
    "gdrom_mode (env_mem_copy_to_sh4 env a bs s) = gdrom_mode s" "gdrom_sense (env_mem_copy_to_sh4 env a bs s) = gdrom_sense s"
    "gdrom_drive (env_mem_copy_to_sh4 env a bs s) = gdrom_drive s" "current_lba (env_mem_copy_to_sh4 env a bs s) = current_lba s"
    "current_mode (env_mem_copy_to_sh4 env a bs s) = current_mode s" "data_buffer (env_mem_copy_to_sh4 env a bs s) = data_buffer s"
    "ide_feature (env_mem_copy_to_sh4 env a bs s) = ide_feature s"
  using assms [unfolded copy_ok_def, rule_format, of a bs s]
  by (cases "env_mem_copy_to_sh4 env a bs s"; cases s; simp add: ide_state.truncate_def asic_state.truncate_def)+

lemma dma_block_irq:
  assumes "copy_ok env" "ide_irq_ok s" "dma_block env addr n s = Some (k, fin, t)"
  shows "ide_irq_ok t"
proof -
  have "ide_irq_ok (env_mem_copy_to_sh4 env addr bs s)" for bs
    using assms(2) ide_irq_cong [of "env_mem_copy_to_sh4 env addr bs s" s] by (simp add: copy_sel [OF assms(1)])
  then have "ide_irq_ok (dma_copied env addr x s)" for x
    by (simp add: dma_copied_def Let_def)
  then show ?thesis
    using assms(3) by (auto simp: dma_block_def Let_def raise_irq dest: next_sector_irq [rotated] split: if_splits)
qed

interpretation ide_irq: ide_invariant ide_irq_ok copy_ok
proof
  fix env :: "(('a) ide_state_scheme) ide_env" and s t :: "('a) ide_state_scheme" and addr want xfer fin
  assume s: "ide_irq_ok s"
  show "ide_irq_ok (ide_start_packet_read len cnt s)" "ide_irq_ok (ide_start_packet_write len cnt s)" for len cnt
    using s by (simp_all add: ide_start_packet_read_def ide_start_packet_write_def start_irq set_result_irq)
  show "ide_irq_ok (ide_write_buffer data len t)" if "ide_irq_ok t" for data len
    using that by (simp add: ide_write_buffer_def Let_def)
  show "ide_irq_ok (ide_reset s)"
    using s by (simp add: ide_reset_def clear_irq)
  show "ide_irq_ok (ide_start_command_packet_write s)"
    using s by (simp add: ide_start_command_packet_write_def)
  show "ide_irq_ok (snd (ide_get_drive_status env s))"
    using s by (simp add: ide_get_drive_status_def split: prod.split)
  show "ide_irq_ok t" if "copy_ok env" "dma_block env addr want s = Some (xfer, fin, t)"
    by (rule dma_block_irq [OF that(1) s that(2)])
  show "ide_irq_ok (s\<lparr>ide_feature := f, ide_count := w, ide_lba0 := z, ide_lba1 := x, ide_lba2 := y,
      ide_device := d, interface_enabled := i\<rparr>)" for f w z x y d i
    using s by simp
qed (simp_all add: raise_irq clear_irq set_result_irq next_sector_irq control_irq)

section \<open>The sector buffer\<close>

text \<open>
  A disc that the drive can hold: reading a sector returns, with at most a raw sector of
  bytes or a sense code of 16 bits, and a disc that reports a type has a track.
\<close>

definition drive_ok :: "cdrom_disc option \<Rightarrow> bool" where
  "drive_ok drive \<longleftrightarrow>
    (\<forall>lba m b. \<exists>err b' n. gdrom_read_cd drive lba 1 m b = Some (err, b', n) \<and> 
       (if err = CDROM_ERROR_OK then int n \<le> MAX_SECTOR_SIZE else ucast err \<noteq> (0 :: u16))) \<and>
    (\<forall>d. drive = Some d \<and> disc_type d \<noteq> CDROM_DISC_NONE \<longrightarrow> track_count d \<noteq> 0)"

definition ide_env_ok :: "(('a) ide_state_scheme) ide_env \<Rightarrow> bool" where
  "ide_env_ok env \<longleftrightarrow> copy_ok env \<and> (\<forall>d. drive_ok (Some d) \<longrightarrow> drive_ok (Some (env_check_media env d)))"

definition phase_ok :: "ide_phase \<Rightarrow> int \<Rightarrow> int \<Rightarrow> bool" where
  "phase_ok p off len \<longleftrightarrow>
    (p = IDE_STATE_CMD_WRITE \<longrightarrow> len = 12 \<and> 0 \<le> off \<and> off < 12 \<and> even off) \<and>
    (p = IDE_STATE_PIO_READ \<or> p = IDE_STATE_PIO_WRITE \<longrightarrow>
       0 \<le> off \<and> even off \<and> (off = 0 \<or> off < len) \<and> 0 \<le> len \<and> len \<le> MAX_SECTOR_SIZE) \<and>
    (p = IDE_STATE_DMA_READ \<longrightarrow> 0 \<le> off \<and> off \<le> len \<and> len \<le> MAX_SECTOR_SIZE)"

definition ide_buf_ok :: "('a) ide_state_scheme \<Rightarrow> bool" where
  "ide_buf_ok s \<longleftrightarrow> length (gdrom_mode s) = 32 \<and> length (gdrom_sense s) = 10 \<and> drive_ok (gdrom_drive s) \<and>
     phase_ok (ide_phase s) (data_offset s) (data_length s)"

lemma buf_raise [simp]: "ide_buf_ok (ide_raise_interrupt s) = ide_buf_ok s" "ide_buf_ok (ide_clear_interrupt s) = ide_buf_ok s"
  by (simp_all add: ide_buf_ok_def)

lemma phase_simps [simp]: "phase_ok IDE_STATE_IDLE off len" "phase_ok IDE_STATE_BUSY off len" "phase_ok IDE_STATE_DMA_WRITE off len"
  by (simp_all add: phase_ok_def)

lemma set_result_buf: "ide_buf_ok s \<Longrightarrow> ide_buf_ok (ide_set_packet_result e s)"
  by (simp add: ide_set_packet_result_def Let_def) (simp add: ide_buf_ok_def)

lemma start_read_buf:
  "\<lbrakk>ide_buf_ok s; 0 \<le> n; n \<le> MAX_SECTOR_SIZE\<rbrakk> \<Longrightarrow> ide_buf_ok (ide_start_read n dma s)"
  "\<lbrakk>ide_buf_ok s; 0 \<le> n; n \<le> MAX_SECTOR_SIZE\<rbrakk> \<Longrightarrow> ide_buf_ok (ide_start_write n dma s)"
  by (simp_all add: ide_start_read_def ide_start_write_def Let_def) (simp_all add: ide_buf_ok_def phase_ok_def)

lemma sectors_left_buf [simp]: "ide_buf_ok (s\<lparr>sectors_left := c\<rparr>) = ide_buf_ok s" "ide_buf_ok (s\<lparr>data_buffer := b\<rparr>) = ide_buf_ok s"
  "ide_buf_ok (s\<lparr>current_lba := c\<rparr>) = ide_buf_ok s" "ide_buf_ok (s\<lparr>current_mode := c\<rparr>) = ide_buf_ok s"
  "ide_buf_ok (s\<lparr>ide_status := d\<rparr>) = ide_buf_ok s" "ide_buf_ok (s\<lparr>last_packet_command := c\<rparr>) = ide_buf_ok s"
  "ide_buf_ok (s\<lparr>was_reset := e\<rparr>) = ide_buf_ok s" "ide_buf_ok (s\<lparr>ide_control := d\<rparr>) = ide_buf_ok s"
  "ide_buf_ok (s\<lparr>ide_error := d\<rparr>) = ide_buf_ok s" "ide_buf_ok (s\<lparr>ide_command := d\<rparr>) = ide_buf_ok s"
  "ide_buf_ok (s\<lparr>ide_lba1 := d\<rparr>) = ide_buf_ok s" "ide_buf_ok (s\<lparr>ide_lba2 := d\<rparr>) = ide_buf_ok s"
  by (simp_all add: ide_buf_ok_def)

lemma next_sector_buf:
  assumes "ide_buf_ok s" "ide_read_next_sector s = Some t"
  shows "ide_buf_ok t"
proof -
  obtain err b n where r: "gdrom_read_cd (gdrom_drive s) (current_lba s) 1 (current_mode s) (data_buffer s) = Some (err, b, n)"
    "err = CDROM_ERROR_OK \<longrightarrow> int n \<le> MAX_SECTOR_SIZE"
    using assms(1) unfolding ide_buf_ok_def drive_ok_def by metis
  have sense: "ide_buf_ok (set_sense_lba u) = ide_buf_ok u" for u :: "'a ide_state_scheme"
    by (simp add: set_sense_lba_def ide_buf_ok_def)
  show ?thesis
    using assms r by (auto simp: ide_read_next_sector_def Let_def sense set_result_buf start_read_buf split: if_splits)
qed

lemma drive_buf:
  assumes "ide_env_ok env" "ide_buf_ok s"
  shows "ide_buf_ok (snd (ide_get_drive_status env s))"
proof -
  have "drive_ok (fst (gdrom_get_drive_status (env_check_media env) (gdrom_drive s)))"
    using assms by (auto simp: gdrom_get_drive_status_def ide_env_ok_def ide_buf_ok_def split: option.split)
  then show ?thesis
    using assms(2) by (auto simp: ide_get_drive_status_def ide_buf_ok_def split: prod.split)
qed

lemma dma_copied_buf:
  fixes env :: "(('a) ide_state_scheme) ide_env" and s :: "('a) ide_state_scheme" and n addr :: u32
  assumes "copy_ok env" "ide_buf_ok s" "ide_phase s = IDE_STATE_DMA_READ" "0 < sint n"
  defines "x \<equiv> dma_xferlen n s"
  defines "u \<equiv> dma_copied env addr x s"
  shows "0 \<le> x" "x \<le> sint n" "ide_buf_ok u" "sectors_left u = sectors_left s" "x < sint n \<Longrightarrow> data_length u \<le> data_offset u"
proof -
  have p: "0 \<le> data_offset s" "data_offset s \<le> data_length s" "data_length s \<le> MAX_SECTOR_SIZE"
    using assms(2,3) by (auto simp: ide_buf_ok_def phase_ok_def)
  show "0 \<le> x" "x \<le> sint n" using p assms(4) by (auto simp: x_def dma_xferlen_def Let_def)
  moreover have "data_offset s + x \<le> data_length s" using p by (auto simp: x_def dma_xferlen_def Let_def)
  ultimately show "ide_buf_ok u"
    using assms(2,3) p by (auto simp: u_def dma_copied_def Let_def ide_buf_ok_def copy_sel [OF assms(1)] phase_ok_def)
  show "sectors_left u = sectors_left s" by (simp add: u_def dma_copied_def Let_def copy_sel [OF assms(1)])
  show "data_length u \<le> data_offset u" if "x < sint n"
    using that by (auto simp: u_def dma_copied_def Let_def copy_sel [OF assms(1)] x_def dma_xferlen_def split: if_splits)
qed

text \<open>Reading the next sector either counts it or ends the transfer.\<close>

lemma next_sector_counts:
  assumes "ide_buf_ok u" "ide_read_next_sector u = Some t" "ide_phase t = IDE_STATE_DMA_READ"
  shows "sectors_left t = sectors_left u - 1"
proof -
  have "gdrom_read_cd (gdrom_drive u) l 1 m b = Some (err, b', c) \<Longrightarrow> err \<noteq> CDROM_ERROR_OK \<Longrightarrow> ucast err \<noteq> (0 :: u16)"
    for l m b err b' c
    using assms(1) unfolding ide_buf_ok_def drive_ok_def by (metis option.inject prod.inject)
  then show ?thesis
    using assms(2,3) by (auto simp: ide_read_next_sector_def Let_def ide_start_read_def ide_set_packet_result_def set_sense_lba_def
      feature_dma_def split: option.splits if_splits)
qed

lemma dma_block_buf:
  assumes "copy_ok env" "ide_buf_ok s" "ide_phase s = IDE_STATE_DMA_READ" "0 < sint n"
    and "dma_block env addr n s = Some (k, fin, t)"
  shows "ide_buf_ok t" "0 \<le> k" "k \<le> sint n"
    "\<not> fin \<Longrightarrow> k < sint n \<Longrightarrow> ide_phase t = IDE_STATE_DMA_READ \<Longrightarrow> unat (sectors_left t) < unat (sectors_left s)"
proof -
  define u where "u = dma_copied env addr (dma_xferlen n s) s"
  note x = dma_copied_buf(1,2) [OF assms(1-4)]
  note c = dma_copied_buf(3-5) [OF assms(1-4), of addr, folded u_def]
  note r = assms(5) [unfolded dma_block_def Let_def, folded u_def]
  have idle: "ide_buf_ok (u\<lparr>data_offset := - 1, ide_phase := IDE_STATE_IDLE, ide_status := 0x50, ide_count := 0x03\<rparr>)"
    using c(1) by (simp add: ide_buf_ok_def)
  show "ide_buf_ok t" using r c(1) idle next_sector_buf by (auto split: if_splits)
  show "0 \<le> k" "k \<le> sint n" using r x by (auto split: if_splits)
  assume f: "\<not> fin" "k < sint n" "ide_phase t = IDE_STATE_DMA_READ"
  then have "data_length u \<le> data_offset u" using r c(3) by (auto split: if_splits)
  with r f have left: "0 < sectors_left u" and t: "ide_read_next_sector u = Some t" by (auto split: if_splits)
  have "unat (sectors_left u - 1) = unat (sectors_left u) - 1" using left by (intro unat_minus_one) auto
  then show "unat (sectors_left t) < unat (sectors_left s)"
    using next_sector_counts [OF c(1) t f(3)] left c(2) by (simp add: word_less_nat_alt)
qed

lemma advance_buf:
  assumes "ide_buf_ok s" "ide_phase s \<in> {IDE_STATE_CMD_WRITE, IDE_STATE_PIO_READ, IDE_STATE_PIO_WRITE}"
    and "data_offset s + 2 < data_length s"
  shows "ide_buf_ok (s\<lparr>data_offset := data_offset s + 2\<rparr>)"
  using assms by (auto simp: ide_buf_ok_def phase_ok_def)

lemma write_mode_buf:
  assumes "ide_buf_ok s" "0 \<le> l" "l \<le> MAX_SECTOR_SIZE"
  shows "ide_buf_ok (ide_write_buffer data (word_of_int l) s)"
proof (cases "last_packet_command s = ucast PKT_CMD_MODE_SELECT \<and> current_lba s < 10")
  case False
  then show ?thesis using assms(1) unfolding ide_write_buffer_def if_not_P [OF False] by blast
next
  case True
  define k where "k = unat (current_lba s)"
  define n where "n = unat (if 10 < current_lba s + word_of_int l then 10 - current_lba s else word_of_int l)"
  have k: "k < 10" using True by (simp add: k_def word_less_nat_alt)
  have l: "unat (word_of_int l :: u32) = nat l"
    using assms(2,3) by (simp add: MAX_SECTOR_SIZE_def unsigned_of_int take_bit_int_eq_self nat_eq_iff)
  have sum: "unat (current_lba s + word_of_int l) = k + nat l"
    using k assms(2,3) l by (simp add: k_def unat_word_ariths(1) MAX_SECTOR_SIZE_def)
  have "current_lba s \<le> 10" using True by (simp add: less_imp_le)
  then have "unat (10 - current_lba s) = 10 - k" by (simp add: k_def unat_sub)
  then have "k + n \<le> 32" using k sum l by (auto simp: n_def word_less_nat_alt)
  then show ?thesis
    using assms(1) True by (simp add: ide_write_buffer_def Let_def k_def [symmetric] n_def [symmetric]) (simp add: ide_buf_ok_def bytes_def)
qed

interpretation ide_buf: ide_invariant ide_buf_ok ide_env_ok
proof
  fix env :: "(('a) ide_state_scheme) ide_env" and s t :: "('a) ide_state_scheme" and addr want xfer fin
  assume s: "ide_buf_ok s"
  show "ide_buf_ok (ide_start_packet_read len cnt s)" "ide_buf_ok (ide_start_packet_write len cnt s)" if "unat len \<le> 2352" for len :: u32 and cnt
  proof -
    have "uint len = int (unat len)" by simp
    then have "0 \<le> uint len" "uint len \<le> MAX_SECTOR_SIZE" using that by (simp_all only: MAX_SECTOR_SIZE_def)
    moreover have "ide_buf_ok (ide_set_packet_result PKT_ERR_OK (s\<lparr>sectors_left := cnt\<rparr>))" using s by (simp add: set_result_buf)
    ultimately show "ide_buf_ok (ide_start_packet_read len cnt s)" "ide_buf_ok (ide_start_packet_write len cnt s)"
      unfolding ide_start_packet_read_def ide_start_packet_write_def
      using start_read_buf [of "ide_set_packet_result PKT_ERR_OK (s\<lparr>sectors_left := cnt\<rparr>)" "uint len" "feature_dma s"] by blast+
  qed
  show "ide_buf_ok (ide_write_buffer data (word_of_int (data_length s)) t)" if "ide_phase s = IDE_STATE_PIO_WRITE" "ide_buf_ok t" for data
    using s that by (intro write_mode_buf) (auto simp: ide_buf_ok_def phase_ok_def)
  show "ide_buf_ok (ide_reset s)"
    using s by (simp add: ide_reset_def ide_buf_ok_def default_gdrom_mode_def)
  show "ide_buf_ok (ide_start_command_packet_write s)"
    using s by (simp add: ide_start_command_packet_write_def ide_buf_ok_def phase_ok_def)
  show "ide_buf_ok (ide_write_control ctl s)" for ctl
    using s by (simp add: ide_write_control_def Let_def ide_buf_ok_def)
  show "ide_buf_ok (snd (ide_get_drive_status env s))" if "ide_env_ok env"
    by (rule drive_buf [OF that s])
  show "ide_buf_ok t" if "ide_env_ok env" "ide_phase s = IDE_STATE_DMA_READ" "0 < sint want"
    "dma_block env addr want s = Some (xfer, fin, t)"
    using dma_block_buf(1) [OF _ s that(2,3,4)] that(1) by (simp add: ide_env_ok_def)
  show "ide_buf_ok t" if "ide_read_next_sector s = Some t"
    by (rule next_sector_buf [OF s that])
  show "ide_buf_ok (s\<lparr>ide_phase := p, ide_count := w, data_offset := off\<rparr>)" if "p = IDE_STATE_IDLE \<or> p = IDE_STATE_BUSY" for p w off
    using s that by (auto simp: ide_buf_ok_def)
  show "ide_buf_ok (s\<lparr>ide_feature := f, ide_count := w, ide_lba0 := z, ide_lba1 := x, ide_lba2 := y,
      ide_device := d, interface_enabled := i\<rparr>)" for f w z x y d i
    using s by (simp add: ide_buf_ok_def)
qed (simp_all add: set_result_buf advance_buf)

section \<open>The operations return\<close>

lemma next_sector_returns:
  assumes "ide_buf_ok s"
  shows "\<exists>t. ide_read_next_sector s = Some t"
proof -
  obtain err b n where "gdrom_read_cd (gdrom_drive s) (current_lba s) 1 (current_mode s) (data_buffer s) = Some (err, b, n)"
    using assms unfolding ide_buf_ok_def drive_ok_def by metis
  then show ?thesis by (simp add: ide_read_next_sector_def Let_def)
qed

lemma dma_block_returns:
  assumes "copy_ok env" "ide_buf_ok s" "ide_phase s = IDE_STATE_DMA_READ" "0 < sint n"
  shows "\<exists>k fin t. dma_block env addr n s = Some (k, fin, t)"
  using next_sector_returns [OF dma_copied_buf(3) [OF assms, of addr]] by (auto simp: dma_block_def Let_def)

lemma dma_loop_returns:
  assumes "ide_env_ok env" "unat len < 2 ^ 31"
  shows "ide_buf_ok s \<Longrightarrow> x \<le> len \<Longrightarrow> \<exists>n t. dma_loop env a x len s = Some (n, t) \<and> n \<le> len \<and> ide_buf_ok t"
proof (induction "if dma_open x len s then Suc (unat (sectors_left s)) else 0" arbitrary: a x s rule: less_induct)
  case less
  show ?case
  proof (cases "dma_open x len s")
    case False
    then show ?thesis using less.prems by (subst dma_loop.simps) auto
  next
    case True
    then have p: "x < len" "ide_phase s = IDE_STATE_DMA_READ" by (simp_all add: dma_open_def)
    then have w: "unat (len - x) = unat len - unat x" by (intro unat_sub) simp
    then have small: "unat (len - x) < 2 ^ 31" "0 < unat (len - x)" using p(1) assms(2) by (simp_all add: word_less_nat_alt)
    have pos: "0 < sint (len - x)" using sint_small [OF small(1)] small(2) by linarith
    have copy: "copy_ok env" using assms(1) by (simp add: ide_env_ok_def)
    obtain k fin t where b: "dma_block env a (len - x) s = Some (k, fin, t)"
      using dma_block_returns [OF copy less.prems(1) p(2) pos] by blast
    note d = dma_block_buf [OF copy less.prems(1) p(2) pos b]
    have k: "k \<le> int (unat len) - int (unat x)" using d(3) sint_small [OF small(1)] w p(1) by (simp add: word_less_nat_alt)
    have "unat (of_int k :: u32) = nat k"
    proof -
      have "unat len < 2147483648" using assms(2) by simp
      then have "int (unat len) < int 2147483648" by (simp only: of_nat_less_iff)
      then have "k < int 2147483648" using k by linarith
      then show ?thesis using d(2) by (simp add: unsigned_of_int take_bit_int_eq_self nat_eq_iff)
    qed
    moreover have xle: "unat x + nat k \<le> unat len"
    proof -
      have "int (nat k) = k" using d(2) by simp
      then show ?thesis using k by linarith
    qed
    ultimately have xk: "unat (x + of_int k) = unat x + nat k"
      using unat_less_exp [of len] by (simp add: unat_word_ariths(1))
    then have le: "x + of_int k \<le> len" using xle by (simp add: word_le_nat_alt)
    show ?thesis
    proof (cases fin)
      case fin: True
      then show ?thesis using True b d(1) le by (subst dma_loop.simps) simp
    next
      case fin: False
      have "(if dma_open (x + of_int k) len t then Suc (unat (sectors_left t)) else 0) < Suc (unat (sectors_left s))"
      proof (cases "dma_open (x + of_int k) len t")
        case opened: True
        then have "unat x + nat k < unat len" using xk by (simp add: dma_open_def word_less_nat_alt)
        moreover have "int (nat k) = k" using d(2) by simp
        ultimately have "k < sint (len - x)" using sint_small [OF small(1)] w by linarith
        then show ?thesis using d(4) [OF fin] opened by (simp add: dma_open_def)
      qed simp
      then obtain n u where "dma_loop env (a + of_int k) (x + of_int k) len t = Some (n, u)" "n \<le> len" "ide_buf_ok u"
        using less.hyps [OF _ d(1) le, of "a + of_int k"] True by auto
      then show ?thesis using True b fin by (subst dma_loop.simps) simp
    qed
  qed
qed

lemma session_returns: "ide_buf_ok s \<Longrightarrow> \<exists>t. packet_read_toc s = Some t"
  by (auto simp: packet_read_toc_def Let_def gdrom_read_toc_def CHECK_DISC_def ide_buf_ok_def drive_ok_def split: option.splits)

lemma require_disc_returns:
  assumes "ide_env_ok env" "ide_buf_ok s" "\<And>u. ide_buf_ok u \<Longrightarrow> \<exists>t. body u = Some t"
  shows "\<exists>r. REQUIRE_DISC env body s = Some r"
  using assms(3) [OF drive_buf [OF assms(1,2)]] by (auto simp: REQUIRE_DISC_def split: prod.split)

lemma read_sector_returns: "ide_buf_ok s \<Longrightarrow> \<exists>t. packet_read_sector s = Some t"
  by (simp add: packet_read_sector_def next_sector_returns)

lemma dispatch_returns:
  assumes "ide_env_ok env" "ide_buf_ok s"
  shows "\<exists>r. packet_dispatch env s = Some r"
proof -
  have branch: "\<exists>r. a = Some r \<Longrightarrow> \<exists>r. b = Some r \<Longrightarrow> \<exists>r. (if c then a else b) = Some r" for a b :: "'x option" and c by simp
  have disc: "\<exists>r. REQUIRE_DISC env (\<lambda>s. Some (f s)) s = Some r" for f
    by (rule require_disc_returns [OF assms]) simp
  have sector: "\<exists>r. REQUIRE_DISC env packet_read_sector s = Some r"
    by (rule require_disc_returns [OF assms]) (rule read_sector_returns)
  have toc: "\<exists>r. map_option (Pair True) (packet_read_toc s) = Some r" using session_returns [OF assms(2)] by auto
  have some: "\<exists>r. Some x = Some r" for x :: "bool \<times> 'a ide_state_scheme" by simp
  show ?thesis
    unfolding packet_dispatch_def Let_def
    by (rule branch [OF disc branch [OF some branch [OF some branch [OF some branch [OF some branch [OF toc branch [OF some
      branch [OF some branch [OF sector branch [OF disc branch [OF disc branch [OF disc some]]]]]]]]]]]])
qed

lemma packet_command_returns: "ide_env_ok env \<Longrightarrow> ide_buf_ok s \<Longrightarrow> \<exists>t. ide_packet_command env s = Some t"
  using dispatch_returns [of env s] by (auto simp: ide_packet_command_def)

end
