(* ===== verification/ExtDma.thy ===== *)
theory ExtDma
  imports IdeInvariant
begin

unbundle bit_operations_syntax

text \<open>
  The register page \<open>EXTDMA\<close> of the system chip, the second half of \<open>asic.c\<close>: the registers of
  the drive, and the transfers by DMA of the drive, of the G2 bus and of the second channel of
  the graphics chip. Below the drive of \<open>Ide\<close> is the state of the whole machine; memory is
  reached through the environment.
\<close>

section \<open>Registers\<close>

definition IDEALTSTATUS :: u32 where "IDEALTSTATUS = 0x018"
definition IDEDATA :: u32 where "IDEDATA = 0x080"
definition IDEFEAT :: u32 where "IDEFEAT = 0x084"
definition IDECOUNT :: u32 where "IDECOUNT = 0x088"
definition IDELBA0 :: u32 where "IDELBA0 = 0x08C"
definition IDELBA1 :: u32 where "IDELBA1 = 0x090"
definition IDELBA2 :: u32 where "IDELBA2 = 0x094"
definition IDEDEV :: u32 where "IDEDEV = 0x098"
definition IDECMD :: u32 where "IDECMD = 0x09C"
definition IDEDMASH4 :: u32 where "IDEDMASH4 = 0x404"
definition IDEDMASIZ :: u32 where "IDEDMASIZ = 0x408"
definition IDEDMADIR :: u32 where "IDEDMADIR = 0x40C"
definition IDEDMACTL1 :: u32 where "IDEDMACTL1 = 0x414"
definition IDEDMACTL2 :: u32 where "IDEDMACTL2 = 0x418"
definition IDEACTIVATE :: u32 where "IDEACTIVATE = 0x4E4"
definition IDEDMATXSIZ :: u32 where "IDEDMATXSIZ = 0x4F8"
definition G2DMA0EXT :: u32 where "G2DMA0EXT = 0x800"
definition G2DMA0SH4 :: u32 where "G2DMA0SH4 = 0x804"
definition G2DMA0SIZ :: u32 where "G2DMA0SIZ = 0x808"
definition G2DMA0DIR :: u32 where "G2DMA0DIR = 0x80C"
definition G2DMA0MOD :: u32 where "G2DMA0MOD = 0x810"
definition G2DMA0CTL1 :: u32 where "G2DMA0CTL1 = 0x814"
definition G2DMA0CTL2 :: u32 where "G2DMA0CTL2 = 0x818"
definition G2DMA0STOP :: u32 where "G2DMA0STOP = 0x81C"
definition PVRDMA2EXT :: u32 where "PVRDMA2EXT = 0xC00"
definition PVRDMA2SH4 :: u32 where "PVRDMA2SH4 = 0xC04"
definition PVRDMA2SIZ :: u32 where "PVRDMA2SIZ = 0xC08"
definition PVRDMA2DIR :: u32 where "PVRDMA2DIR = 0xC0C"
definition PVRDMA2CTL1 :: u32 where "PVRDMA2CTL1 = 0xC14"
definition PVRDMA2CTL2 :: u32 where "PVRDMA2CTL2 = 0xC18"

lemmas extdma_regs = IDEALTSTATUS_def IDEDATA_def IDEFEAT_def IDECOUNT_def IDELBA0_def IDELBA1_def IDELBA2_def IDEDEV_def
  IDECMD_def IDEDMASH4_def IDEDMASIZ_def IDEDMADIR_def IDEDMACTL1_def IDEDMACTL2_def IDEACTIVATE_def IDEDMATXSIZ_def
  G2DMA0EXT_def G2DMA0SH4_def G2DMA0SIZ_def G2DMA0DIR_def G2DMA0MOD_def G2DMA0CTL1_def G2DMA0CTL2_def G2DMA0STOP_def
  PVRDMA2EXT_def PVRDMA2SH4_def PVRDMA2SIZ_def PVRDMA2DIR_def PVRDMA2CTL1_def PVRDMA2CTL2_def

definition EVENT_PVR_DMA2 :: nat where "EVENT_PVR_DMA2 = 11"
definition EVENT_IDE_DMA :: nat where "EVENT_IDE_DMA = 14"
definition EVENT_G2_DMA0 :: nat where "EVENT_G2_DMA0 = 15"

definition IS_IDE_REGISTER :: "u32 \<Rightarrow> bool" where
  "IS_IDE_REGISTER x \<longleftrightarrow> x \<le> IDEDMACTL2"

text \<open>The four channels of the G2 bus have blocks of 32 bytes each.\<close>

definition g2_offset :: "nat \<Rightarrow> u32" where
  "g2_offset channel = push_bit 5 (of_nat channel)"

definition EXTDMA_read :: "u32 \<Rightarrow> ('a) asic_state_scheme \<Rightarrow> u32" where
  "EXTDMA_read reg s = ld32 (mmio_EXTDMA s) reg"

definition EXTDMA_write :: "u32 \<Rightarrow> u32 \<Rightarrow> ('a) asic_state_scheme \<Rightarrow> ('a) asic_state_scheme" where
  "EXTDMA_write reg v s = s\<lparr>mmio_EXTDMA := st32 (mmio_EXTDMA s) reg v\<rparr>"

section \<open>Transfers\<close>

definition asic_enable_ide_interface :: "bool \<Rightarrow> ('a) ide_state_scheme \<Rightarrow> bool \<times> ('a) ide_state_scheme" where
  "asic_enable_ide_interface enable s = (interface_enabled s, s\<lparr>interface_enabled := enable\<rparr>)"

text \<open>A copy within the memory of the processor through a buffer of the size of the transfer.\<close>

definition bus_copy :: "'s asic_env \<Rightarrow> u32 \<Rightarrow> u32 \<Rightarrow> u32 \<Rightarrow> 's \<Rightarrow> 's" where
  "bus_copy env to from len s = env_mem_copy_to_sh4 env to (env_mem_copy_from_sh4 env from len s) s"

definition g2_dma_transfer :: "(('a) ide_state_scheme) asic_env \<Rightarrow> nat \<Rightarrow> ('a) ide_state_scheme \<Rightarrow> ('a) ide_state_scheme" where
  "g2_dma_transfer env channel s =
    (let offset = g2_offset channel
     in if EXTDMA_read (G2DMA0CTL1 + offset) s = 1 then
          (if EXTDMA_read (G2DMA0CTL2 + offset) s = 1 then
             (let extaddr = EXTDMA_read (G2DMA0EXT + offset) s;
                  sh4addr = EXTDMA_read (G2DMA0SH4 + offset) s;
                  len = EXTDMA_read (G2DMA0SIZ + offset) s AND 0x1FFFFFFF;
                  dir = EXTDMA_read (G2DMA0DIR + offset) s;
                  s1 = (if dir = 0 then bus_copy env extaddr sh4addr len s else bus_copy env sh4addr extaddr len s)
              in asic_event (EVENT_G2_DMA0 + channel) (EXTDMA_write (G2DMA0CTL2 + offset) 0 s1))
           else EXTDMA_write (G2DMA0CTL2 + offset) 0 s)
        else s)"

definition asic_ide_dma_transfer ::
  "(('a) ide_state_scheme) ide_env \<Rightarrow> ('a) ide_state_scheme \<Rightarrow> (('a) ide_state_scheme) option" where
  "asic_ide_dma_transfer env s =
    (if EXTDMA_read IDEDMACTL2 s = 1 then
       (if EXTDMA_read IDEDMACTL1 s = 1 then
          (let s1 = EXTDMA_write IDEDMATXSIZ 0 s;
               addr = EXTDMA_read IDEDMASH4 s1;
               len = EXTDMA_read IDEDMASIZ s1
           in map_option (\<lambda>(xfer, s2). asic_event EVENT_IDE_DMA
                  (EXTDMA_write IDEDMACTL2 0 (EXTDMA_write IDEDMATXSIZ xfer s2)))
                (ide_read_data_dma env addr len s1))
        else Some (EXTDMA_write IDEDMACTL2 0 s))
     else Some s)"

definition pvr_dma2_transfer :: "(('a) ide_state_scheme) asic_env \<Rightarrow> ('a) ide_state_scheme \<Rightarrow> ('a) ide_state_scheme" where
  "pvr_dma2_transfer env s =
    (if EXTDMA_read PVRDMA2CTL2 s = 1 then
       (if EXTDMA_read PVRDMA2CTL1 s = 1 then
          (let extaddr = EXTDMA_read PVRDMA2EXT s;
               sh4addr = EXTDMA_read PVRDMA2SH4 s;
               dir = EXTDMA_read PVRDMA2DIR s;
               len = EXTDMA_read PVRDMA2SIZ s;
               s1 = (if dir = 0 then bus_copy env extaddr sh4addr len s else bus_copy env sh4addr extaddr len s)
           in asic_event EVENT_PVR_DMA2 (EXTDMA_write PVRDMA2CTL2 0 s1))
        else s)
     else s)"

section \<open>The page\<close>

text \<open>\<open>None\<close> is a call of \<open>abort\<close> in a sector source of the drive.\<close>

definition mmio_region_EXTDMA_read ::
  "(('a) ide_state_scheme) ide_env \<Rightarrow> u32 \<Rightarrow> ('a) ide_state_scheme \<Rightarrow> (u32 \<times> ('a) ide_state_scheme) option" where
  "mmio_region_EXTDMA_read env reg0 s =
    (let reg = reg0 AND 0xFFF
     in if \<not> interface_enabled s \<and> IS_IDE_REGISTER reg then Some (0xFFFFFFFF, s)
        else if reg = IDEALTSTATUS then Some (ucast (ide_status s), s)
        else if reg = IDEDATA then map_option (map_prod ucast id) (ide_read_data_pio s)
        else if reg = IDEFEAT then Some (ucast (ide_error s), s)
        else if reg = IDECOUNT then Some (ucast (ide_count s), s)
        else if reg = IDELBA0 then Some (map_prod ucast id (ide_get_drive_status env s))
        else if reg = IDELBA1 then Some (ucast (ide_lba1 s), s)
        else if reg = IDELBA2 then Some (ucast (ide_lba2 s), s)
        else if reg = IDEDEV then Some (ucast (ide_device s), s)
        else if reg = IDECMD then Some (map_prod ucast id (ide_read_status s))
        else Some (EXTDMA_read reg s, s))"

definition g2_registers :: "u32 \<Rightarrow> u32 set" where
  "g2_registers reg = (\<lambda>channel. reg + g2_offset channel) ` {0, 1, 2, 3}"

definition G2DMA0 :: "u32 \<Rightarrow> bool" where
  "G2DMA0 reg \<longleftrightarrow> reg \<in> g2_registers G2DMA0EXT \<union> g2_registers G2DMA0SH4 \<union> g2_registers G2DMA0SIZ"

definition mmio_region_EXTDMA_write ::
  "(('a) ide_state_scheme) ide_env \<Rightarrow> u32 \<Rightarrow> u32 \<Rightarrow> ('a) ide_state_scheme \<Rightarrow> (('a) ide_state_scheme) option" where
  "mmio_region_EXTDMA_write env reg0 v s =
    (let reg = reg0 AND 0xFFF; writable = ide_can_write_regs s; mem = asic_env.truncate env
     in if \<not> interface_enabled s \<and> IS_IDE_REGISTER reg then Some s
        else if reg = IDEALTSTATUS then Some (ide_write_control (ucast v) s)
        else if reg = IDEDATA then ide_write_data_pio env (ucast v) s
        else if reg = IDEFEAT then Some (if writable then s\<lparr>ide_feature := ucast v\<rparr> else s)
        else if reg = IDECOUNT then Some (if writable then s\<lparr>ide_count := ucast v\<rparr> else s)
        else if reg = IDELBA0 then Some (if writable then s\<lparr>ide_lba0 := ucast v\<rparr> else s)
        else if reg = IDELBA1 then Some (if writable then s\<lparr>ide_lba1 := ucast v\<rparr> else s)
        else if reg = IDELBA2 then Some (if writable then s\<lparr>ide_lba2 := ucast v\<rparr> else s)
        else if reg = IDEDEV then Some (if writable then s\<lparr>ide_device := ucast v\<rparr> else s)
        else if reg = IDECMD then Some (if writable \<or> v = ucast IDE_CMD_NOP then ide_write_command (ucast v) s else s)
        else if reg = IDEDMASH4 then Some (EXTDMA_write reg (v AND 0x1FFFFFE0) s)
        else if reg = IDEDMASIZ then Some (EXTDMA_write reg (v AND 0x01FFFFFE) s)
        else if reg = IDEDMADIR then Some (EXTDMA_write reg (v AND 1) s)
        else if reg = IDEDMACTL1 \<or> reg = IDEDMACTL2 then asic_ide_dma_transfer env (EXTDMA_write reg (v AND 0x01) s)
        else if reg = IDEACTIVATE then
          Some (if v = 0x001FFFFF then s\<lparr>interface_enabled := True\<rparr>
                else if v = 0x000042FE then s\<lparr>interface_enabled := False\<rparr> else s)
        else if G2DMA0 reg then Some (EXTDMA_write reg (v AND 0x9FFFFFE0) s)
        else if reg \<in> g2_registers G2DMA0MOD then Some (EXTDMA_write reg (v AND 0x07) s)
        else if reg \<in> g2_registers G2DMA0DIR then Some (EXTDMA_write reg (v AND 0x01) s)
        else if reg \<in> g2_registers G2DMA0CTL1 \<union> g2_registers G2DMA0CTL2 then
          Some (g2_dma_transfer mem (unat (drop_bit 5 (reg AND 0x60))) (EXTDMA_write reg (v AND 1) s))
        else if reg \<in> g2_registers G2DMA0STOP then Some (EXTDMA_write reg (v AND 0x37) s)
        else if reg = PVRDMA2CTL1 \<or> reg = PVRDMA2CTL2 then Some (pvr_dma2_transfer mem (EXTDMA_write reg (v AND 1) s))
        else Some (EXTDMA_write reg v s))"


section \<open>The page, for any invariant of the drive\<close>

text \<open>The size register of the drive keeps its mask, so sizes are never negative as C integers.\<close>

definition dma_size_ok :: "('a) ide_state_scheme \<Rightarrow> bool" where
  "dma_size_ok s \<longleftrightarrow> unat (EXTDMA_read IDEDMASIZ s) < 2 ^ 31"

definition dma_events :: "nat set" where "dma_events = {11, 14, 15, 16, 17, 18}"

text \<open>Two different aligned registers do not overlap.\<close>

lemma aligned_apart:
  fixes a b :: u32
  assumes "a AND 3 = 0" "b AND 3 = 0" "a \<noteq> b"
  shows "apart a b"
proof -
  have m: "uint (w AND 3) = uint w mod 4" for w :: u32
  proof -
    have "w AND 3 = take_bit 2 w" by (simp add: take_bit_eq_mask mask_eq_exp_minus_1)
    moreover have "uint (take_bit 2 w) = take_bit 2 (uint w)" by (simp only: unsigned_take_bit_eq)
    ultimately show ?thesis unfolding take_bit_int_def by (simp only:) simp
  qed
  have "3 < v - w" if "v AND 3 = 0" "w AND 3 = 0" "v \<noteq> w" for v w :: u32
  proof -
    have "uint v mod 4 = 0" "uint w mod 4 = 0" using m [of v] m [of w] that by simp_all
    moreover have "uint (v - w) = (uint v - uint w) mod 4294967296" by (simp add: uint_word_ariths)
    moreover have "(uint v - uint w) mod 4294967296 mod 4 = (uint v - uint w) mod 4" by (rule mod_mod_cancel) simp
    ultimately have "uint (v - w) mod 4 = 0" by (simp add: mod_diff_eq [of "uint v", symmetric])
    moreover have "v - w \<noteq> 0" using that(3) by simp
    then have "0 < v - w" by (simp only: word_gt_0)
    then have "0 < uint (v - w)" unfolding word_less_def by simp
    ultimately have "3 < uint (v - w)" by presburger
    then show ?thesis by (simp add: word_less_def)
  qed
  then show ?thesis using assms by (auto simp: apart_def)
qed

lemma g2_offsets: "channel < 4 \<Longrightarrow> g2_offset channel \<in> {0, 0x20, 0x40, 0x60}"
proof -
  assume "channel < 4"
  then have "channel \<in> {0, 1, 2, 3}" by auto
  then show ?thesis by (auto simp: g2_offset_def)
qed

text \<open>A write to another aligned register keeps the size of transfers.\<close>

lemma size_other: "\<lbrakk>dma_size_ok s; reg AND 3 = 0; reg \<noteq> IDEDMASIZ\<rbrakk> \<Longrightarrow> unat (ld32 (st32 (mmio_EXTDMA s) reg v) IDEDMASIZ) < 2 ^ 31"
  using ld32_st32_apart [OF aligned_apart [of reg IDEDMASIZ]] by (simp add: dma_size_ok_def EXTDMA_read_def IDEDMASIZ_def)

lemma map_prod_snd: "map_prod f id p = (v, t) \<Longrightarrow> t = snd p"
  by (cases p) auto

lemma if_someE:
  "\<lbrakk>(if P then x else y) = Some u; \<lbrakk>P; x = Some u\<rbrakk> \<Longrightarrow> Q; y = Some u \<Longrightarrow> Q\<rbrakk> \<Longrightarrow> Q"
  by (cases P) simp_all

locale extdma_invariant = ide_invariant I E
  for I :: "('a) ide_state_scheme \<Rightarrow> bool" and E :: "(('a) ide_state_scheme) ide_env \<Rightarrow> bool" +
  assumes event: "\<lbrakk>I s; e \<in> dma_events\<rbrakk> \<Longrightarrow> I (asic_event e s)"
    and copy: "\<lbrakk>E env; I s\<rbrakk> \<Longrightarrow> I (env_mem_copy_to_sh4 env a bs s)"
    and page: "\<lbrakk>I s; unat (ld32 m IDEDMASIZ) < 2 ^ 31\<rbrakk> \<Longrightarrow> I (s\<lparr>mmio_EXTDMA := m\<rparr>)"
    and dsize: "I s \<Longrightarrow> dma_size_ok s"
begin

lemma other_write: "\<lbrakk>I s; reg AND 3 = 0; reg \<noteq> IDEDMASIZ\<rbrakk> \<Longrightarrow> I (EXTDMA_write reg v s)"
  unfolding EXTDMA_write_def by (intro page size_other dsize)

lemma bus: "E env \<Longrightarrow> I s \<Longrightarrow> I (bus_copy (asic_env.truncate env) a b n s)"
  by (simp add: bus_copy_def asic_env.truncate_def copy)

lemma g2_transfer:
  assumes "E env" "I s" "channel < 4"
  shows "I (g2_dma_transfer (asic_env.truncate env) channel s)"
proof -
  have "(G2DMA0CTL2 + g2_offset channel) AND 3 = 0 \<and> G2DMA0CTL2 + g2_offset channel \<noteq> IDEDMASIZ"
    using g2_offsets [OF assms(3)] by (auto simp: extdma_regs)
  then have w: "I u \<Longrightarrow> I (EXTDMA_write (G2DMA0CTL2 + g2_offset channel) 0 u)" for u by (simp add: other_write)
  have "EVENT_G2_DMA0 + channel \<in> dma_events" using assms(3) by (auto simp: EVENT_G2_DMA0_def dma_events_def)
  then show ?thesis
    using assms(2) bus [OF assms(1,2)] by (auto simp: g2_dma_transfer_def Let_def intro!: event w)
qed

lemma pvr_transfer: "E env \<Longrightarrow> I s \<Longrightarrow> I (pvr_dma2_transfer (asic_env.truncate env) s)"
  using bus [of env s]
  by (auto simp: pvr_dma2_transfer_def Let_def EVENT_PVR_DMA2_def dma_events_def PVRDMA2CTL2_def IDEDMASIZ_def
      intro!: event other_write)

lemma ide_transfer:
  assumes "E env" "I s" "asic_ide_dma_transfer env s = Some t"
  shows "I t"
proof -
  have w: "I u \<Longrightarrow> I (EXTDMA_write IDEDMATXSIZ v u)" "I u \<Longrightarrow> I (EXTDMA_write IDEDMACTL2 v u)" for u v
    by (simp_all add: other_write extdma_regs)
  let ?s = "EXTDMA_write IDEDMATXSIZ 0 s"
  have s: "I ?s" by (rule w(1) [OF assms(2)])
  have "unat (EXTDMA_read IDEDMASIZ ?s) < 2 ^ 31" using dsize [OF s] by (simp add: dma_size_ok_def)
  then have "I u" if "ide_read_data_dma env a (EXTDMA_read IDEDMASIZ ?s) ?s = Some (n, u)" for a n u
    using loop [OF assms(1) _ s] that by (simp add: ide_read_data_dma_def)
  then show ?thesis
    using assms(2,3) by (auto simp: asic_ide_dma_transfer_def Let_def EVENT_IDE_DMA_def dma_events_def
      intro!: event w split: if_splits)
qed

lemma register:
  assumes "I s"
  shows "I (s\<lparr>ide_feature := f\<rparr>)" "I (s\<lparr>ide_count := w\<rparr>)" "I (s\<lparr>ide_lba0 := z\<rparr>)" "I (s\<lparr>ide_lba1 := x\<rparr>)" "I (s\<lparr>ide_lba2 := y\<rparr>)"
    "I (s\<lparr>ide_device := d\<rparr>)" "I (s\<lparr>interface_enabled := i\<rparr>)"
  using registers [OF assms, where f = f and w = "ide_count s" and z = "ide_lba0 s" and x = "ide_lba1 s" and y = "ide_lba2 s"
        and d = "ide_device s" and i = "interface_enabled s"]
    registers [OF assms, where f = "ide_feature s" and w = w and z = "ide_lba0 s" and x = "ide_lba1 s" and y = "ide_lba2 s"
        and d = "ide_device s" and i = "interface_enabled s"]
    registers [OF assms, where f = "ide_feature s" and w = "ide_count s" and z = z and x = "ide_lba1 s" and y = "ide_lba2 s"
        and d = "ide_device s" and i = "interface_enabled s"]
    registers [OF assms, where f = "ide_feature s" and w = "ide_count s" and z = "ide_lba0 s" and x = x and y = "ide_lba2 s"
        and d = "ide_device s" and i = "interface_enabled s"]
    registers [OF assms, where f = "ide_feature s" and w = "ide_count s" and z = "ide_lba0 s" and x = "ide_lba1 s" and y = y
        and d = "ide_device s" and i = "interface_enabled s"]
    registers [OF assms, where f = "ide_feature s" and w = "ide_count s" and z = "ide_lba0 s" and x = "ide_lba1 s" and y = "ide_lba2 s"
        and d = d and i = "interface_enabled s"]
    registers [OF assms, where f = "ide_feature s" and w = "ide_count s" and z = "ide_lba0 s" and x = "ide_lba1 s" and y = "ide_lba2 s"
        and d = "ide_device s" and i = i]
  by simp_all

lemma page_read:
  assumes "E env" "I s" "mmio_region_EXTDMA_read env reg s = Some (v, t)"
  shows "I t"
  using assms by (auto simp: mmio_region_EXTDMA_read_def Let_def intro: read_status read_pio drive
      dest!: map_prod_snd split: if_splits)

lemma page_write:
  assumes "E env" "I s" "reg AND 3 = 0" "mmio_region_EXTDMA_write env reg v s = Some t"
  shows "I t"
proof -
  define r where "r = reg AND 0xFFF"
  define c where "c = unat (drop_bit 5 (r AND 0x60))"
  have r: "r AND 3 = 0" using assms(3) by (simp add: r_def and.assoc)
  have c: "c < 4"
  proof -
    have "r AND 0x60 \<le> 0x60" by (rule word_and_le1)
    then have "unat (r AND 0x60) \<le> 0x60" by (simp add: word_le_nat_alt)
    then have "unat (r AND 0x60) div 32 \<le> 0x60 div 32" by (rule div_le_mono)
    moreover have "c = drop_bit 5 (unat (r AND 0x60))" unfolding c_def by (rule unat_drop_bit_eq)
    ultimately show ?thesis unfolding drop_bit_nat_def by (simp only:) simp
  qed
  have size: "I (EXTDMA_write IDEDMASIZ (v AND 0x01FFFFFE) s)"
  proof -
    have "v AND 0x01FFFFFE \<le> 0x01FFFFFE" by (rule word_and_le1)
    then have "unat (v AND 0x01FFFFFE) \<le> 0x01FFFFFE" by (simp add: word_le_nat_alt)
    then show ?thesis unfolding EXTDMA_write_def by (intro page assms(2)) simp
  qed
  note step = assms(4) [unfolded mmio_region_EXTDMA_write_def Let_def, folded r_def, folded c_def]
  show ?thesis
  proof (cases "r = IDEDMASIZ")
    case True
    then show ?thesis using step size assms(2) by (simp add: extdma_regs split: if_splits)
  next
    case False
    then have w: "\<forall>x. I (EXTDMA_write r x s)" using other_write [OF assms(2) r] by simp
    note op = register [OF assms(2)] control [OF assms(2)] write_command [OF assms(2)]
      g2_transfer [OF assms(1) _ c] pvr_transfer [OF assms(1)]
    show ?thesis
      using step w assms(2) False
      by (elim if_someE) (auto simp: op dest!: write_pio [OF assms(1,2)] ide_transfer [OF assms(1), rotated])
  qed
qed

end

section \<open>The invariants of the drive, on the page\<close>

lemma asic_regs_EXTDMA [simp]:
  "mmio_EXTDMA (intc_raise_interrupt w s) = mmio_EXTDMA s" "mmio_EXTDMA (intc_clear_interrupt w s) = mmio_EXTDMA s"
  "mmio_EXTDMA (ASIC_write r v s) = mmio_EXTDMA s"
  by (simp_all add: intc_raise_interrupt_def intc_clear_interrupt_def intc_mask_changed_def Let_def
      sh4_set_event_pending_def ASIC_write_def split: option.split)

lemma asic_event_EXTDMA [simp]:
  "mmio_EXTDMA (asic_event e s) = mmio_EXTDMA s" "mmio_EXTDMA (asic_clear_event e s) = mmio_EXTDMA s"
proof -
  have post: "mmio_EXTDMA (asic_post e s) = mmio_EXTDMA s" for e and s :: "'a asic_state_scheme"
    by (simp add: asic_post_def Let_def)
  show "mmio_EXTDMA (asic_event e s) = mmio_EXTDMA s" by (simp add: asic_event_unfold post)
  show "mmio_EXTDMA (asic_clear_event e s) = mmio_EXTDMA s"
    by (simp add: asic_clear_event_def asic_check_cleared_events_def Let_def)
qed

lemma ide_EXTDMA [simp]:
  "mmio_EXTDMA (ide_raise_interrupt s) = mmio_EXTDMA s" "mmio_EXTDMA (ide_clear_interrupt s) = mmio_EXTDMA s"
  by (simp_all add: ide_raise_interrupt_def ide_clear_interrupt_def Let_def)

lemma next_sector_EXTDMA: "ide_read_next_sector s = Some t \<Longrightarrow> mmio_EXTDMA t = mmio_EXTDMA s"
  by (auto simp: ide_read_next_sector_def Let_def set_sense_lba_def ide_set_packet_result_def ide_start_read_def
      split: option.splits if_splits)

lemma copy_EXTDMA: "copy_ok env \<Longrightarrow> mmio_EXTDMA (env_mem_copy_to_sh4 env a bs s) = mmio_EXTDMA s"
  using copy_sel(1) [of env a bs s]
  by (cases "env_mem_copy_to_sh4 env a bs s"; cases s) (simp add: asic_state.truncate_def)

lemma dma_block_EXTDMA:
  assumes "copy_ok env" "dma_block env addr n s = Some (k, fin, t)"
  shows "mmio_EXTDMA t = mmio_EXTDMA s"
proof -
  have "mmio_EXTDMA (dma_copied env addr x s) = mmio_EXTDMA s" for x
    by (simp add: dma_copied_def Let_def copy_EXTDMA [OF assms(1)])
  then show ?thesis
    using assms(2) by (auto simp: dma_block_def Let_def dest: next_sector_EXTDMA split: if_splits)
qed

lemma dma_size_cong: "mmio_EXTDMA s = mmio_EXTDMA t \<Longrightarrow> dma_size_ok s = dma_size_ok t"
  by (simp add: dma_size_ok_def EXTDMA_read_def)

interpretation ide_size: ide_invariant dma_size_ok copy_ok
proof
  fix env :: "(('a) ide_state_scheme) ide_env" and s t :: "('a) ide_state_scheme" and addr want xfer fin
  assume s: "dma_size_ok s"
  show "dma_size_ok (ide_set_packet_result code s)" "dma_size_ok (ide_start_packet_read len cnt s)"
    "dma_size_ok (ide_start_packet_write len cnt s)" for code len cnt
    using s by (simp_all add: dma_size_ok_def EXTDMA_read_def ide_start_packet_read_def ide_start_packet_write_def
      ide_start_read_def ide_start_write_def ide_set_packet_result_def Let_def)
  show "dma_size_ok (ide_write_buffer data len u)" if "dma_size_ok u" for data len and u :: "'a ide_state_scheme"
    using that by (simp add: ide_write_buffer_def Let_def dma_size_ok_def EXTDMA_read_def)
  show "dma_size_ok (ide_reset s)" "dma_size_ok (ide_start_command_packet_write s)" "dma_size_ok (ide_write_control ctl s)"
    "dma_size_ok (snd (ide_get_drive_status env s))" for ctl
    using s by (simp_all add: ide_reset_def ide_start_command_packet_write_def ide_write_control_def ide_get_drive_status_def
      Let_def dma_size_ok_def EXTDMA_read_def split: prod.split)
  show "dma_size_ok t" if "ide_read_next_sector s = Some t"
    using dma_size_cong [OF next_sector_EXTDMA [OF that]] s by simp
  show "dma_size_ok t" if "copy_ok env" "dma_block env addr want s = Some (xfer, fin, t)"
    using dma_size_cong [OF dma_block_EXTDMA [OF that]] s by simp
qed (simp_all add: dma_size_ok_def EXTDMA_read_def)

lemma ide_invariant_conj:
  fixes I J :: "('a) ide_state_scheme \<Rightarrow> bool" and E F G :: "(('a) ide_state_scheme) ide_env \<Rightarrow> bool"
  assumes "ide_invariant I E" "ide_invariant J F" "\<And>env. G env \<Longrightarrow> E env \<and> F env"
  shows "ide_invariant (\<lambda>s. I s \<and> J s) G"
proof
  fix env :: "(('a) ide_state_scheme) ide_env" and s t :: "('a) ide_state_scheme" and addr want xfer fin
  assume s: "I s \<and> J s"
  show "I t \<and> J t" if "ide_read_next_sector s = Some t"
    using s that ide_invariant.next_sector [OF assms(1)] ide_invariant.next_sector [OF assms(2)] by blast
  show "I t \<and> J t" if "G env" "ide_phase s = IDE_STATE_DMA_READ" "0 < sint want" "dma_block env addr want s = Some (xfer, fin, t)"
    using s assms(3) [OF that(1)] ide_invariant.block [OF assms(1) _ _ that(2-4)] ide_invariant.block [OF assms(2) _ _ that(2-4)] by blast
qed (auto dest!: assms(3) intro: ide_invariant.raise [OF assms(1)] ide_invariant.clear [OF assms(1)] ide_invariant.result [OF assms(1)]
      ide_invariant.fields [OF assms(1)] ide_invariant.registers [OF assms(1)] ide_invariant.packet_read [OF assms(1)]
      ide_invariant.packet_write [OF assms(1)] ide_invariant.halt [OF assms(1)] ide_invariant.advance [OF assms(1)]
      ide_invariant.write_mode [OF assms(1)] ide_invariant.reset [OF assms(1)] ide_invariant.packet_start [OF assms(1)]
      ide_invariant.control [OF assms(1)] ide_invariant.drive [OF assms(1)] ide_invariant.raise [OF assms(2)]
      ide_invariant.clear [OF assms(2)] ide_invariant.result [OF assms(2)] ide_invariant.fields [OF assms(2)]
      ide_invariant.registers [OF assms(2)] ide_invariant.packet_read [OF assms(2)] ide_invariant.packet_write [OF
      assms(2)] ide_invariant.halt [OF assms(2)] ide_invariant.advance [OF assms(2)] ide_invariant.write_mode [OF
      assms(2)] ide_invariant.reset [OF assms(2)] ide_invariant.packet_start [OF assms(2)] ide_invariant.control [OF
      assms(2)] ide_invariant.drive [OF assms(2)])

lemma dma_event_other: "e \<in> dma_events \<Longrightarrow> e < 96 \<and> e < 30"
  by (auto simp: dma_events_def)

text \<open>The events of the other devices do not touch the line of the drive.\<close>

lemma other_event_irq:
  assumes "ide_irq_ok s" "e < 96" "e < 30 \<or> 32 < e"
  shows "ide_irq_ok (asic_event e s)"
proof -
  have in3: "4 \<in> pirq_offsets" by (simp add: pirq_offsets_def)
  have "bit (pirq 4 (asic_event e s)) 0 = bit (pirq 4 s) 0"
    using assms(2,3) by (auto simp: asic_event_unfold asic_post_pirq in3 event_offset_cases bit_or_iff event_bit_bit)
  then show ?thesis
    using assms asic_event_lines [of s e] asic_event_cascade [of s e]
    by (auto simp: ide_irq_ok_def ide_line_ok_def IS_IDE_IRQ_ENABLED_def)
qed

interpretation page_irq: extdma_invariant "\<lambda>s. ide_irq_ok s \<and> dma_size_ok s" copy_ok
proof (intro extdma_invariant.intro ide_invariant_conj [OF ide_irq.ide_invariant_axioms ide_size.ide_invariant_axioms]
    extdma_invariant_axioms.intro)
  fix env :: "(('a) ide_state_scheme) ide_env" and s :: "('a) ide_state_scheme" and a bs
  assume s: "ide_irq_ok s \<and> dma_size_ok s" and c: "copy_ok env"
  have "ide_irq_ok (env_mem_copy_to_sh4 env a bs s)"
    using s ide_irq_cong [of "env_mem_copy_to_sh4 env a bs s" s] by (simp add: copy_sel [OF c])
  then show "ide_irq_ok (env_mem_copy_to_sh4 env a bs s) \<and> dma_size_ok (env_mem_copy_to_sh4 env a bs s)"
    using s dma_size_cong [OF copy_EXTDMA [OF c]] by simp
qed (auto simp: dma_size_ok_def EXTDMA_read_def dest: dma_event_other intro: other_event_irq)

interpretation page_buf: extdma_invariant "\<lambda>s. ide_buf_ok s \<and> dma_size_ok s" ide_env_ok
proof (intro extdma_invariant.intro ide_invariant_conj [OF ide_buf.ide_invariant_axioms ide_size.ide_invariant_axioms]
    extdma_invariant_axioms.intro)
  fix env :: "(('a) ide_state_scheme) ide_env" and s :: "('a) ide_state_scheme" and a bs
  assume s: "ide_buf_ok s \<and> dma_size_ok s" and e: "ide_env_ok env"
  then have c: "copy_ok env" by (simp add: ide_env_ok_def)
  show "ide_buf_ok (env_mem_copy_to_sh4 env a bs s) \<and> dma_size_ok (env_mem_copy_to_sh4 env a bs s)"
    using s dma_size_cong [OF copy_EXTDMA [OF c]] by (simp add: ide_buf_ok_def copy_sel [OF c])
qed (auto simp: ide_buf_ok_def ide_env_ok_def dma_size_ok_def EXTDMA_read_def)

end
