(* ===== verification/DriveBus.thy ===== *)
theory DriveBus
  imports ExtDma
begin

unbundle bit_operations_syntax

text \<open>
  The drive as a program sees it: every sequence of accesses to the register pages of the system
  chip, mixed with the events of the other devices. The section proves that the interrupt line
  follows the requests of the drive, that no access leaves the sector buffer, and that every
  access and every command returns and is answered.
\<close>

section \<open>Accesses of a program\<close>

definition irq_registers :: "u32 set" where
  "irq_registers = {PIRQ0, PIRQ1, PIRQ2, IRQA0, IRQA1, IRQA2, IRQB0, IRQB1, IRQB2, IRQC0, IRQC1, IRQC2}"

inductive bus_step :: "(('a) ide_state_scheme) ide_env \<Rightarrow> ('a) ide_state_scheme \<Rightarrow> ('a) ide_state_scheme \<Rightarrow> bool"
  for env where
  bus_read: "reg AND 3 = 0 \<Longrightarrow> mmio_region_EXTDMA_read env reg s = Some (v, t) \<Longrightarrow> bus_step env s t"
| bus_write: "reg AND 3 = 0 \<Longrightarrow> mmio_region_EXTDMA_write env reg v s = Some t \<Longrightarrow> bus_step env s t"
| bus_irq: "reg \<in> irq_registers \<Longrightarrow> mmio_region_ASIC_write (asic_env.truncate env) reg v s = Some t \<Longrightarrow> bus_step env s t"
| bus_event: "e < 96 \<Longrightarrow> e < 30 \<or> 32 < e \<Longrightarrow> bus_step env s (asic_event e s)"

inductive_cases bus_stepE: "bus_step env s t"

lemma mask_changed_more [simp]:
  "asic_state.more (asic_event_mask_changed s) = asic_state.more s"
  "mmio_EXTDMA (asic_event_mask_changed s) = mmio_EXTDMA s"
  by (simp_all add: asic_event_mask_changed_def Let_def)

lemma check_cleared_EXTDMA [simp]: "mmio_EXTDMA (asic_check_cleared_events s) = mmio_EXTDMA s"
  by (simp add: asic_check_cleared_events_def Let_def)

text \<open>Writes to the interrupt registers leave the drive and the second pending word alone.\<close>

lemma irq_write_frame:
  assumes "reg \<in> irq_registers" "mmio_region_ASIC_write env reg v s = Some t"
  shows "asic_state.more t = asic_state.more s" "mmio_EXTDMA t = mmio_EXTDMA s" "pirq 4 t = pirq 4 s"
proof -
  have reg: "reg AND 0xFFF = reg" using assms(1) by (auto simp: irq_registers_def asic_reg_defs)
  have in3: "0 \<in> pirq_offsets" "4 \<in> pirq_offsets" "8 \<in> pirq_offsets" by (simp_all add: pirq_offsets_def)
  have w: "pirq 4 (ASIC_write PIRQ0 x u) = pirq 4 u" "pirq 4 (ASIC_write PIRQ2 x u) = pirq 4 u" for x and u :: "'a asic_state_scheme"
    using pirq_write [OF in3(1,2), of x u] pirq_write [OF in3(3,2), of x u] by (simp_all add: three_regs(2))
  have m: "pirq 4 (asic_event_mask_changed (ASIC_write reg v s)) = pirq 4 s" if "reg \<in> {IRQA0, IRQA1, IRQA2, IRQB0, IRQB1, IRQB2, IRQC0, IRQC1, IRQC2}"
    using that by (auto simp: pirq_def asic_event_mask_changed_def Let_def asic_reg_defs ASIC_read_apart apart_def)
  from assms(1) consider "reg = PIRQ1" | "reg = PIRQ0" | "reg = PIRQ2"
    | "reg \<in> {IRQA0, IRQA1, IRQA2, IRQB0, IRQB1, IRQB2, IRQC0, IRQC1, IRQC2}" by (auto simp: irq_registers_def)
  then have "asic_state.more t = asic_state.more s \<and> mmio_EXTDMA t = mmio_EXTDMA s \<and> pirq 4 t = pirq 4 s"
  proof cases
    case 1
    then show ?thesis using assms(2) by (simp add: mmio_region_ASIC_write_def Let_def reg [unfolded 1])
  next
    case 2
    moreover have "PIRQ0 \<noteq> PIRQ1" by (simp add: asic_reg_defs)
    ultimately show ?thesis using assms(2) by (auto simp: mmio_region_ASIC_write_def Let_def reg [unfolded 2] w)
  next
    case 3
    moreover have "PIRQ2 \<noteq> PIRQ1" "PIRQ2 \<noteq> PIRQ0" by (simp_all add: asic_reg_defs)
    ultimately show ?thesis using assms(2) by (auto simp: mmio_region_ASIC_write_def Let_def reg [unfolded 3] w)
  next
    case 4
    moreover have "reg \<notin> {PIRQ0, PIRQ1, PIRQ2}" using 4 by (auto simp: asic_reg_defs)
    ultimately have "t = asic_event_mask_changed (ASIC_write reg v s)"
      using assms(2) by (simp add: mmio_region_ASIC_write_def Let_def reg)
    then show ?thesis using m [OF 4] by simp
  qed
  then show "asic_state.more t = asic_state.more s" "mmio_EXTDMA t = mmio_EXTDMA s" "pirq 4 t = pirq 4 s" by blast+
qed

lemma irq_write_ok:
  assumes "reg \<in> irq_registers" "mmio_region_ASIC_write env reg v s = Some t" "ide_irq_ok s"
  shows "ide_irq_ok t"
  using irq_write_frame [OF assms(1,2)] ide_more_cong [OF irq_write_frame(1) [OF assms(1,2)]] assms
    ASIC_page_lines [of s reg env v]
  by (auto simp: ide_irq_ok_def ide_line_ok_def IS_IDE_IRQ_ENABLED_def irq_registers_def)

lemma irq_write_buf:
  assumes "reg \<in> irq_registers" "mmio_region_ASIC_write env reg v s = Some t" "ide_buf_ok s"
  shows "ide_buf_ok t"
  using ide_more_cong [OF irq_write_frame(1) [OF assms(1,2)]] assms(3) by (simp add: ide_buf_ok_def)

lemma bus_step_irq:
  assumes "copy_ok env"
  shows "bus_step env s t \<Longrightarrow> ide_irq_ok s \<and> dma_size_ok s \<Longrightarrow> ide_irq_ok t \<and> dma_size_ok t"
proof (induction rule: bus_step.induct)
  case (bus_read reg s v t)
  show ?case by (rule page_irq.page_read [OF assms bus_read(3,2)])
next
  case (bus_write reg v s t)
  show ?case by (rule page_irq.page_write [OF assms bus_write(3,1,2)])
next
  case (bus_irq reg v s t)
  then show ?case using irq_write_ok irq_write_frame(2) dma_size_cong by blast
next
  case (bus_event e s)
  then show ?case using dma_size_cong [of "asic_event e s" s] by (simp add: other_event_irq)
qed

lemma bus_step_buf:
  assumes "ide_env_ok env"
  shows "bus_step env s t \<Longrightarrow> ide_buf_ok s \<and> dma_size_ok s \<Longrightarrow> ide_buf_ok t \<and> dma_size_ok t"
proof (induction rule: bus_step.induct)
  case (bus_read reg s v t)
  show ?case by (rule page_buf.page_read [OF assms bus_read(3,2)])
next
  case (bus_write reg v s t)
  show ?case by (rule page_buf.page_write [OF assms bus_write(3,1,2)])
next
  case (bus_irq reg v s t)
  then show ?case using irq_write_buf irq_write_frame(2) dma_size_cong by blast
next
  case (bus_event e s)
  then show ?case using dma_size_cong [of "asic_event e s" s] by (simp add: ide_buf_ok_def)
qed

lemma bus_steps_irq: "(bus_step env)\<^sup>*\<^sup>* s t \<Longrightarrow> copy_ok env \<Longrightarrow> ide_irq_ok s \<and> dma_size_ok s \<Longrightarrow> ide_irq_ok t \<and> dma_size_ok t"
  by (induction rule: rtranclp_induct) (auto dest: bus_step_irq)

lemma bus_steps_buf: "(bus_step env)\<^sup>*\<^sup>* s t \<Longrightarrow> ide_env_ok env \<Longrightarrow> ide_buf_ok s \<and> dma_size_ok s \<Longrightarrow> ide_buf_ok t \<and> dma_size_ok t"
  by (induction rule: rtranclp_induct) (auto dest: bus_step_buf)

section \<open>Every access returns\<close>

lemma complete_buf: "ide_buf_ok s \<Longrightarrow> ide_buf_ok (pio_complete (s\<lparr>data_offset := k\<rparr>))"
  by (simp add: pio_complete_def ide_buf_ok_def)

lemma read_pio_returns: "ide_buf_ok s \<Longrightarrow> \<exists>r. ide_read_data_pio s = Some r"
  using next_sector_returns [OF complete_buf [of s "data_offset s + 2"]] by (auto simp: ide_read_data_pio_def Let_def)

lemma write_pio_returns:
  assumes "ide_env_ok env" "ide_buf_ok s"
  shows "\<exists>t. ide_write_data_pio env v s = Some t"
proof -
  have "ide_buf_ok (u\<lparr>ide_phase := IDE_STATE_BUSY, ide_status := x, data_offset := - 1\<rparr>)"
    if "u = WRITE_BUFFER v s\<lparr>data_offset := y\<rparr>" for u x y
    using assms(2) that by (simp add: ide_buf_ok_def WRITE_BUFFER_def)
  then show ?thesis using packet_command_returns [OF assms(1)] by (auto simp: ide_write_data_pio_def Let_def)
qed

lemma ide_transfer_returns:
  assumes "ide_env_ok env" "ide_buf_ok s" "dma_size_ok s"
  shows "\<exists>t. asic_ide_dma_transfer env s = Some t"
proof -
  let ?s = "EXTDMA_write IDEDMATXSIZ 0 s"
  have "unat (EXTDMA_read IDEDMASIZ ?s) < 2 ^ 31"
    using size_other [OF assms(3), of IDEDMATXSIZ 0] by (simp add: EXTDMA_read_def EXTDMA_write_def extdma_regs)
  moreover have "ide_buf_ok ?s" using assms(2) by (simp add: EXTDMA_write_def ide_buf_ok_def)
  ultimately show ?thesis
    using dma_loop_returns [OF assms(1), of "EXTDMA_read IDEDMASIZ ?s" ?s 0 "EXTDMA_read IDEDMASH4 ?s"]
    by (auto simp: asic_ide_dma_transfer_def Let_def ide_read_data_dma_def)
qed

lemma page_read_returns: "ide_buf_ok s \<Longrightarrow> \<exists>v t. mmio_region_EXTDMA_read env reg s = Some (v, t)"
  using read_pio_returns [of s] by (auto simp: mmio_region_EXTDMA_read_def Let_def)

lemma page_write_returns:
  assumes "ide_env_ok env" "ide_buf_ok s" "dma_size_ok s" "reg AND 3 = 0"
  shows "\<exists>t. mmio_region_EXTDMA_write env reg v s = Some t"
proof -
  define r where "r = reg AND 0xFFF"
  have r: "r AND 3 = 0" using assms(4) by (simp add: r_def and.assoc)
  have "\<exists>t. asic_ide_dma_transfer env (EXTDMA_write r (v AND 1) s) = Some t" if "r = IDEDMACTL1 \<or> r = IDEDMACTL2"
  proof (rule ide_transfer_returns [OF assms(1)])
    show "ide_buf_ok (EXTDMA_write r (v AND 1) s)" using assms(2) by (simp add: EXTDMA_write_def ide_buf_ok_def)
    have "r \<noteq> IDEDMASIZ" using that by (auto simp: extdma_regs)
    then show "dma_size_ok (EXTDMA_write r (v AND 1) s)"
      using size_other [OF assms(3) r] by (simp add: dma_size_ok_def EXTDMA_read_def EXTDMA_write_def)
  qed
  then show ?thesis
    using write_pio_returns [OF assms(1,2)] unfolding mmio_region_EXTDMA_write_def Let_def r_def [symmetric]
    by (simp split: if_split)
qed

section \<open>Every command is answered\<close>

text \<open>
  A command is answered when the drive requests an interrupt and is not busy any more, or when
  it waits for a transfer by DMA.
\<close>

definition answered :: "('a) ide_state_scheme \<Rightarrow> bool" where
  "answered t \<longleftrightarrow> intrq_pending t \<noteq> 0 \<and> ide_status t AND IDE_STATUS_BSY = 0 \<or> ide_phase t = IDE_STATE_DMA_READ"

text \<open>The commands that the drive does not answer.\<close>

definition packet_silent :: "('a) ide_state_scheme \<Rightarrow> bool" where
  "packet_silent s \<longleftrightarrow> \<not> was_reset s \<and>
     (cmd s 0 = PKT_CMD_DRIVE_STATUS \<and> 10 \<le> cmd s 2 \<or>
      cmd s 0 = PKT_CMD_MODE_SENSE \<and> 32 \<le> cmd s 2 \<or>
      cmd s 0 = PKT_CMD_MODE_SELECT \<and> (32 \<le> cmd s 2 \<or> feature_dma s) \<or>
      cmd s 0 = PKT_CMD_STATUS \<and> 1 < cmd s 1 \<and> gdrom_drive s \<noteq> None)"

lemma status_bits: "(0x50 :: u8) AND IDE_STATUS_BSY = 0" "(0x51 :: u8) AND IDE_STATUS_BSY = 0" "(0x58 :: u8) AND IDE_STATUS_BSY = 0"
  by (simp_all add: IDE_STATUS_BSY_def)

lemma raise_pending: "intrq_pending (ide_raise_interrupt s) \<noteq> 0"
  by simp

lemma read_answered: "answered (ide_start_read n dma s)" "answered (ide_start_packet_read len cnt s)"
  by (simp_all add: answered_def ide_start_read_def ide_start_packet_read_def Let_def status_bits)

lemma write_answered:
  "intrq_pending s = 0 \<Longrightarrow> answered (ide_start_packet_write len cnt s) \<longleftrightarrow> \<not> feature_dma s"
  by (simp add: answered_def ide_start_write_def ide_start_packet_write_def ide_set_packet_result_def PKT_ERR_OK_def Let_def status_bits)

lemma result_answered: "code \<noteq> 0 \<Longrightarrow> answered (ide_set_packet_result code s)"
  by (simp add: answered_def ide_set_packet_result_def Let_def status_bits)

lemma next_sector_answered:
  assumes "ide_buf_ok s" "ide_read_next_sector s = Some t"
  shows "answered t"
proof -
  obtain err b n where r: "gdrom_read_cd (gdrom_drive s) (current_lba s) 1 (current_mode s) (data_buffer s) = Some (err, b, n)"
    "err \<noteq> CDROM_ERROR_OK \<longrightarrow> ucast err \<noteq> (0 :: u16)"
    using assms(1) unfolding ide_buf_ok_def drive_ok_def by metis
  have sense: "answered (set_sense_lba u) = answered u" for u :: "'a ide_state_scheme"
    by (simp add: set_sense_lba_def answered_def)
  show ?thesis
    using assms(2) r by (auto simp: ide_read_next_sector_def Let_def sense result_answered read_answered split: if_splits)
qed

lemma byte_le: "10 \<le> (ucast c :: u32) \<longleftrightarrow> 10 \<le> c" "32 \<le> (ucast c :: u32) \<longleftrightarrow> 32 \<le> c" for c :: u8
  by (simp_all add: word_le_nat_alt unsigned_ucast_eq take_bit_nat_eq_self order.strict_trans [OF unsigned_less])

lemma fill_sel [simp]: "feature_dma (fill_buffer bs s) = feature_dma s" "intrq_pending (fill_buffer bs s) = intrq_pending s"
  by (simp_all add: fill_buffer_def feature_dma_def)

text \<open>Before a command the drive requests no interrupt, and it is not in a transfer by DMA.\<close>

definition idle_line :: "('a) ide_state_scheme \<Rightarrow> bool" where
  "idle_line s \<longleftrightarrow> intrq_pending s = 0 \<and> ide_phase s \<noteq> IDE_STATE_DMA_READ"

lemma error_not_answered: "idle_line s \<Longrightarrow> \<not> answered (ide_set_error e s)"
  by (simp add: answered_def ide_set_error_def idle_line_def)

lemma simple_answered:
  assumes "idle_line s"
  shows "answered (packet_drive_status env s) \<longleftrightarrow> \<not> 10 \<le> cmd s 2"
    and "answered (packet_mode_sense s) \<longleftrightarrow> \<not> 32 \<le> cmd s 2"
    and "answered (packet_mode_select s) \<longleftrightarrow> \<not> (32 \<le> cmd s 2 \<or> feature_dma s)"
    and "answered (packet_sense s)"
    and "answered (packet_play_audio env s)"
    and "answered (packet_session_info s)"
    and "answered (packet_status s) \<longleftrightarrow> \<not> 1 < cmd s 1"
    and "packet_read_toc s = Some t \<Longrightarrow> answered t"
proof -
  show "answered (packet_drive_status env s) \<longleftrightarrow> \<not> 10 \<le> cmd s 2" "answered (packet_mode_sense s) \<longleftrightarrow> \<not> 32 \<le> cmd s 2"
    using assms by (simp_all add: packet_drive_status_def packet_mode_sense_def Let_def read_answered error_not_answered byte_le
      GDROM_DRIVE_STATUS_LENGTH_def GDROM_MODE_LENGTH_def split: prod.split)
  have "feature_dma (s\<lparr>current_lba := x\<rparr>) = feature_dma s" for x by (simp add: feature_dma_def)
  then show "answered (packet_mode_select s) \<longleftrightarrow> \<not> (32 \<le> cmd s 2 \<or> feature_dma s)"
    using assms by (simp add: packet_mode_select_def Let_def write_answered error_not_answered byte_le GDROM_MODE_LENGTH_def idle_line_def)
  show "answered (packet_sense s)" by (simp add: packet_sense_def Let_def read_answered)
  show "answered (packet_play_audio env s)" by (simp add: packet_play_audio_def Let_def answered_def status_bits)
  have ne: "ucast CDROM_ERROR_NODISC \<noteq> (0 :: u16)" "ucast CDROM_ERROR_BADFIELD \<noteq> (0 :: u16)" by (simp_all add: cd_errors)
  have "fst (gdrom_read_session d i b) \<in> {CDROM_ERROR_OK, CDROM_ERROR_NODISC, CDROM_ERROR_BADFIELD}" for d i b
    by (simp add: gdrom_read_session_def Let_def split: option.split)
  from this [of "gdrom_drive s" "uint (cmd s 2)" "data_buffer s"]
  show "answered (packet_session_info s)"
    using ne by (cases "gdrom_read_session (gdrom_drive s) (uint (cmd s 2)) (data_buffer s)")
      (auto simp: packet_session_info_def Let_def read_answered result_answered)
  have "cmd s 1 = 0 \<or> cmd s 1 = 1 \<or> 1 < cmd s 1"
    by (simp add: word_less_nat_alt word_unat_eq_iff) linarith
  moreover have "\<not> answered s" using assms by (simp add: answered_def idle_line_def)
  ultimately show "answered (packet_status s) \<longleftrightarrow> \<not> 1 < cmd s 1"
    by (auto simp: packet_status_def Let_def read_answered)
  have "gdrom_read_toc d b = Some (e, b') \<Longrightarrow> e \<in> {CDROM_ERROR_OK, CDROM_ERROR_NODISC}" for d b e b'
    by (auto simp: gdrom_read_toc_def split: option.splits if_splits)
  then show "answered t" if "packet_read_toc s = Some t"
    using that ne by (fastforce simp: packet_read_toc_def Let_def read_answered result_answered split: option.splits if_splits)
qed

text \<open>A disc in the drive passes the test for a disc whatever its type is.\<close>

lemma disc_status:
  "gdrom_drive s = Some d \<Longrightarrow> ide_get_drive_status env s = (disc_type (env_check_media env d) OR IDE_DISC_READY, s\<lparr>gdrom_drive := Some (env_check_media env d)\<rparr>)"
  "gdrom_drive s = None \<Longrightarrow> ide_get_drive_status env s = (IDE_DISC_NONE, s\<lparr>gdrom_drive := None\<rparr>)"
  by (simp_all add: ide_get_drive_status_def gdrom_get_drive_status_def cdrom_disc_check_media_def cd_errors CDROM_DISC_NONE_def IDE_DISC_NONE_def)

lemma ready_bit: "w OR IDE_DISC_READY \<noteq> IDE_DISC_NONE"
proof
  assume "w OR IDE_DISC_READY = IDE_DISC_NONE"
  then have "bit (w OR IDE_DISC_READY) 0 = bit IDE_DISC_NONE 0" by simp
  then show False by (simp add: IDE_DISC_READY_def IDE_DISC_NONE_def even_or_iff bit_0)
qed

lemma require_disc_cases:
  assumes "REQUIRE_DISC env body s = Some (b, t)"
  obtains (none) "gdrom_drive s = None" "answered t"
    | (disc) d where "gdrom_drive s = Some d" "body (s\<lparr>gdrom_drive := Some (env_check_media env d)\<rparr>) = Some t"
proof (cases "gdrom_drive s")
  case None
  then have "answered t"
    using assms disc_status(2) [OF None, of env] by (auto simp: REQUIRE_DISC_def intro!: result_answered simp: pkt_errs)
  with None show ?thesis by (rule none)
next
  case (Some d)
  then show ?thesis using assms disc [OF Some] disc_status(1) [OF Some, of env] ready_bit by (auto simp: REQUIRE_DISC_def)
qed

lemma if_some_caseE: "\<lbrakk>(if P then x else y) = Some u; \<lbrakk>P; x = Some u\<rbrakk> \<Longrightarrow> Q; \<lbrakk>\<not> P; y = Some u\<rbrakk> \<Longrightarrow> Q\<rbrakk> \<Longrightarrow> Q"
  by (cases P) simp_all

lemma spin_answered: "idle_line s \<Longrightarrow> answered (ide_raise_interrupt (ide_set_packet_result PKT_ERR_OK s))"
proof -
  have "(w AND NOT (IDE_STATUS_BSY OR IDE_STATUS_CHK)) AND IDE_STATUS_BSY = 0" for w
    by (rule bit_word_eqI) (auto simp: bit_simps)
  then show ?thesis by (simp add: answered_def ide_set_packet_result_def PKT_ERR_OK_def Let_def)
qed

lemma dispatch_answered:
  assumes "ide_env_ok env" "ide_buf_ok s" "idle_line s" "packet_dispatch env s = Some (b, t)" "cmd s 0 = PKT_CMD_SENSE \<or> \<not> was_reset s"
  shows "answered t \<longleftrightarrow> \<not> packet_silent s"
proof -
  have drive [simp]: "idle_line (s\<lparr>gdrom_drive := x\<rparr>) = idle_line s" "cmd (s\<lparr>gdrom_drive := x\<rparr>) i = cmd s i" for x i
    by (simp_all add: idle_line_def cmd_def)
  have silent: "packet_silent s \<longleftrightarrow>
     (cmd s 0 = PKT_CMD_DRIVE_STATUS \<and> 10 \<le> cmd s 2 \<or> cmd s 0 = PKT_CMD_MODE_SENSE \<and> 32 \<le> cmd s 2 \<or>
      cmd s 0 = PKT_CMD_MODE_SELECT \<and> (32 \<le> cmd s 2 \<or> feature_dma s) \<or>
      cmd s 0 = PKT_CMD_STATUS \<and> 1 < cmd s 1 \<and> gdrom_drive s \<noteq> None)"
    using assms(5) by (auto simp: packet_silent_def pkt_cmds)
  have sector: "answered t" if d: "gdrom_drive s = Some d" and r: "packet_read_sector (s\<lparr>gdrom_drive := Some (env_check_media env d)\<rparr>) = Some t" for d
  proof -
    have "ide_buf_ok (s\<lparr>gdrom_drive := Some (env_check_media env d)\<rparr>)"
      using drive_buf [OF assms(1,2)] disc_status(1) [OF d, of env] by simp
    then have "ide_buf_ok (s\<lparr>gdrom_drive := Some (env_check_media env d), current_lba := x, sectors_left := y, current_mode := z\<rparr>)" for x y z
      by (simp add: ide_buf_ok_def)
    from next_sector_answered [OF this] r show ?thesis unfolding packet_read_sector_def drive by simp
  qed
  note a = simple_answered [OF assms(3)]
  have stat: "answered (packet_status (s\<lparr>gdrom_drive := x\<rparr>)) \<longleftrightarrow> \<not> 1 < cmd s 1" for x
    using simple_answered(7) [of "s\<lparr>gdrom_drive := x\<rparr>"] assms(3) by simp
  have spin: "answered (ide_raise_interrupt (ide_set_packet_result 0 (s\<lparr>gdrom_drive := x\<rparr>)))" for x
    using spin_answered [of "s\<lparr>gdrom_drive := x\<rparr>"] assms(3) by (simp add: pkt_errs)
  have ready: "answered (ide_raise_interrupt (ide_set_packet_result 0 u)\<lparr>ide_status := 0x50\<rparr>)" for u :: "'a ide_state_scheme"
    by (simp add: answered_def status_bits)
  show ?thesis
    using assms(4) unfolding packet_dispatch_def Let_def silent
    apply (elim if_some_caseE)
    by (auto simp: pkt_cmds a pkt_errs stat [simplified] spin ready read_answered intro: result_answered elim!: require_disc_cases dest: sector)
qed

section \<open>Properties\<close>




text \<open>
  C19: A packet command is answered, by an interrupt of a drive that is not busy or by a transfer that
  waits for DMA, unless it is one of these: a status or mode command from beyond the end of its
  table, a mode write by DMA, and a status command of an unknown kind.
\<close>

theorem drive_answers_commands:
  assumes "ide_env_ok env" "ide_buf_ok s" "intrq_pending s = 0" "ide_phase s = IDE_STATE_BUSY"
  shows "\<exists>t. ide_packet_command env s = Some t \<and> (answered t \<longleftrightarrow> \<not> packet_silent s)"
proof (cases "cmd s 0 \<noteq> PKT_CMD_SENSE \<and> was_reset s")
  case True
  have "answered (u\<lparr>was_reset := False\<rparr>) = answered u" for u :: "'a ide_state_scheme" by (simp add: answered_def)
  then show ?thesis using True by (simp add: ide_packet_command_def packet_silent_def result_answered pkt_errs)
next
  case False
  obtain b u where u: "packet_dispatch env s = Some (b, u)" using dispatch_returns [OF assms(1,2)] by force
  have "answered (v\<lparr>last_packet_command := x\<rparr>) = answered v" for v :: "'a ide_state_scheme" and x by (simp add: answered_def)
  then show ?thesis
    using False dispatch_answered [OF assms(1,2) _ u] assms(3,4) u by (auto simp: ide_packet_command_def idle_line_def)
qed

section \<open>A drive with a disc\<close>

definition one_sector_ok :: "cd_device \<Rightarrow> bool" where
  "one_sector_ok src \<longleftrightarrow> (\<forall>off m b. \<exists>err b' n. ss_read_sectors src off 1 m b = Some (err, b', n) \<and>
     (if err = CDROM_ERROR_OK then int n \<le> MAX_SECTOR_SIZE else ucast err \<noteq> (0 :: u16)))"

lemma disc_drive_ok:
  assumes "numbered d" "\<forall>i<unat (track_count d). \<exists>src. track_source (tracks d ! i) = Some src \<and> one_sector_ok src"
  shows "drive_ok (Some d)"
proof -
  have bad: "CDROM_ERROR_BADREAD \<noteq> CDROM_ERROR_OK" "ucast CDROM_ERROR_BADREAD \<noteq> (0 :: u16)"
    "CDROM_ERROR_NODISC \<noteq> CDROM_ERROR_OK" "ucast CDROM_ERROR_NODISC \<noteq> (0 :: u16)" by (simp_all add: cd_errors)
  have "\<exists>err b' n. image_loop d lba 1 m 0 0 b = Some (err, b', n) \<and>
      (if err = CDROM_ERROR_OK then int n \<le> MAX_SECTOR_SIZE else ucast err \<noteq> (0 :: u16))" for lba m b
  proof (cases "on_disc d lba")
    case False
    then have "cdrom_disc_get_track_by_lba d lba = None" by (auto simp: on_disc_def cdrom_disc_get_track_by_lba_def)
    then show ?thesis using bad by (subst image_loop.simps) simp
  next
    case True
    obtain i where i: "in_track d lba i" "cdrom_disc_get_track_by_lba d lba = Some (tracks d ! i)"
      using track_by_lba_found [OF assms(1) True] by blast
    obtain src where src: "track_source (tracks d ! i) = Some src" "one_sector_ok src"
      using assms(2) i(1) by (auto simp: in_track_def)
    have "unat (sub_count d (tracks d ! i) lba 1) = 1" using sub_count_in_track [OF assms(1) i(1), of 1] by simp
    then have one: "sub_count d (tracks d ! i) lba 1 = 1" by (simp add: word_unat_eq_iff)
    obtain err b' n where r: "ss_read_sectors src (lba - track_lba (tracks d ! i)) 1 m (\<lambda>j. b j) = Some (err, b', n)"
      "if err = CDROM_ERROR_OK then int n \<le> MAX_SECTOR_SIZE else ucast err \<noteq> (0 :: u16)"
      using src(2) unfolding one_sector_ok_def by blast
    have done': "image_loop d lba 1 m 1 n b = Some (CDROM_ERROR_OK, b, n)" for b by (simp add: image_loop.simps)
    show ?thesis
      using r i(2) src(1) one done' by (subst image_loop.simps) (auto simp: read_at_def split: if_splits)
  qed
  moreover have "track_count d \<noteq> 0" using assms(1) by (auto simp: numbered_def)
  ultimately show ?thesis
    using bad by (auto simp: drive_ok_def gdrom_read_cd_def CHECK_DISC_def cdrom_disc_read_sectors_def default_image_read_sectors_def)
qed

lemma audio_device_ok: "one_sector_ok (audio_device 100)"
proof -
  have "\<exists>err b' n. default_sector_source_read_sectors plain_codec (null_sector_source_new SECTOR_CDDA 100) off 1 m (\<lambda>_. 0) b = Some (err, b', n) \<and>
      (if err = CDROM_ERROR_OK then \<exists>k\<le>2352. n = Some k else ucast err \<noteq> (0 :: u16))" for off m b
    by (simp add: default_sector_source_read_sectors_def Let_def null_sector_source_new_def cd_errors)
  then have "\<exists>err b' n. map_option (\<lambda>(err, out, l). (err, out, case l of None \<Rightarrow> 0 | Some n \<Rightarrow> n))
        (default_sector_source_read_sectors plain_codec (null_sector_source_new SECTOR_CDDA 100) off 1 m (\<lambda>_. 0) b) = Some (err, b', n) \<and>
      (if err = CDROM_ERROR_OK then int n \<le> MAX_SECTOR_SIZE else ucast err \<noteq> (0 :: u16))" for off m b
    by (fastforce simp: MAX_SECTOR_SIZE_def split: if_splits)
  then show ?thesis by (simp add: one_sector_ok_def audio_device_def sector_source_init_def sector_source.defs)
qed

definition game_disc :: cdrom_disc where
  "game_disc = audio_disc\<lparr>disc_type := CDROM_DISC_GDROM\<rparr>"

lemma game_disc_simps [simp]:
  "tracks game_disc = tracks audio_disc" "track_count game_disc = 2" "leadout game_disc = 200" "disc_type game_disc = CDROM_DISC_GDROM"
  by (simp_all add: game_disc_def)

lemma game_disc_ok: "numbered game_disc" "drive_ok (Some game_disc)"
proof -
  show n: "numbered game_disc" using audio_disc_numbered by (simp add: numbered_def)
  show "drive_ok (Some game_disc)"
    by (rule disc_drive_ok [OF n]) (simp add: audio_disc_tracks audio_device_ok)
qed

definition game_drive :: ide_state where
  "game_drive = blank_asic_with (ide_state_ext 0 0 0 0 0 0 0 0 0 0 0 True False IDE_STATE_IDLE 0 (replicate 10 0)
     default_gdrom_mode (- 1) (- 1) 1 150 0x28 0 (\<lambda>_. 0) (Some game_disc) ())"

definition plain_env :: "ide_state ide_env" where
  "plain_env = \<lparr>env_reset = id, env_maple_handle_buffer = (\<lambda>_ s. s), env_DMAC_get_buffer = (\<lambda>_ _ s. ([], s)),
     env_pvr2_dma_write = (\<lambda>_ _ s. s), env_pvr2_ta_write = (\<lambda>_ s. s), env_mem_get_region = (\<lambda>_ _. None),
     env_find_polygon = (\<lambda>_. None), env_mem_copy_from_sh4 = (\<lambda>_ n _. replicate (unat n) 0),
     env_mem_copy_to_sh4 = (\<lambda>_ _ s. s), env_check_media = id, env_play_audio = None, env_tmp = (\<lambda>_. 0)\<rparr>"

lemma blank_more: "asic_state.more (blank_asic_with x) = x" "mmio_EXTDMA (blank_asic_with x) = (\<lambda>_. 0)"
  by (simp_all add: blank_asic_with_def blank_intc_def INTC_reset_def Let_def sh4_set_event_pending_def blank_eventq_def
    event_init_def blank_sh4_def)

lemma ide_ext_sel:
  assumes "asic_state.more s = ide_state_ext x1 x2 x3 x4 x5 x6 x7 x8 x9 x10 x11 x12 x13 x14 x15 x16 x17 x18 x19 x20 x21 x22 x23 x24 x25 m"
  shows "ide_status s = x1" "ide_control s = x2" "ide_error s = x3" "ide_feature s = x4" "ide_count s = x5"
    "ide_lba0 s = x6" "ide_lba1 s = x7" "ide_lba2 s = x8" "ide_device s = x9" "ide_command s = x10"
    "intrq_pending s = x11" "interface_enabled s = x12" "was_reset s = x13" "ide_phase s = x14" "last_packet_command s = x15"
    "gdrom_sense s = x16" "gdrom_mode s = x17" "data_offset s = x18" "data_length s = x19" "last_read_track s = x20"
    "current_lba s = x21" "current_mode s = x22" "sectors_left s = x23" "data_buffer s = x24" "gdrom_drive s = x25"
   
  using assms by (cases s; simp)+

lemma game_drive_sel [simp]:
  "ide_status game_drive = 0" "ide_control game_drive = 0" "intrq_pending game_drive = 0" "interface_enabled game_drive"
  "ide_phase game_drive = IDE_STATE_IDLE" "gdrom_drive game_drive = Some game_disc" "\<not> was_reset game_drive"
  "gdrom_mode game_drive = default_gdrom_mode" "gdrom_sense game_drive = replicate 10 0" "ide_feature game_drive = 0"
  "mmio_EXTDMA game_drive = (\<lambda>_. 0)" "pirq i game_drive = 0"
proof -
  define x where "x = ide_state_ext 0 0 0 0 0 0 0 0 0 0 (0 :: u8) True False IDE_STATE_IDLE (0 :: u32) (replicate 10 (0 :: u8))
     default_gdrom_mode (- 1) (- 1) 1 150 0x28 0 (\<lambda>_. 0) (Some game_disc) ()"
  have g: "game_drive = blank_asic_with x" by (simp add: game_drive_def x_def)
  have "asic_state.more game_drive = x" by (simp add: g blank_more)
  note sel = ide_ext_sel [OF this [unfolded x_def]]
  show "ide_status game_drive = 0" "ide_control game_drive = 0" "intrq_pending game_drive = 0" "interface_enabled game_drive"
    "ide_phase game_drive = IDE_STATE_IDLE" "gdrom_drive game_drive = Some game_disc" "\<not> was_reset game_drive"
    "gdrom_mode game_drive = default_gdrom_mode" "gdrom_sense game_drive = replicate 10 0" "ide_feature game_drive = 0"
    by (simp_all only: sel not_False_eq_True)
  show "mmio_EXTDMA game_drive = (\<lambda>_. 0)" "pirq i game_drive = 0" by (simp_all add: g blank_more pirq_def)
qed

lemma game_drive_ok: "ide_irq_ok game_drive" "ide_buf_ok game_drive" "dma_size_ok game_drive"
proof -
  show "ide_irq_ok game_drive"
    by (simp add: ide_irq_ok_def ide_line_ok_def) (simp add: game_drive_def blank_asic_ok)
  show "ide_buf_ok game_drive" by (simp add: ide_buf_ok_def game_disc_ok default_gdrom_mode_def)
  show "dma_size_ok game_drive" by (simp add: dma_size_ok_def EXTDMA_read_def ld32_def)
qed

lemma plain_env_ok: "copy_ok plain_env" "ide_env_ok plain_env"
  by (simp_all add: copy_ok_def ide_env_ok_def plain_env_def)

text \<open>The command SET FEATURE, written through the page.\<close>

lemma set_feature_step: "(bus_step plain_env)\<^sup>*\<^sup>* game_drive (ide_write_command IDE_CMD_SET_FEATURE game_drive)"
proof (intro r_into_rtranclp [of "bus_step plain_env"] bus_write)
  show "(0x9C :: u32) AND 3 = 0" by simp
  show "mmio_region_EXTDMA_write plain_env 0x9C 0xEF game_drive = Some (ide_write_command IDE_CMD_SET_FEATURE game_drive)"
    by (simp add: mmio_region_EXTDMA_write_def Let_def extdma_regs ide_can_write_regs_def IDE_CMD_SET_FEATURE_def)
qed

lemma set_feature_sel: "intrq_pending (ide_write_command IDE_CMD_SET_FEATURE game_drive) = 1"
  "ide_control (ide_write_command IDE_CMD_SET_FEATURE game_drive) = 0"
  by (simp_all add: ide_write_command_def Let_def IDE_CMD_SET_FEATURE_def IDE_CMD_NOP_def IDE_CMD_RESET_DEVICE_def IDE_CMD_PACKET_def
      ide_clear_interrupt_def ide_raise_interrupt_def)




text \<open>A busy drive with a command in its buffer.\<close>

definition packet_drive :: "u8 list \<Rightarrow> ide_state" where
  "packet_drive bs = game_drive\<lparr>ide_phase := IDE_STATE_BUSY, data_buffer := put 0 bs (\<lambda>_. 0)\<rparr>"

lemma packet_drive_ok: "ide_buf_ok (packet_drive bs)" "intrq_pending (packet_drive bs) = 0" "ide_phase (packet_drive bs) = IDE_STATE_BUSY"
  using game_drive_ok(2) by (simp_all add: packet_drive_def ide_buf_ok_def)

theorem drive_answers_commands_witness:
  "(\<exists>t. ide_packet_command plain_env (packet_drive [0x14, 0, 0, 1, 152, 0, 0, 0, 0, 0, 0, 0]) = Some t \<and> answered t) \<and>
   (\<exists>t. ide_packet_command plain_env (packet_drive [0x40, 2, 0, 0, 14, 0, 0, 0, 0, 0, 0, 0]) = Some t \<and> \<not> answered t)"
proof
  have "\<not> packet_silent (packet_drive [0x14, 0, 0, 1, 152, 0, 0, 0, 0, 0, 0, 0])"
    by (simp add: packet_silent_def packet_drive_def cmd_def put_def pkt_cmds)
  then show "\<exists>t. ide_packet_command plain_env (packet_drive [0x14, 0, 0, 1, 152, 0, 0, 0, 0, 0, 0, 0]) = Some t \<and> answered t"
    using drive_answers_commands [OF plain_env_ok(2) packet_drive_ok, of "[0x14, 0, 0, 1, 152, 0, 0, 0, 0, 0, 0, 0]"] by blast
  have "packet_silent (packet_drive [0x40, 2, 0, 0, 14, 0, 0, 0, 0, 0, 0, 0])"
    by (simp add: packet_silent_def packet_drive_def cmd_def put_def pkt_cmds)
  then show "\<exists>t. ide_packet_command plain_env (packet_drive [0x40, 2, 0, 0, 14, 0, 0, 0, 0, 0, 0, 0]) = Some t \<and> \<not> answered t"
    using drive_answers_commands [OF plain_env_ok(2) packet_drive_ok, of "[0x40, 2, 0, 0, 14, 0, 0, 0, 0, 0, 0, 0]"] by blast
qed

end
