(* ===== verification/DriveRead.thy ===== *)
theory DriveRead
  imports DriveBus
begin

unbundle bit_operations_syntax

text \<open>
  Reading sectors through the data register: the command, the transfer word by word, and the disc
  below them.
\<close>

section \<open>Reads of the data register\<close>

fun pio_reads :: "nat \<Rightarrow> ('a) ide_state_scheme \<Rightarrow> (u16 list \<times> ('a) ide_state_scheme) option" where
  "pio_reads 0 s = Some ([], s)"
| "pio_reads (Suc n) s =
    (case ide_read_data_pio s of
       None \<Rightarrow> None
     | Some (v, t) \<Rightarrow> map_option (\<lambda>(vs, u). (v # vs, u)) (pio_reads n t))"

definition le16 :: "u8 \<Rightarrow> u8 \<Rightarrow> u16" where
  "le16 lo hi = ucast lo OR push_bit 8 (ucast hi)"

fun words :: "u8 list \<Rightarrow> u16 list" where
  "words (lo # hi # bs) = le16 lo hi # words bs"
| "words bs = []"

lemma words_append: "even (length as) \<Longrightarrow> words (as @ bs) = words as @ words bs"
  by (induction as rule: words.induct) auto

lemma words_bytes: "words (bytes b o' (2 * n)) = map (\<lambda>i. le16 (b (o' + 2 * i)) (b (o' + 2 * i + 1))) [0..<n]"
proof (induction n)
  case (Suc n)
  have "bytes b o' (2 * Suc n) = bytes b o' (2 * n) @ [b (o' + 2 * n), b (o' + 2 * n + 1)]" "even (length (bytes b o' (2 * n)))"
    by (simp_all add: bytes_def)
  then show ?case by (simp only: words_append Suc.IH) simp
qed (simp add: bytes_def)

lemma pio_reads_add: "pio_reads m s = Some (vs, t) \<Longrightarrow> pio_reads n t = Some (ws, u) \<Longrightarrow> pio_reads (m + n) s = Some (vs @ ws, u)"
  by (induction m arbitrary: s vs) (auto split: option.splits prod.splits)

definition pio_done :: "('a) ide_state_scheme \<Rightarrow> ('a) ide_state_scheme" where
  "pio_done s = pio_complete (s\<lparr>data_offset := data_length s\<rparr>)"

definition pio_next :: "('a) ide_state_scheme \<Rightarrow> ('a) ide_state_scheme option" where
  "pio_next s = (if 0 < sectors_left s then ide_read_next_sector (pio_done s) else Some (pio_done s))"

lemma pio_done_sel [simp]:
  "sectors_left (pio_done s) = sectors_left s" "gdrom_drive (pio_done s) = gdrom_drive s" "current_lba (pio_done s) = current_lba s"
  "current_mode (pio_done s) = current_mode s" "ide_feature (pio_done s) = ide_feature s"
  "ide_phase (pio_done s) = IDE_STATE_IDLE" "intrq_pending (pio_done s) \<noteq> 0" "data_offset (pio_done s) = - 1"
  "ide_status (pio_done s) = ide_status s AND NOT IDE_STATUS_DRQ"
  by (simp_all add: pio_done_def pio_complete_def)

lemma pio_block:
  assumes "ide_phase s = IDE_STATE_PIO_READ" "data_length s = 2 * int k" "data_offset s = 2 * int j" "j < k"
  shows "pio_reads (k - j) s = map_option (\<lambda>t. (map (\<lambda>i. le16 (data_buffer s (2 * i)) (data_buffer s (2 * i + 1))) [j..<k], t)) (pio_next s)"
  using assms
proof (induction "k - j" arbitrary: j s)
  case (Suc n)
  let ?s = "s\<lparr>data_offset := 2 * int j + 2\<rparr>"
  have v: "READ_BUFFER s = le16 (data_buffer s (2 * j)) (data_buffer s (2 * j + 1))"
    using Suc.prems(3) by (simp add: READ_BUFFER_def le16_def nat_mult_distrib)
  have kj: "k - j = Suc n" using Suc.hyps(2) by simp
  show ?case
  proof (cases "k = Suc j")
    case True
    then have "ide_read_data_pio s = map_option (Pair (READ_BUFFER s)) (pio_next s)"
      using Suc.prems by (simp add: ide_read_data_pio_def Let_def pio_next_def pio_done_def pio_complete_def algebra_simps)
    then show ?thesis using True v by (cases "pio_next s") simp_all
  next
    case False
    then have n: "n = k - Suc j" "Suc j < k" using kj Suc.prems(4) by auto
    have "ide_read_data_pio s = Some (READ_BUFFER s, ?s)"
      using Suc.prems n(2) by (simp add: ide_read_data_pio_def Let_def algebra_simps)
    moreover have "pio_reads n ?s = map_option (\<lambda>t. (map (\<lambda>i. le16 (data_buffer s (2 * i)) (data_buffer s (2 * i + 1))) [Suc j..<k], t)) (pio_next s)"
      using Suc.hyps(1) [OF n(1), of ?s] Suc.prems n by (simp add: pio_next_def pio_done_def pio_complete_def)
    moreover have "[j..<k] = j # [Suc j..<k]" using Suc.prems(4) by (simp add: upt_conv_Cons)
    ultimately show ?thesis using kj v by (cases "pio_next s") simp_all
  qed
qed simp

section \<open>Sectors of the disc\<close>

lemma disc_delivers_mono:
  assumes "disc_delivers disc m content lo hi" "lo \<le> lo'" "hi' \<le> hi"
  shows "disc_delivers disc m content lo' hi'"
proof (unfold disc_delivers_def, intro allI impI)
  fix l n :: u32 and i
  assume "lo' \<le> l \<and> 0 < unat n \<and> unat l + unat n \<le> unat hi' \<and> in_track disc l i \<and> unat l + unat n \<le> unat (track_end disc i)"
  moreover from this have "lo \<le> l" using assms(2) by (blast intro: order_trans)
  moreover have "unat hi' \<le> unat hi" using assms(3) by (simp add: word_le_nat_alt)
  ultimately have "lo \<le> l \<and> 0 < unat n \<and> unat l + unat n \<le> unat hi \<and> in_track disc l i \<and> unat l + unat n \<le> unat (track_end disc i)"
    by linarith
  with assms(1) show "\<exists>src. track_source (tracks disc ! i) = Some src \<and>
      delivers_at src m content (unat l) (l - track_lba (tracks disc ! i)) n"
    unfolding disc_delivers_def by blast
qed

text \<open>A disc in the drive whose sectors from \<open>lo\<close> to \<open>hi\<close> have \<open>2 * k\<close> bytes each in the mode of the drive.\<close>

definition disc_holds :: "('a) ide_state_scheme \<Rightarrow> (nat \<Rightarrow> u8 list) \<Rightarrow> nat \<Rightarrow> u32 \<Rightarrow> u32 \<Rightarrow> bool" where
  "disc_holds s content k lo hi \<longleftrightarrow> 0 < k \<and> (\<forall>i. length (content i) = 2 * k) \<and>
    (\<exists>disc. gdrom_drive s = Some disc \<and> disc_type disc \<noteq> CDROM_DISC_NONE \<and> numbered disc \<and>
       track_lba (tracks disc ! 0) \<le> lo \<and> hi \<le> leadout disc \<and>
       disc_delivers disc (gdrom_real_mode (current_mode s)) content lo hi)"

lemma sector_read:
  assumes "disc_holds s content k lo hi" "lo \<le> current_lba s - 150" "current_lba s - 150 < hi"
  shows "\<exists>b. gdrom_read_cd (gdrom_drive s) (current_lba s) 1 (current_mode s) (data_buffer s) = Some (CDROM_ERROR_OK, b, 2 * k) \<and>
    bytes b 0 (2 * k) = content (unat (current_lba s - 150))"
proof -
  let ?l = "current_lba s - 150"
  obtain disc where d: "gdrom_drive s = Some disc" "disc_type disc \<noteq> CDROM_DISC_NONE" "numbered disc"
    "track_lba (tracks disc ! 0) \<le> lo" "hi \<le> leadout disc" "disc_delivers disc (gdrom_real_mode (current_mode s)) content lo hi"
    and len: "\<And>i. length (content i) = 2 * k"
    using assms(1) by (auto simp: disc_holds_def)
  have lt: "unat ?l < unat hi" using assms(3) by (simp add: word_less_nat_alt)
  then have one: "unat (?l + 1) = unat ?l + 1" 
  proof -
    have "unat ?l + 1 < 2 ^ 32" using lt unat_less_exp [of hi] by linarith
    then show ?thesis by (simp only: unat_word_ariths(1)) simp
  qed
  then have hi: "?l + 1 \<le> hi" using lt by (simp add: word_le_nat_alt)
  have "unat hi \<le> unat (leadout disc)" using d(5) by (simp add: word_le_nat_alt)
  then have end': "unat ?l + unat (1 :: u32) \<le> unat (leadout disc)" using lt by simp
  have "track_lba (tracks disc ! 0) \<le> ?l" using d(4) assms(2) by (rule order_trans)
  from image_loop_reads [OF d(3) disc_delivers_mono [OF d(6) assms(2) hi] this end', of 0 0 "data_buffer s"]
  show ?thesis using d(1,2) len
    by (auto simp: gdrom_read_cd_def CHECK_DISC_def cdrom_disc_read_sectors_def default_image_read_sectors_def sectors_def bytes_def)
qed

text \<open>The drive waits for the program to read a sector.\<close>

definition pio_ready :: "('a) ide_state_scheme \<Rightarrow> nat \<Rightarrow> u8 list \<Rightarrow> bool" where
  "pio_ready s k bs \<longleftrightarrow> ide_phase s = IDE_STATE_PIO_READ \<and> data_length s = 2 * int k \<and> data_offset s = 0 \<and>
     bytes (data_buffer s) 0 (2 * k) = bs \<and> \<not> feature_dma s"

lemma next_sector_ready:
  assumes "disc_holds s content k lo hi" "lo \<le> current_lba s - 150" "current_lba s - 150 < hi" "\<not> feature_dma s"
  shows "\<exists>t. ide_read_next_sector s = Some t \<and> pio_ready t k (content (unat (current_lba s - 150))) \<and>
    disc_holds t content k lo hi \<and> current_lba t = current_lba s + 1 \<and> sectors_left t = sectors_left s - 1 \<and> intrq_pending t \<noteq> 0"
proof -
  obtain b where b: "gdrom_read_cd (gdrom_drive s) (current_lba s) 1 (current_mode s) (data_buffer s) = Some (CDROM_ERROR_OK, b, 2 * k)"
    "bytes b 0 (2 * k) = content (unat (current_lba s - 150))"
    using sector_read [OF assms(1-3)] by blast
  define t where "t = ide_start_read (2 * int k) False (s\<lparr>data_buffer := b, current_lba := current_lba s + 1, sectors_left := sectors_left s - 1\<rparr>)"
  have dma: "\<not> feature_dma (s\<lparr>data_buffer := b\<rparr>)" using assms(4) by (simp add: feature_dma_def)
  then have "ide_read_next_sector s = Some t" by (simp add: ide_read_next_sector_def Let_def b(1) t_def)
  moreover have "pio_ready t k (content (unat (current_lba s - 150)))" "current_lba t = current_lba s + 1"
    "sectors_left t = sectors_left s - 1" "intrq_pending t \<noteq> 0"
    using assms(4) b(2) by (simp_all add: t_def ide_start_read_def Let_def pio_ready_def feature_dma_def)
  moreover have "disc_holds t content k lo hi"
    using assms(1) by (simp add: disc_holds_def t_def ide_start_read_def Let_def)
  ultimately show ?thesis by blast
qed

lemma pio_sectors:
  assumes "disc_holds s content k lo hi" "pio_ready s k (content i)" "i = unat (current_lba s - 151)"
    and "lo \<le> current_lba s - 151" "i + 1 + unat (sectors_left s) \<le> unat hi"
  shows "\<exists>t. pio_reads (k * (unat (sectors_left s) + 1)) s = Some (words (sectors content i (unat (sectors_left s) + 1)), t) \<and>
    ide_phase t = IDE_STATE_IDLE \<and> intrq_pending t \<noteq> 0 \<and> sectors_left t = 0"
  using assms
proof (induction "unat (sectors_left s)" arbitrary: s i)
  case 0
  then have left: "sectors_left s = 0" by (simp add: unat_eq_0)
  have k: "0 < k" and len: "length (content i) = 2 * k" using 0 by (auto simp: disc_holds_def)
  have "map (\<lambda>j. le16 (data_buffer s (2 * j)) (data_buffer s (2 * j + 1))) [0..<k] = words (content i)"
    using 0 words_bytes [of "data_buffer s" 0 k] by (simp add: pio_ready_def)
  then have "pio_reads k s = Some (words (content i), pio_done s)"
    using pio_block [of s k 0] 0 k left by (simp add: pio_ready_def pio_next_def)
  then show ?case using left by (simp add: sectors_def)
next
  case (Suc n)
  have k: "0 < k" and len: "even (length (content i))" using Suc.prems by (auto simp: disc_holds_def)
  have pos: "0 < sectors_left s" using Suc.hyps(2) by (simp add: word_less_nat_alt)
  then have left: "unat (sectors_left s - 1) = n" using Suc.hyps(2) by (subst unat_minus_one) auto
  let ?d = "pio_done s"
  have i1: "current_lba s - 150 = (current_lba s - 151) + 1" by simp
  have "unat (current_lba s - 151) + 1 < 2 ^ 32" using Suc.prems(3,5) unat_less_exp [of hi] by simp
  then have u: "unat (current_lba s - 150) = Suc i" unfolding i1 using Suc.prems(3) by (simp only: unat_word_ariths(1)) simp
  have lo: "lo \<le> current_lba ?d - 150" using Suc.prems(3,4) u by (simp add: word_le_nat_alt)
  have "Suc i < unat hi" using Suc.prems(5) Suc.hyps(2) by linarith
  then have hi: "current_lba ?d - 150 < hi" using u by (simp add: word_less_nat_alt)
  have "disc_holds ?d content k lo hi" "\<not> feature_dma ?d"
    using Suc.prems(1,2) by (simp_all add: disc_holds_def pio_ready_def feature_dma_def)
  then obtain t where t: "ide_read_next_sector ?d = Some t" "pio_ready t k (content (Suc i))" "disc_holds t content k lo hi"
    "current_lba t = current_lba s + 1" "sectors_left t = sectors_left s - 1"
    using next_sector_ready [OF _ lo hi] u by auto
  have "map (\<lambda>j. le16 (data_buffer s (2 * j)) (data_buffer s (2 * j + 1))) [0..<k] = words (content i)"
    using Suc.prems(2) words_bytes [of "data_buffer s" 0 k] by (simp add: pio_ready_def)
  then have one: "pio_reads k s = Some (words (content i), t)"
    using pio_block [of s k 0] Suc.prems(2) k pos t(1) by (simp add: pio_ready_def pio_next_def)
  have lba: "current_lba t - 151 = current_lba s - 150" using t(4) by simp
  have n: "unat (sectors_left t) = n" using t(5) left by simp
  have "Suc i + 1 + n \<le> unat hi" using Suc.prems(5) Suc.hyps(2) by linarith
  then obtain v where v: "pio_reads (k * (n + 1)) t = Some (words (sectors content (Suc i) (n + 1)), v)"
    "ide_phase v = IDE_STATE_IDLE" "intrq_pending v \<noteq> 0" "sectors_left v = 0"
    using Suc.hyps(1) [OF n [symmetric] t(3,2), unfolded lba n] u [symmetric] lo unfolding pio_done_sel by blast
  have "sectors content i (Suc n + 1) = content i @ sectors content (Suc i) (n + 1)"
    using sectors_add [of content i 1 "n + 1"] by (simp add: sectors_def)
  then have "words (sectors content i (Suc n + 1)) = words (content i) @ words (sectors content (Suc i) (n + 1))"
    using len by (simp only: words_append)
  moreover have "k * (Suc n + 1) = k + k * (n + 1)" by simp
  ultimately show ?case
    using pio_reads_add [OF one v(1)] v(2-4) unfolding Suc.hyps(2) [symmetric] by (intro exI [of _ v]) (simp only: simp_thms)
qed

section \<open>The read command\<close>

text \<open>
  C18: After the command READ SECTOR for sectors that the disc has, the program reads exactly their
  bytes from the data register, sector after sector in the order of the disc, across the borders
  of tracks; then the drive is idle and requests an interrupt.
\<close>

theorem drive_reads_sectors:
  assumes "cmd s 0 = PKT_CMD_READ_SECTOR" "\<not> was_reset s" "\<not> feature_dma s"
    and "gdrom_drive s = Some disc" "env_check_media env disc = disc"
    and "disc_holds (s\<lparr>current_mode := ucast (cmd s 1)\<rparr>) content k lo hi"
    and "lo \<le> cmd24 s 2 - 150" "0 < cmd24 s 8" "unat (cmd24 s 2 - 150) + unat (cmd24 s 8) \<le> unat hi"
  shows "\<exists>u t. ide_packet_command env s = Some u \<and> intrq_pending u \<noteq> 0 \<and>
    pio_reads (k * unat (cmd24 s 8)) u = Some (words (sectors content (unat (cmd24 s 2 - 150)) (unat (cmd24 s 8))), t) \<and>
    ide_phase t = IDE_STATE_IDLE \<and> intrq_pending t \<noteq> 0 \<and> sectors_left t = 0"
proof -
  define r where "r = s\<lparr>gdrom_drive := Some disc, current_lba := cmd24 s 2, sectors_left := cmd24 s 8, current_mode := ucast (cmd s 1)\<rparr>"
  have r: "disc_holds r content k lo hi" "\<not> feature_dma r" "current_lba r = cmd24 s 2" "sectors_left r = cmd24 s 8"
    using assms(3,4,6) by (simp_all add: r_def disc_holds_def feature_dma_def)
  have "unat (cmd24 s 2 - 150) < unat hi" using assms(8,9) by (simp add: word_less_nat_alt)
  then have hi: "cmd24 s 2 - 150 < hi" by (simp add: word_less_nat_alt)
  obtain t where t: "ide_read_next_sector r = Some t" "pio_ready t k (content (unat (cmd24 s 2 - 150)))" "disc_holds t content k lo hi"
    "current_lba t = cmd24 s 2 + 1" "sectors_left t = cmd24 s 8 - 1" "intrq_pending t \<noteq> 0"
    using next_sector_ready [OF r(1), unfolded r(3,4), OF assms(7) hi r(2)] by blast
  define u where "u = t\<lparr>last_packet_command := ucast (cmd t 0)\<rparr>"
  have "packet_read_sector (s\<lparr>gdrom_drive := Some disc\<rparr>) = Some t"
    using t(1) by (simp add: packet_read_sector_def r_def cmd24_def cmd_def)
  then have "REQUIRE_DISC env packet_read_sector s = Some (True, t)"
    using disc_status(1) [OF assms(4), of env] assms(5) ready_bit by (simp add: REQUIRE_DISC_def)
  then have "packet_dispatch env s = Some (True, t)"
    using assms(1) by (simp add: packet_dispatch_def pkt_cmds)
  then have u: "ide_packet_command env s = Some u"
    using assms(2) by (simp add: ide_packet_command_def u_def)
  have lba: "current_lba u - 151 = cmd24 s 2 - 150" by (simp add: u_def t(4))
  have left: "unat (sectors_left u) + 1 = unat (cmd24 s 8)"
  proof -
    have "cmd24 s 8 \<noteq> 0" "0 < unat (cmd24 s 8)" using assms(8) by (auto simp: word_less_nat_alt)
    then show ?thesis using unat_minus_one [of "cmd24 s 8"] by (simp add: u_def t(5))
  qed
  have "disc_holds u content k lo hi" "pio_ready u k (content (unat (cmd24 s 2 - 150)))"
    using t(2,3) by (simp_all add: u_def disc_holds_def pio_ready_def feature_dma_def)
  moreover have "unat (cmd24 s 2 - 150) + 1 + unat (sectors_left u) \<le> unat hi" using assms(9) left by linarith
  ultimately obtain v where "pio_reads (k * unat (cmd24 s 8)) u = Some (words (sectors content (unat (cmd24 s 2 - 150)) (unat (cmd24 s 8))), v)"
    "ide_phase v = IDE_STATE_IDLE" "intrq_pending v \<noteq> 0" "sectors_left v = 0"
    using pio_sectors [of u content k lo hi "unat (cmd24 s 2 - 150)", unfolded lba left] assms(7) by blast
  with u t(6) show ?thesis by (auto simp: u_def)
qed

lemma game_disc_holds: "disc_holds (s\<lparr>gdrom_drive := Some game_disc, current_mode := 0x22\<rparr>) (\<lambda>_. replicate 2352 0) 1176 0 200"
proof -
  have "gdrom_real_mode 0x22 = 0x1004" by (simp add: gdrom_real_mode_def cd_read_defs)
  moreover have "disc_delivers game_disc m c lo hi = disc_delivers audio_disc m c lo hi" for m c lo hi
    by (simp add: disc_delivers_def in_track_def track_end_def)
  ultimately have "disc_delivers game_disc (gdrom_real_mode 0x22) (\<lambda>_. replicate 2352 0) 0 200" using audio_disc_delivers by simp
  then show ?thesis
    by (simp add: disc_holds_def game_disc_ok audio_disc_tracks cd_disc_types)
qed

theorem drive_reads_sectors_witness:
  "\<exists>u t. ide_packet_command plain_env (packet_drive [0x30, 0x22, 0, 0, 0xF0, 0, 0, 0, 0, 0, 20, 0]) = Some u \<and> intrq_pending u \<noteq> 0 \<and>
    pio_reads 23520 u = Some (words (sectors (\<lambda>_. replicate 2352 0) 90 20), t) \<and>
    ide_phase t = IDE_STATE_IDLE \<and> intrq_pending t \<noteq> 0 \<and> sectors_left t = 0"
proof -
  let ?s = "packet_drive [0x30, 0x22, 0, 0, 0xF0, 0, 0, 0, 0, 0, 20, 0]"
  have c: "cmd ?s 0 = PKT_CMD_READ_SECTOR" "cmd24 ?s 2 = 0xF0" "cmd24 ?s 8 = 20" "ucast (cmd ?s 1) = (0x22 :: u32)"
    by (simp_all add: packet_drive_def cmd_def cmd24_def put_def pkt_cmds)
  have d: "gdrom_drive ?s = Some game_disc" "\<not> was_reset ?s" "\<not> feature_dma ?s"
    by (simp_all add: packet_drive_def feature_dma_def)
  have "?s = ?s\<lparr>gdrom_drive := Some game_disc\<rparr>" using d(1) by (cases ?s) simp
  then have "disc_holds (?s\<lparr>current_mode := 0x22\<rparr>) (\<lambda>_. replicate 2352 0) 1176 0 200" using game_disc_holds [of ?s] by metis
  from drive_reads_sectors [OF c(1) d(2,3,1), of plain_env, unfolded c, OF _ this] show ?thesis
    by (simp add: plain_env_def)
qed

end
