(* ===== verification/Spec2Isabelle.thy ===== *)
theory Spec2Isabelle
  imports AsicIrq AicaProps DriveRead
begin

text \<open>
  A model of the emulation core of lxdream, a Dreamcast emulator written in C, and the
  theorems that make it correct.

  The emulator is a set of modules that a main loop (\<open>dreamcast.c\<close>) runs in time slices: the
  SH4 processor with its on-chip devices (\<open>sh4/\<close>), the system chip that multiplexes events and
  transfers (\<open>asic.c\<close>), the sound chip with its own ARM processor (\<open>aica/\<close>), the optical drive
  (\<open>gdrom/\<close>), the graphics chip (\<open>pvr2/\<close>) and the peripherals (\<open>maple/\<close>). They share the
  register pages, the event queue of \<open>eventq.c\<close> and the interrupt controller of \<open>sh4/intc.c\<close>.

  Theories, in the order of their imports. Each component keeps its state in a record that
  extends the record of the component below it, so that an operation of a lower component
  works on the state of every higher one, as the C functions do on their global variables.
  \<^item> \<open>Prelude\<close>: words, byte memories, shifts of C, loops that may not return.
  \<^item> \<open>Sh4Regs\<close>: \<open>struct sh4_registers\<close> and the status bits.
  \<^item> \<open>EventQ\<close>: the two linked lists of \<open>eventq.c\<close>, with the contract \<open>event_scheduler\<close>.
  \<^item> \<open>IntC\<close>: the array of pending interrupts, with the contract \<open>interrupt_controller\<close>.
  \<^item> \<open>Timer\<close>: the clocks, real-time clock registers and timers of \<open>sh4/timer.c\<close>.
  \<^item> \<open>Breakpoints\<close>: the breakpoint tables of both processors, with the contract \<open>breakpoint_table\<close>.
  \<^item> \<open>Sh4Cpu\<close>: status register, banks, exceptions, sleep and time slice of \<open>sh4/sh4.c\<close>.
  \<^item> \<open>Asic\<close>, \<open>AsicIrq\<close>: the events and the first register page of \<open>asic.c\<close>, and their invariants.
  \<^item> \<open>CdSector\<close>, \<open>CdDisc\<close>: sector formats and discs (\<open>drivers/cdrom/sector.c\<close>, \<open>cdrom.c\<close>).
  \<^item> \<open>Gdrom\<close>: the answers of the drive, \<open>gdrom/gdrom.c\<close>.
  \<^item> \<open>Ide\<close>, \<open>IdeInvariant\<close>: registers, packet commands and transfers of \<open>gdrom/ide.c\<close>, and what
    every invariant of the drive needs, with the contract \<open>ide_invariant\<close>.
  \<^item> \<open>ExtDma\<close>: the second register page of \<open>asic.c\<close> with its transfers, with the contract
    \<open>extdma_invariant\<close> that extends the one of the drive.
  \<^item> \<open>DriveBus\<close>, \<open>DriveRead\<close>: the drive as a program sees it: sequences of accesses as a step
    relation, commands that are answered, and sectors read through the data register.
  \<^item> \<open>Audio\<close>: the mixer \<open>aica/audio.c\<close>; \<open>Aica\<close>: the sound chip \<open>aica/aica.c\<close>.
  \<^item> \<open>ArmRegs\<close>, \<open>ArmAlu\<close>: registers, modes, shifter and data processing of \<open>aica/armcore.c\<close>.
  \<^item> \<open>ArmMem\<close>, \<open>ArmCore\<close>: memory accesses (\<open>aica/armmem.c\<close>), the other instructions and the loop.
  \<^item> \<open>ArmInvariant\<close>, \<open>ArmBlock\<close>, \<open>AicaProps\<close>: what the sound processor can change, the block
    transfers, and the chip as a whole, with the contract \<open>arm_invariant\<close>.

  What the lemmas show. For the queues and tables: invariants that every operation keeps, and
  views as lists against which each operation is specified. For the processors: what mode
  changes, exception entry and return do to the banked registers; the shifter and the flags
  against reference definitions. For the chips: that interrupt lines show exactly what is
  pending, that mixing stays in range, that time slices return. For the drive: that no access
  leaves the sector buffer, that commands are answered, and that the bytes of the disc arrive.

  Loops that may not end in C (a damaged list, a failed assertion, a linked list in emulated
  memory) have results in \<open>option\<close>, and the theorems state when they return. No fuel is used.

  Not modelled: the user interfaces and host drivers; code generation and the instruction
  interpreters, which are generated from description files; OpenGL rendering. Functions of
  the parts that are not modelled yet enter as parameters, with what the code relies on as
  hypotheses. Plan: the thread queue, the DMA controller, the memory cards, the tile
  accelerator and the MMU.
\<close>

end
